(* ===== verification/Mir_Prelude.thy ===== *)
theory Mir_Prelude
  imports Main "HOL-Library.Word" "HOL-Library.AList" "HOL-Library.Monad_Syntax" "HOL-Library.Multiset"
begin

text \<open>
  Shared vocabulary of the development: the Go types the program is written with, partiality
  as \<open>option\<close>, slices, insertion-ordered maps, and the generic lemmas about them.

  \<^item> \<open>uint64\<close>, \<open>uint32\<close> and \<open>byte\<close> are words of that width, so \<open>+\<close> and \<open>-\<close> wrap around as in Go;
    \<open>int32\<close> is a 32-bit word read with \<open>sint\<close>; Go's \<open>int\<close> is HOL's \<open>int\<close> or \<open>nat\<close> where it is a length.
  \<^item> \<open>[]byte\<close> is \<open>byte list option\<close>: \<open>None\<close> is the nil slice. The conversion \<open>string(b)\<close> used for map
    keys and the comparison \<open>bytes.Equal\<close> do not tell nil from empty; \<open>b == nil\<close> does.
  \<^item> a panic (an assertion failure, a nil dereference, an index out of range) is \<open>None\<close>; a function
    that may panic returns an \<open>option\<close> and is written with the \<open>do\<close> notation of the option monad.
  \<^item> a Go map that is only looked up is a HOL map; a Go map that is ranged over or whose size is
    taken is an association list without repeated keys, in the order of one iteration.
  \<^item> logging has no influence on the state and is left out everywhere.
\<close>

type_synonym u64 = "64 word"
type_synonym u32 = "32 word"
type_synonym i32 = "32 word"
type_synonym byte = "8 word"
type_synonym bytes = "byte list option"
type_synonym ('k, 'v) gomap = "('k \<times> 'v) list"

named_theorems go_defs \<open>definitions to unfold when a concrete run is evaluated\<close>

section \<open>Panics\<close>

definition assert :: "bool \<Rightarrow> unit option" where
  [go_defs]: "assert b = (if b then Some () else None)"

lemma assert_eq_Some [simp]: "assert b = Some u \<longleftrightarrow> b"
  by (simp add: assert_def)

lemma assert_eq_None [simp]: "assert b = None \<longleftrightarrow> \<not> b"
  by (simp add: assert_def)

lemma assert_simps [simp]: "assert True = Some ()" "assert False = None"
  by (simp_all add: assert_def)

lemma bind_eq_None_conv: "Option.bind m f = None \<longleftrightarrow> m = None \<or> (\<exists>x. m = Some x \<and> f x = None)"
  by (cases m) auto

text \<open>A loop over a slice whose body may panic.\<close>

fun ofold :: "('a \<Rightarrow> 's \<Rightarrow> 's option) \<Rightarrow> 'a list \<Rightarrow> 's \<Rightarrow> 's option" where
  "ofold f [] s = Some s"
| "ofold f (x # xs) s = (case f x s of None \<Rightarrow> None | Some s' \<Rightarrow> ofold f xs s')"

lemma ofold_append: "ofold f (xs @ ys) s = Option.bind (ofold f xs s) (ofold f ys)"
  by (induction xs arbitrary: s) (auto split: option.splits)

lemma ofold_invariant:
  assumes "ofold f xs s = Some t" and "P s"
    and "\<And>x s s'. x \<in> set xs \<Longrightarrow> P s \<Longrightarrow> f x s = Some s' \<Longrightarrow> P s'"
  shows "P t"
  using assms
proof (induction xs arbitrary: s)
  case Nil
  then show ?case by simp
next
  case (Cons x xs)
  from Cons.prems(1) obtain s' where s': "f x s = Some s'" "ofold f xs s' = Some t"
    by (auto split: option.splits)
  moreover have "P s'" using Cons.prems(2,3) s'(1) by (meson list.set_intros(1))
  ultimately show ?case using Cons.IH Cons.prems(3) by (meson list.set_intros(2))
qed

lemma ofold_total:
  assumes "P s" and "\<And>x s. x \<in> set xs \<Longrightarrow> P s \<Longrightarrow> \<exists>s'. f x s = Some s' \<and> P s'"
  shows "\<exists>t. ofold f xs s = Some t \<and> P t"
  using assms
proof (induction xs arbitrary: s)
  case Nil
  then show ?case by simp
next
  case (Cons x xs)
  then obtain s' where "f x s = Some s'" and "P s'" by (metis list.set_intros(1))
  then show ?case using Cons.IH [of s'] Cons.prems(2) by auto
qed

lemma ofold_rel:
  assumes "ofold f xs s = Some t" and "\<And>x s t. f x s = Some t \<Longrightarrow> R s t"
    and R: "\<And>s. R s s" "\<And>a b c. R a b \<Longrightarrow> R b c \<Longrightarrow> R a c"
  shows "R s t"
  using assms(1)
proof (induction xs arbitrary: s)
  case (Cons x xs)
  then show ?case by (auto split: option.splits intro: R(2) [OF assms(2)])
qed (auto intro: R)

section \<open>Byte slices\<close>

definition bstr :: "bytes \<Rightarrow> byte list" where
  [go_defs]: "bstr b = (case b of None \<Rightarrow> [] | Some x \<Rightarrow> x)"

definition bytes_equal :: "bytes \<Rightarrow> bytes \<Rightarrow> bool" where
  [go_defs]: "bytes_equal a b \<longleftrightarrow> bstr a = bstr b"

lemma bstr_simps [simp]: "bstr None = []" "bstr (Some x) = x"
  by (simp_all add: bstr_def)

lemma bytes_equal_iff [simp]: "bytes_equal a b \<longleftrightarrow> bstr a = bstr b"
  by (simp add: bytes_equal_def)

section \<open>Slices\<close>

text \<open>Reading and writing by an \<open>int\<close> index panics outside the slice.\<close>

definition slice_get :: "'a list \<Rightarrow> int \<Rightarrow> 'a option" where
  [go_defs]: "slice_get xs i = (if 0 \<le> i \<and> i < int (length xs) then Some (xs ! nat i) else None)"

definition slice_set :: "'a list \<Rightarrow> int \<Rightarrow> 'a \<Rightarrow> 'a list option" where
  [go_defs]: "slice_set xs i v = (if 0 \<le> i \<and> i < int (length xs) then Some (xs[nat i := v]) else None)"

lemma slice_get_Some:
  "slice_get xs i = Some v \<longleftrightarrow> 0 \<le> i \<and> nat i < length xs \<and> v = xs ! nat i"
  by (auto simp: slice_get_def)

lemma slice_set_Some:
  "slice_set xs i v = Some ys \<longleftrightarrow> 0 \<le> i \<and> nat i < length xs \<and> ys = xs[nat i := v]"
  by (auto simp: slice_set_def)

lemma slice_get_nat [simp]: "slice_get xs (int n) = (if n < length xs then Some (xs ! n) else None)"
  by (simp add: slice_get_def)

lemma slice_set_nat [simp]: "slice_set xs (int n) v = (if n < length xs then Some (xs[n := v]) else None)"
  by (simp add: slice_set_def)

section \<open>Insertion-ordered maps\<close>

abbreviation gm_lookup :: "('k, 'v) gomap \<Rightarrow> 'k \<Rightarrow> 'v option" where
  "gm_lookup \<equiv> map_of"

abbreviation gm_update :: "'k \<Rightarrow> 'v \<Rightarrow> ('k, 'v) gomap \<Rightarrow> ('k, 'v) gomap" where
  "gm_update \<equiv> AList.update"

abbreviation gm_delete :: "'k \<Rightarrow> ('k, 'v) gomap \<Rightarrow> ('k, 'v) gomap" where
  "gm_delete \<equiv> AList.delete"

definition gm_distinct :: "('k, 'v) gomap \<Rightarrow> bool" where
  [go_defs]: "gm_distinct m \<longleftrightarrow> distinct (map fst m)"

lemma gm_distinct_Nil [simp]: "gm_distinct []"
  by (simp add: gm_distinct_def)

lemma gm_distinct_update [simp]: "gm_distinct m \<Longrightarrow> gm_distinct (gm_update k v m)"
  by (simp add: gm_distinct_def distinct_update)

lemma gm_distinct_delete [simp]: "gm_distinct m \<Longrightarrow> gm_distinct (gm_delete k m)"
  by (simp add: gm_distinct_def distinct_delete)

lemma gm_lookup_filter:
  "gm_lookup (filter (\<lambda>(s, _). P s) m) k = (if P k then gm_lookup m k else None)"
  by (induction m) auto

text \<open>A set represented by the list of its members (a Go \<open>map[k]struct{}\<close>).\<close>

definition ls_insert :: "'a \<Rightarrow> 'a list \<Rightarrow> 'a list" where
  [go_defs]: "ls_insert x xs = (if x \<in> set xs then xs else xs @ [x])"

lemma set_ls_insert [simp]: "set (ls_insert x xs) = insert x (set xs)"
  by (auto simp: ls_insert_def)

lemma distinct_ls_insert [simp]: "distinct xs \<Longrightarrow> distinct (ls_insert x xs)"
  by (simp add: ls_insert_def)

lemma length_distinct_card: "distinct xs \<Longrightarrow> length xs = card (set xs)"
  by (simp add: distinct_card)

lemma sorted_wrt_snoc_less:
  "sorted_wrt (<) (xs :: 'a::order list) \<Longrightarrow> xs \<noteq> [] \<Longrightarrow> last xs < y \<Longrightarrow> sorted_wrt (<) (xs @ [y])"
  by (induction xs) (auto split: if_splits intro: less_trans)

section \<open>Words\<close>

lemma unat_Suc_less: "x < (y :: 'a::len word) \<Longrightarrow> unat (x + 1) = Suc (unat x)"
proof -
  assume "x < y"
  then have "unat x + 1 < 2 ^ LENGTH('a)"
    by (metis Suc_eq_plus1 Suc_leI le_less_trans unsigned_less word_less_nat_alt)
  then show ?thesis by (cases "LENGTH('a)") (simp_all add: unat_word_ariths)
qed

lemma word_less_Suc_le: "x < (y :: 'a::len word) \<Longrightarrow> x + 1 \<le> y"
  by (metis Suc_leI unat_Suc_less word_le_nat_alt word_less_nat_alt)

lemma unat_diff_le: "b \<le> (a :: 'a::len word) \<Longrightarrow> unat (a - b) = unat a - unat b"
  by (simp add: unat_sub)

lemma loop_measure: "x < (y :: 'a::len word) \<Longrightarrow> unat (y - (x + 1)) < unat (y - x)"
  using word_less_Suc_le [of x y] unat_Suc_less [of x y]
  by (simp add: unat_diff_le order.strict_implies_order) (simp add: word_less_nat_alt)

lemma unat_add_no_wrap: "unat a + unat b < 2 ^ LENGTH('a) \<Longrightarrow> unat (a + b :: 'a::len word) = unat a + unat b"
  by (simp add: unat_word_ariths)

end
