(* ===== verification/Mir_Msgs.thy ===== *)
theory Mir_Msgs
  imports Mir_Prelude
begin

text \<open>
  The protocol's data: the message, write-ahead-log, network-state, event and action types that
  \<open>pkg/pb/msgs\<close> and \<open>pkg/pb/state\<close> declare. A message struct is a record with the struct's fields (a
  short prefix keeps the field names apart), a oneof is a datatype with the oneof's cases. Message
  structs are never mutated once built, so a pointer to one is the record itself; fields the code
  never leaves nil are plain.
\<close>

section \<open>Network state\<close>

record NetworkConfig =
  ncNodes :: "u64 list"
  ncCheckpointInterval :: i32
  ncMaxEpochLength :: u64
  ncNumberOfBuckets :: i32
  ncF :: i32

record ClientState =
  clId :: u64
  clWidth :: u32
  clWidthConsumed :: u32
  clLowWatermark :: u64
  clCommittedMask :: bytes

datatype Reconfiguration =
    NewClient u64 u32
  | RemoveClient u64
  | NewConfig NetworkConfig

record NetworkState =
  nsConfig :: NetworkConfig
  nsClients :: "ClientState list"
  nsPending :: "Reconfiguration list"
  nsReconfigured :: bool

section \<open>Protocol messages\<close>

record RequestAck =
  ackClientId :: u64
  ackReqNo :: u64
  ackDigest :: bytes

record CheckpointMsg =
  cpSeqNo :: u64
  cpValue :: bytes

record SetEntry =
  seEpoch :: u64
  seSeqNo :: u64
  seDigest :: bytes

record EpochChangeMsg =
  ecmNewEpoch :: u64
  ecmCheckpoints :: "CheckpointMsg list"
  ecmPSet :: "SetEntry list"
  ecmQSet :: "SetEntry list"

record EpochConfig =
  epNumber :: u64
  epLeaders :: "u64 list"
  epPlannedExpiration :: u64

record NewEpochConfig =
  necConfig :: EpochConfig
  necStartingCheckpoint :: CheckpointMsg
  necFinalPreprepares :: "bytes list"

record RemoteEpochChange =
  recNodeId :: u64
  recDigest :: bytes

record NewEpochMsg =
  neNewConfig :: NewEpochConfig
  neEpochChanges :: "RemoteEpochChange list"

datatype Msg =
    Msg_Preprepare (ppSeqNo: u64) (ppEpoch: u64) (ppBatch: "RequestAck list")
  | Msg_Prepare (prSeqNo: u64) (prEpoch: u64) (prDigest: bytes)
  | Msg_Commit (cmSeqNo: u64) (cmEpoch: u64) (cmDigest: bytes)
  | Msg_Checkpoint CheckpointMsg
  | Msg_Suspect (susEpoch: u64)
  | Msg_EpochChange EpochChangeMsg
  | Msg_EpochChangeAck u64 EpochChangeMsg
  | Msg_NewEpoch "NewEpochMsg option"
  | Msg_NewEpochEcho NewEpochConfig
  | Msg_NewEpochReady NewEpochConfig
  | Msg_FetchBatch u64 bytes
  | Msg_ForwardBatch u64 "RequestAck list" bytes
  | Msg_FetchRequest RequestAck
  | Msg_ForwardRequest RequestAck bytes
  | Msg_RequestAck RequestAck

section \<open>Write-ahead log entries\<close>

record QEntry =
  qeSeqNo :: u64
  qeDigest :: bytes
  qeRequests :: "RequestAck list"

record PEntry =
  peSeqNo :: u64
  peDigest :: bytes

record CEntry =
  ceSeqNo :: u64
  ceCheckpointValue :: bytes
  ceNetworkState :: NetworkState

record NEntry =
  neSeqNo :: u64
  neEpochConfig :: EpochConfig

record FEntry =
  feEndsEpochConfig :: EpochConfig

record ECEntry =
  eceEpochNumber :: u64

record TEntry =
  teSeqNo :: u64
  teValue :: bytes

datatype Persistent =
    Persistent_QEntry QEntry
  | Persistent_PEntry PEntry
  | Persistent_CEntry CEntry
  | Persistent_NEntry NEntry
  | Persistent_FEntry FEntry
  | Persistent_ECEntry ECEntry
  | Persistent_TEntry TEntry
  | Persistent_Suspect u64

section \<open>Actions and events\<close>

datatype HashOrigin =
    HashOrigin_Batch (hbSource: u64) (hbEpoch: u64) (hbSeqNo: u64) (hbRequestAcks: "RequestAck list")
  | HashOrigin_EpochChange (heSource: u64) (heOrigin: u64) (heEpochChange: EpochChangeMsg)
  | HashOrigin_VerifyBatch (hvSource: u64) (hvSeqNo: u64) (hvRequestAcks: "RequestAck list")
      (hvExpectedDigest: bytes)

datatype Action =
    Action_Send "u64 list" Msg
  | Action_Hash "bytes list" HashOrigin
  | Action_AppendWriteAhead u64 Persistent
  | Action_TruncateWriteAhead u64
  | Action_Commit QEntry
  | Action_Checkpoint u64 NetworkConfig "ClientState list"
  | Action_AllocatedRequest u64 u64
  | Action_CorrectRequest RequestAck
  | Action_ForwardRequest "u64 list" RequestAck
  | Action_StateTransfer u64 bytes

record InitialParameters =
  ipId :: u64
  ipBatchSize :: u32
  ipHeartbeatTicks :: u32
  ipSuspectTicks :: u32
  ipNewEpochTimeoutTicks :: u32
  ipBufferSize :: u32

record CheckpointResult =
  crSeqNo :: u64
  crValue :: bytes
  crNetworkState :: NetworkState
  crReconfigured :: bool

datatype Event =
    Event_Initialize InitialParameters
  | Event_LoadPersistedEntry u64 Persistent
  | Event_CompleteInitialization
  | Event_HashResult bytes HashOrigin
  | Event_CheckpointResult CheckpointResult
  | Event_RequestPersisted RequestAck
  | Event_StateTransferComplete u64 bytes NetworkState
  | Event_StateTransferFailed u64 bytes
  | Event_Step u64 Msg
  | Event_TickElapsed
  | Event_ActionsReceived

end
