(* ===== verification/Mir_Actions.thy ===== *)
theory Mir_Actions
  imports Mir_Msgs
begin

text \<open>
  \<open>pkg/statemachine/actions.go\<close> and \<open>events.go\<close>: the lists of actions the state machine hands out and
  of events it consumes, with the methods that build them and the iterators that read them. A list
  is the sequence of its elements; that Go allocates the underlying \<open>container/list\<close> lazily cannot be
  observed through the methods. A method that returns its receiver returns the new list.
\<close>

section \<open>Action lists\<close>

type_synonym ActionList = "Action list"

definition ActionList_PushBack :: "ActionList \<Rightarrow> Action \<Rightarrow> ActionList" where
  [go_defs, simp]: "ActionList_PushBack al a = al @ [a]"

definition ActionList_concat :: "ActionList \<Rightarrow> ActionList \<Rightarrow> ActionList" where
  [go_defs, simp]: "ActionList_concat al o' = al @ o'"

definition ActionList_PushBackList :: "ActionList \<Rightarrow> ActionList \<Rightarrow> ActionList" where
  [go_defs, simp]: "ActionList_PushBackList al o' = ActionList_concat al o'"

definition ActionList_Len :: "ActionList \<Rightarrow> nat" where
  [go_defs, simp]: "ActionList_Len al = length al"

definition ActionList_isEmpty :: "ActionList \<Rightarrow> bool" where
  [go_defs, simp]: "ActionList_isEmpty al \<longleftrightarrow> al = []"

definition ActionList_Send :: "ActionList \<Rightarrow> u64 list \<Rightarrow> Msg \<Rightarrow> ActionList" where
  [go_defs, simp]: "ActionList_Send al targets msg = ActionList_PushBack al (Action_Send targets msg)"

definition ActionList_AllocateRequest :: "ActionList \<Rightarrow> u64 \<Rightarrow> u64 \<Rightarrow> ActionList" where
  [go_defs, simp]: "ActionList_AllocateRequest al clientID reqNo =
     ActionList_PushBack al (Action_AllocatedRequest clientID reqNo)"

definition ActionList_ForwardRequest :: "ActionList \<Rightarrow> u64 list \<Rightarrow> RequestAck \<Rightarrow> ActionList" where
  [go_defs, simp]: "ActionList_ForwardRequest al targets ack =
     ActionList_PushBack al (Action_ForwardRequest targets ack)"

definition ActionList_Truncate :: "ActionList \<Rightarrow> u64 \<Rightarrow> ActionList" where
  [go_defs, simp]: "ActionList_Truncate al index = ActionList_PushBack al (Action_TruncateWriteAhead index)"

definition ActionList_Persist :: "ActionList \<Rightarrow> u64 \<Rightarrow> Persistent \<Rightarrow> ActionList" where
  [go_defs, simp]: "ActionList_Persist al index p = ActionList_PushBack al (Action_AppendWriteAhead index p)"

definition ActionList_Commit :: "ActionList \<Rightarrow> QEntry \<Rightarrow> ActionList" where
  [go_defs, simp]: "ActionList_Commit al qEntry = ActionList_PushBack al (Action_Commit qEntry)"

definition ActionList_Checkpoint ::
  "ActionList \<Rightarrow> u64 \<Rightarrow> NetworkConfig \<Rightarrow> ClientState list \<Rightarrow> ActionList" where
  [go_defs, simp]: "ActionList_Checkpoint al seqNo nc clients =
     ActionList_PushBack al (Action_Checkpoint seqNo nc clients)"

definition ActionList_CorrectRequest :: "ActionList \<Rightarrow> RequestAck \<Rightarrow> ActionList" where
  [go_defs, simp]: "ActionList_CorrectRequest al ack = ActionList_PushBack al (Action_CorrectRequest ack)"

definition ActionList_Hash :: "ActionList \<Rightarrow> bytes list \<Rightarrow> HashOrigin \<Rightarrow> ActionList" where
  [go_defs, simp]: "ActionList_Hash al data origin = ActionList_PushBack al (Action_Hash data origin)"

definition ActionList_StateTransfer :: "ActionList \<Rightarrow> u64 \<Rightarrow> bytes \<Rightarrow> ActionList" where
  [go_defs, simp]: "ActionList_StateTransfer al seqNo v = ActionList_PushBack al (Action_StateTransfer seqNo v)"

text \<open>An iterator is the part of the list from its current element on.\<close>

type_synonym ActionListIterator = "Action list"

definition ActionList_Iterator :: "ActionList \<Rightarrow> ActionListIterator" where
  [go_defs, simp]: "ActionList_Iterator al = al"

fun ActionListIterator_Next :: "ActionListIterator \<Rightarrow> Action option \<times> ActionListIterator" where
  "ActionListIterator_Next [] = (None, [])"
| "ActionListIterator_Next (a # it) = (Some a, it)"

section \<open>Event lists\<close>

type_synonym EventList = "Event list"

definition EventList_PushBack :: "EventList \<Rightarrow> Event \<Rightarrow> EventList" where
  [go_defs, simp]: "EventList_PushBack el e = el @ [e]"

definition EventList_PushBackList :: "EventList \<Rightarrow> EventList \<Rightarrow> EventList" where
  [go_defs, simp]: "EventList_PushBackList el o' = el @ o'"

definition EventList_Len :: "EventList \<Rightarrow> nat" where
  [go_defs, simp]: "EventList_Len el = length el"

definition EventList_Initialize :: "EventList \<Rightarrow> InitialParameters \<Rightarrow> EventList" where
  [go_defs, simp]: "EventList_Initialize el ps = EventList_PushBack el (Event_Initialize ps)"

definition EventList_LoadPersistedEntry :: "EventList \<Rightarrow> u64 \<Rightarrow> Persistent \<Rightarrow> EventList" where
  [go_defs, simp]: "EventList_LoadPersistedEntry el index entry =
     EventList_PushBack el (Event_LoadPersistedEntry index entry)"

definition EventList_CompleteInitialization :: "EventList \<Rightarrow> EventList" where
  [go_defs, simp]: "EventList_CompleteInitialization el = EventList_PushBack el Event_CompleteInitialization"

definition EventList_HashResult :: "EventList \<Rightarrow> bytes \<Rightarrow> HashOrigin \<Rightarrow> EventList" where
  [go_defs, simp]: "EventList_HashResult el digest origin = EventList_PushBack el (Event_HashResult digest origin)"

definition EventList_CheckpointResult ::
  "EventList \<Rightarrow> bytes \<Rightarrow> Reconfiguration list \<Rightarrow> u64 \<Rightarrow> NetworkConfig \<Rightarrow> ClientState list \<Rightarrow> EventList" where
  [go_defs, simp]: "EventList_CheckpointResult el v pending seqNo nc clients =
     EventList_PushBack el (Event_CheckpointResult
       \<lparr>crSeqNo = seqNo, crValue = v,
        crNetworkState = \<lparr>nsConfig = nc, nsClients = clients, nsPending = pending, nsReconfigured = False\<rparr>,
        crReconfigured = False\<rparr>)"

definition EventList_RequestPersisted :: "EventList \<Rightarrow> RequestAck \<Rightarrow> EventList" where
  [go_defs, simp]: "EventList_RequestPersisted el ack = EventList_PushBack el (Event_RequestPersisted ack)"

definition EventList_StateTransferComplete ::
  "EventList \<Rightarrow> NetworkState \<Rightarrow> u64 \<Rightarrow> bytes \<Rightarrow> EventList" where
  [go_defs, simp]: "EventList_StateTransferComplete el ns seqNo v =
     EventList_PushBack el (Event_StateTransferComplete seqNo v ns)"

definition EventList_StateTransferFailed :: "EventList \<Rightarrow> u64 \<Rightarrow> bytes \<Rightarrow> EventList" where
  [go_defs, simp]: "EventList_StateTransferFailed el seqNo v =
     EventList_PushBack el (Event_StateTransferFailed seqNo v)"

definition EventList_Step :: "EventList \<Rightarrow> u64 \<Rightarrow> Msg \<Rightarrow> EventList" where
  [go_defs, simp]: "EventList_Step el source msg = EventList_PushBack el (Event_Step source msg)"

definition EventList_TickElapsed :: "EventList \<Rightarrow> EventList" where
  [go_defs, simp]: "EventList_TickElapsed el = EventList_PushBack el Event_TickElapsed"

definition EventList_ActionsReceived :: "EventList \<Rightarrow> EventList" where
  [go_defs, simp]: "EventList_ActionsReceived el = EventList_PushBack el Event_ActionsReceived"

type_synonym EventListIterator = "Event list"

definition EventList_Iterator :: "EventList \<Rightarrow> EventListIterator" where
  [go_defs, simp]: "EventList_Iterator el = el"

fun EventListIterator_Next :: "EventListIterator \<Rightarrow> Event option \<times> EventListIterator" where
  "EventListIterator_Next [] = (None, [])"
| "EventListIterator_Next (e # it) = (Some e, it)"

section \<open>What the rest of the program relies on\<close>

text \<open>Projections of an action list used to state what a component asks for.\<close>

definition commits_of :: "ActionList \<Rightarrow> QEntry list" where
  [go_defs]: "commits_of al = List.map_filter (\<lambda>a. case a of Action_Commit q \<Rightarrow> Some q | _ \<Rightarrow> None) al"

definition checkpoints_of :: "ActionList \<Rightarrow> u64 list" where
  [go_defs]: "checkpoints_of al = List.map_filter (\<lambda>a. case a of Action_Checkpoint s _ _ \<Rightarrow> Some s | _ \<Rightarrow> None) al"

definition writes_of :: "ActionList \<Rightarrow> (u64 \<times> Persistent) list" where
  [go_defs]: "writes_of al = List.map_filter (\<lambda>a. case a of Action_AppendWriteAhead i p \<Rightarrow> Some (i, p) | _ \<Rightarrow> None) al"

definition sends_of :: "ActionList \<Rightarrow> (u64 list \<times> Msg) list" where
  [go_defs]: "sends_of al = List.map_filter (\<lambda>a. case a of Action_Send t m \<Rightarrow> Some (t, m) | _ \<Rightarrow> None) al"

lemma map_filter_append: "List.map_filter f (xs @ ys) = List.map_filter f xs @ List.map_filter f ys"
  by (simp add: List.map_filter_def)

lemma map_filter_Cons: "List.map_filter f (x # xs) =
    (case f x of None \<Rightarrow> List.map_filter f xs | Some y \<Rightarrow> y # List.map_filter f xs)"
  by (simp add: List.map_filter_def split: option.splits)

lemma map_filter_Nil: "List.map_filter f [] = []"
  by (simp add: List.map_filter_def)

lemmas map_filter_rules = map_filter_append map_filter_Cons map_filter_Nil

lemma commits_of_simps [simp]:
  "commits_of [] = []"
  "commits_of (a # al) = (case a of Action_Commit q \<Rightarrow> q # commits_of al | _ \<Rightarrow> commits_of al)"
  "commits_of (al @ bl) = commits_of al @ commits_of bl"
  by (simp_all add: commits_of_def map_filter_rules split: Action.splits)

lemma checkpoints_of_simps [simp]:
  "checkpoints_of [] = []"
  "checkpoints_of (a # al) = (case a of Action_Checkpoint s _ _ \<Rightarrow> s # checkpoints_of al | _ \<Rightarrow> checkpoints_of al)"
  "checkpoints_of (al @ bl) = checkpoints_of al @ checkpoints_of bl"
  by (simp_all add: checkpoints_of_def map_filter_rules split: Action.splits)

lemma writes_of_simps [simp]:
  "writes_of [] = []"
  "writes_of (a # al) = (case a of Action_AppendWriteAhead i p \<Rightarrow> (i, p) # writes_of al | _ \<Rightarrow> writes_of al)"
  "writes_of (al @ bl) = writes_of al @ writes_of bl"
  by (simp_all add: writes_of_def map_filter_rules split: Action.splits)

lemma sends_of_simps [simp]:
  "sends_of [] = []"
  "sends_of (a # al) = (case a of Action_Send t m \<Rightarrow> (t, m) # sends_of al | _ \<Rightarrow> sends_of al)"
  "sends_of (al @ bl) = sends_of al @ sends_of bl"
  by (simp_all add: sends_of_def map_filter_rules split: Action.splits)

end
