(* ===== verification/Mir_Stateless.thy ===== *)
theory Mir_Stateless
  imports Mir_Actions "HOL-Library.Signed_Division"
begin

unbundle bit_operations_syntax

text \<open>
  The stateless helpers of \<open>pkg/statemachine/stateless.go\<close> (and \<open>uint64ToBytes\<close> of \<open>proposer.go\<close>): the
  committed-request bitmask, the quorum sizes, the bucket of a request or sequence number, and the
  byte strings hashed for an epoch change. The selection of a new epoch's configuration, the
  largest function of that file, is in theory \<open>Mir_NewEpoch\<close>.

  The bitmask is an instance of the interface \<open>bit_vector\<close>: the client code that builds a mask bit by
  bit is reasoned about once, from the interface's laws.
\<close>

section \<open>Bitmask\<close>

definition bits :: "byte list \<Rightarrow> int" where
  [go_defs]: "bits bm = 8 * int (length bm)"

definition isBitSet :: "byte list \<Rightarrow> int \<Rightarrow> bool option" where
  [go_defs]: "isBitSet bm bitIndex =
     (let byteIndex = bitIndex sdiv 8 in
      if byteIndex \<ge> int (length bm) then Some False
      else do {
        b \<leftarrow> slice_get bm byteIndex;
        let byteOffset = bitIndex smod 8;
        if byteOffset = 0 then Some (b AND 0x80 \<noteq> 0)
        else if byteOffset = 1 then Some (b AND 0x40 \<noteq> 0)
        else if byteOffset = 2 then Some (b AND 0x20 \<noteq> 0)
        else if byteOffset = 3 then Some (b AND 0x10 \<noteq> 0)
        else if byteOffset = 4 then Some (b AND 0x08 \<noteq> 0)
        else if byteOffset = 5 then Some (b AND 0x04 \<noteq> 0)
        else if byteOffset = 6 then Some (b AND 0x02 \<noteq> 0)
        else if byteOffset = 7 then Some (b AND 0x01 \<noteq> 0)
        else None
      })"

definition setBit :: "byte list \<Rightarrow> int \<Rightarrow> byte list option" where
  [go_defs]: "setBit bm bitIndex =
     (let byteIndex = bitIndex sdiv 8 in
      if byteIndex > int (length bm) then None
      else do {
        b \<leftarrow> slice_get bm byteIndex;
        let byteOffset = bitIndex smod 8;
        let b' = (if byteOffset = 0 then b OR 0x80
                  else if byteOffset = 1 then b OR 0x40
                  else if byteOffset = 2 then b OR 0x20
                  else if byteOffset = 3 then b OR 0x10
                  else if byteOffset = 4 then b OR 0x08
                  else if byteOffset = 5 then b OR 0x04
                  else if byteOffset = 6 then b OR 0x02
                  else if byteOffset = 7 then b OR 0x01
                  else b);
        slice_set bm byteIndex b'
      })"

definition isCommitted :: "u64 \<Rightarrow> ClientState \<Rightarrow> bool option" where
  [go_defs]: "isCommitted reqNo clientState =
     (if reqNo < clLowWatermark clientState then Some True
      else if reqNo > clLowWatermark clientState + ucast (clWidth clientState) then Some False
      else isBitSet (bstr (clCommittedMask clientState)) (sint (reqNo - clLowWatermark clientState)))"

section \<open>Quorums and buckets\<close>

definition intersectionQuorum :: "NetworkConfig \<Rightarrow> int" where
  [go_defs]: "intersectionQuorum nc = (int (length (ncNodes nc)) + sint (ncF nc) + 2) sdiv 2"

definition someCorrectQuorum :: "NetworkConfig \<Rightarrow> int" where
  [go_defs]: "someCorrectQuorum nc = sint (ncF nc) + 1"

definition clientReqToBucket :: "u64 \<Rightarrow> u64 \<Rightarrow> NetworkConfig \<Rightarrow> u64 option" where
  [go_defs]: "clientReqToBucket clientID reqNo nc =
     (let n = scast (ncNumberOfBuckets nc) :: u64 in
      if n = 0 then None else Some ((clientID + reqNo) mod n))"

definition seqToBucket :: "u64 \<Rightarrow> NetworkConfig \<Rightarrow> u64 option" where
  [go_defs]: "seqToBucket seqNo nc =
     (let n = scast (ncNumberOfBuckets nc) :: u64 in
      if n = 0 then None else Some (seqNo mod n))"

section \<open>Hash input of an epoch change\<close>

definition uint64ToBytes :: "u64 \<Rightarrow> byte list" where
  [go_defs]: "uint64ToBytes v = map (\<lambda>i. ucast (drop_bit (56 - 8 * i) v)) [0..<8]"

text \<open>
  The Go code allocates the slice and fills it by index; the three loops below are its loops, each
  writing the entries of one list at its offset.
\<close>

fun writeCheckpoints :: "nat \<Rightarrow> CheckpointMsg list \<Rightarrow> bytes list \<Rightarrow> bytes list" where
  "writeCheckpoints off [] d = d"
| "writeCheckpoints off (cp # cps) d =
     writeCheckpoints (off + 2) cps
       (d[off := Some (uint64ToBytes (cpSeqNo cp)), off + 1 := cpValue cp])"

fun writeEntries :: "nat \<Rightarrow> SetEntry list \<Rightarrow> bytes list \<Rightarrow> bytes list" where
  "writeEntries off [] d = d"
| "writeEntries off (e # es) d =
     writeEntries (off + 3) es
       (d[off := Some (uint64ToBytes (seEpoch e)), off + 1 := Some (uint64ToBytes (seSeqNo e)),
          off + 2 := seDigest e])"

definition epochChangeHashData :: "EpochChangeMsg \<Rightarrow> bytes list" where
  [go_defs]: "epochChangeHashData ec =
     (let hashData = replicate (1 + length (ecmCheckpoints ec) * 2 + length (ecmPSet ec) * 3
                                  + length (ecmQSet ec) * 3) None;
          hashData = hashData[0 := Some (uint64ToBytes (ecmNewEpoch ec))];
          cpOffset = 1;
          hashData = writeCheckpoints cpOffset (ecmCheckpoints ec) hashData;
          pEntryOffset = cpOffset + length (ecmCheckpoints ec) * 2;
          hashData = writeEntries pEntryOffset (ecmPSet ec) hashData;
          qEntryOffset = pEntryOffset + length (ecmPSet ec) * 3;
          hashData = writeEntries qEntryOffset (ecmQSet ec) hashData
      in hashData)"

section \<open>Laws of the bitmask\<close>

definition bitAt :: "byte list \<Rightarrow> nat \<Rightarrow> bool" where
  "bitAt bm i \<longleftrightarrow> i div 8 < length bm \<and> bit (bm ! (i div 8)) (7 - i mod 8)"

lemma sdiv_smod_nat [simp]:
  "int i sdiv 8 = int (i div 8)" "int i smod 8 = int (i mod 8)"
  by (cases "i = 0"; simp add: signed_divide_int_def signed_modulo_int_def zdiv_int zmod_int minus_div_mult_eq_mod)+

lemma and_mask_bit: "(b :: byte) AND 2 ^ k \<noteq> 0 \<longleftrightarrow> k < 8 \<and> bit b k"
proof -
  have "b AND 2 ^ k = 0 \<longleftrightarrow> \<not> (k < 8 \<and> bit b k)"
    by (auto simp: bit_eq_iff [of "b AND 2 ^ k" 0] bit_and_iff bit_exp_iff dest: bit_imp_le_length)
  then show ?thesis by simp
qed

lemma mod8_cases:
  fixes i :: nat
  obtains "i mod 8 = 0" | "i mod 8 = 1" | "i mod 8 = 2" | "i mod 8 = 3"
    | "i mod 8 = 4" | "i mod 8 = 5" | "i mod 8 = 6" | "i mod 8 = 7"
proof -
  have "i mod 8 < 8" by simp
  then have "i mod 8 \<in> {0, 1, 2, 3, 4, 5, 6, 7}" by auto
  then show thesis using that by auto
qed

lemmas mask_bits = and_mask_bit [of _ 7, simplified] and_mask_bit [of _ 6, simplified]
  and_mask_bit [of _ 5, simplified] and_mask_bit [of _ 4, simplified] and_mask_bit [of _ 3, simplified]
  and_mask_bit [of _ 2, simplified] and_mask_bit [of _ 1, simplified] and_mask_bit [of _ 0, simplified]

lemma isBitSet_bitAt: "isBitSet bm (int i) = Some (bitAt bm i)"
  by (cases rule: mod8_cases [of i]) (auto simp: isBitSet_def bitAt_def Let_def mask_bits simp flip: of_nat_less_iff)

lemma or_mask_bit: "k < 8 \<Longrightarrow> bit ((b :: byte) OR 2 ^ k) n \<longleftrightarrow> bit b n \<or> n = k"
  by (auto simp: bit_or_iff bit_exp_iff)

definition setBitNat :: "byte list \<Rightarrow> nat \<Rightarrow> byte list" where
  "setBitNat bm i = bm[i div 8 := bm ! (i div 8) OR 2 ^ (7 - i mod 8)]"

lemma setBit_nat:
  "setBit bm (int i) = (if i div 8 < length bm then Some (setBitNat bm i) else None)"
  by (cases rule: mod8_cases [of i]) (auto simp: setBit_def setBitNat_def Let_def)

lemma length_setBitNat [simp]: "length (setBitNat bm i) = length bm"
  by (simp add: setBitNat_def)

lemma bitAt_setBitNat:
  assumes "i div 8 < length bm"
  shows "bitAt (setBitNat bm i) j \<longleftrightarrow> j = i \<or> bitAt bm j"
proof (cases "j div 8 = i div 8")
  case True
  have "7 - j mod 8 = 7 - i mod 8 \<longleftrightarrow> j mod 8 = i mod 8"
    using mod_less_divisor [of 8 i] mod_less_divisor [of 8 j] by linarith
  moreover have "j mod 8 = i mod 8 \<longleftrightarrow> j = i"
    using True by (metis mod_div_mult_eq)
  ultimately show ?thesis using assms True
    by (auto simp: bitAt_def setBitNat_def or_mask_bit)
next
  case False
  then show ?thesis using assms by (auto simp: bitAt_def setBitNat_def)
qed


text \<open>
  The interface a mask builder relies on: bits below the capacity can be set, setting a bit changes
  that bit only, a fresh mask has none set.
\<close>

locale bit_vector =
  fixes get :: "'m \<Rightarrow> nat \<Rightarrow> bool"
    and put :: "'m \<Rightarrow> nat \<Rightarrow> 'm option"
    and capacity :: "'m \<Rightarrow> nat"
    and blank :: "nat \<Rightarrow> 'm"
  assumes put_total: "i < capacity m \<Longrightarrow> \<exists>m'. put m i = Some m' \<and> capacity m' = capacity m"
    and get_put: "put m i = Some m' \<Longrightarrow> get m' j \<longleftrightarrow> j = i \<or> get m j"
    and get_blank: "\<not> get (blank n) i"
    and capacity_blank: "8 * n = capacity (blank n)"
begin

definition put_all :: "nat list \<Rightarrow> 'm \<Rightarrow> 'm option" where
  "put_all is m = ofold (\<lambda>i m. put m i) is m"

lemma put_all_get:
  assumes "put_all is m = Some m'"
  shows "get m' j \<longleftrightarrow> j \<in> set is \<or> get m j"
  using assms unfolding put_all_def
  by (induction "is" arbitrary: m) (auto simp: get_put split: option.splits)

lemma put_all_total:
  assumes "\<And>i. i \<in> set is \<Longrightarrow> i < capacity m"
  shows "\<exists>m'. put_all is m = Some m' \<and> capacity m' = capacity m"
  unfolding put_all_def
proof (rule ofold_total [where P = "\<lambda>m'. capacity m' = capacity m"])
  fix x s assume "x \<in> set is" "capacity s = capacity m"
  then show "\<exists>s'. put s x = Some s' \<and> capacity s' = capacity m"
    using put_total [of x s] assms by auto
qed simp

lemma put_all_blank:
  assumes "\<And>i. i \<in> set is \<Longrightarrow> i < 8 * n"
  shows "\<exists>m'. put_all is (blank n) = Some m' \<and> (\<forall>j. get m' j \<longleftrightarrow> j \<in> set is)"
  using put_all_total [of "is" "blank n"] put_all_get [of "is" "blank n"] assms
  by (metis capacity_blank get_blank)

end

definition bitmask_blank :: "nat \<Rightarrow> byte list" where
  "bitmask_blank n = replicate n 0"

interpretation bm: bit_vector bitAt "\<lambda>m i. setBit m (int i)" "\<lambda>m. 8 * length m" bitmask_blank
proof
  fix i :: nat and m :: "byte list" assume "i < 8 * length m"
  then have "i div 8 < length m" by (simp add: less_mult_imp_div_less mult.commute)
  then show "\<exists>m'. setBit m (int i) = Some m' \<and> 8 * length m' = 8 * length m"
    by (simp add: setBit_nat)
next
  fix m :: "byte list" and i j m' assume "setBit m (int i) = Some m'"
  then show "bitAt m' j \<longleftrightarrow> j = i \<or> bitAt m j"
    by (auto simp: setBit_nat bitAt_setBitNat split: if_splits)
qed (auto simp: bitAt_def bitmask_blank_def)

lemma bitAt_less: "bitAt m i \<Longrightarrow> i < 8 * length m"
  by (auto simp: bitAt_def less_mult_imp_div_less)

section \<open>Committed requests of a client\<close>

lemma sint_small: "unat (w :: u64) < 2 ^ 63 \<Longrightarrow> sint w = uint w"
proof -
  assume "unat w < 2 ^ 63"
  then have "uint w < 2 ^ 63" by (metis of_nat_less_iff of_nat_numeral of_nat_power of_nat_unat)
  moreover have "- (2 ^ 63) \<le> uint w" by (rule order_trans [of _ 0]) simp_all
  ultimately show ?thesis by (simp only: sint_uint) (simp add: signed_take_bit_int_eq_self)
qed

lemma isBitSet_uint: "isBitSet bm (uint (w :: u64)) = Some (bitAt bm (unat w))"
  using isBitSet_bitAt [of bm "unat w"] by simp

lemma unat_ucast_u32 [simp]: "unat (ucast (w :: u32) :: u64) = unat w"
proof -
  have "unat w < 2 ^ 64" using unsigned_less [of w] by (rule less_trans) simp
  then show ?thesis by (simp add: unsigned_ucast_eq take_bit_nat_eq_self)
qed

lemma window_diff:
  assumes "lw \<le> (r :: u64)" "r \<le> lw + ucast (w :: u32)"
  shows "unat (r - lw) \<le> unat w"
proof -
  have "unat (lw + ucast w) \<le> unat lw + unat w"
    by (simp add: unat_word_ariths)
  then show ?thesis using assms by (simp add: unat_diff_le word_le_nat_alt)
qed

lemma sint_window:
  assumes "lw \<le> (r :: u64)" "r \<le> lw + ucast (w :: u32)"
  shows "sint (r - lw) = uint (r - lw)"
proof (rule sint_small)
  have "unat w < 2 ^ 32" using unsigned_less [of w] by simp
  then show "unat (r - lw) < 2 ^ 63" using window_diff [OF assms] by simp
qed

text \<open>
  \<open>isCommitted\<close> never panics, whatever the watermark, width and mask are, and says that a request number
  is committed exactly when it is below the low watermark, or within the window with its bit set.
\<close>

lemma isCommitted_eq:
  "isCommitted r c = Some (r < clLowWatermark c \<or>
     (r \<le> clLowWatermark c + ucast (clWidth c) \<and>
      bitAt (bstr (clCommittedMask c)) (unat (r - clLowWatermark c))))"
  using sint_window [of "clLowWatermark c" r "clWidth c"]
  by (simp add: isCommitted_def isBitSet_uint not_less) (auto simp: not_less)

section \<open>Quorum systems\<close>

text \<open>
  What the protocol relies on of its quorum sizes, for any configuration type: two strong quorums
  share a correct member, a weak quorum has a correct member, and the correct members alone form a
  strong quorum. The protocol's agreement arguments use these facts only.
\<close>

locale quorum_system =
  fixes wf :: "'c \<Rightarrow> bool"
    and members :: "'c \<Rightarrow> 'n set"
    and faults :: "'c \<Rightarrow> int"
    and strong :: "'c \<Rightarrow> int"
    and weak :: "'c \<Rightarrow> int"
  assumes finite_members: "wf c \<Longrightarrow> finite (members c)"
    and strong_large: "wf c \<Longrightarrow> int (card (members c)) + faults c + 1 \<le> 2 * strong c"
    and strong_small: "wf c \<Longrightarrow> strong c \<le> int (card (members c)) - faults c"
    and weak_large: "wf c \<Longrightarrow> faults c + 1 \<le> weak c"
begin

lemma strong_intersect:
  assumes "wf c" "A \<subseteq> members c" "B \<subseteq> members c"
    and "strong c \<le> int (card A)" "strong c \<le> int (card B)"
  shows "faults c + 1 \<le> int (card (A \<inter> B))"
proof -
  have fin: "finite A" "finite B" "finite (members c)"
    using assms finite_members by (auto intro: finite_subset)
  then have "card (A \<union> B) + card (A \<inter> B) = card A + card B"
    by (metis card_Un_Int)
  moreover have "card (A \<union> B) \<le> card (members c)"
    using assms fin by (auto intro: card_mono)
  ultimately show ?thesis using strong_large [OF assms(1)] assms(4,5) by linarith
qed

lemma exceeds_faults:
  assumes "finite A" "faults c + 1 \<le> int (card A)" "finite bad" "int (card bad) \<le> faults c"
  shows "\<exists>x \<in> A. x \<notin> bad"
proof (rule ccontr)
  assume "\<not> ?thesis"
  then have "A \<subseteq> bad" by blast
  then have "card A \<le> card bad" using assms(3) by (rule card_mono [rotated])
  then show False using assms by linarith
qed

lemma strong_common_correct:
  assumes "wf c" "A \<subseteq> members c" "B \<subseteq> members c"
    and "strong c \<le> int (card A)" "strong c \<le> int (card B)"
    and "finite bad" "int (card bad) \<le> faults c"
  shows "\<exists>x. x \<in> A \<and> x \<in> B \<and> x \<notin> bad"
proof -
  have "finite (A \<inter> B)" using assms finite_members by (auto intro: finite_subset)
  from exceeds_faults [OF this strong_intersect [OF assms(1-5)] assms(6,7)] show ?thesis by blast
qed

lemma weak_correct:
  assumes "wf c" "finite A" "weak c \<le> int (card A)" "finite bad" "int (card bad) \<le> faults c"
  shows "\<exists>x \<in> A. x \<notin> bad"
  using exceeds_faults [of A c bad] weak_large [of c] assms by linarith

lemma strong_available:
  assumes "wf c" "bad \<subseteq> members c" "int (card bad) \<le> faults c"
  shows "strong c \<le> int (card (members c - bad))"
proof -
  have "finite (members c)" using assms finite_members by blast
  moreover have "card bad \<le> card (members c)" using assms calculation by (auto intro: card_mono)
  ultimately have "int (card (members c - bad)) = int (card (members c)) - int (card bad)"
    using assms by (simp add: card_Diff_subset finite_subset of_nat_diff)
  then show ?thesis using strong_small [OF assms(1)] assms(3) by linarith
qed

end

text \<open>A configuration of distinct nodes that tolerates \<open>F\<close> faults.\<close>

definition wf_config :: "NetworkConfig \<Rightarrow> bool" where
  [go_defs]: "wf_config nc \<longleftrightarrow>
     distinct (ncNodes nc) \<and> 0 \<le> sint (ncF nc) \<and> 3 * sint (ncF nc) < int (length (ncNodes nc))"

lemma intersectionQuorum_div:
  assumes "0 \<le> sint (ncF nc)"
  shows "intersectionQuorum nc = (int (length (ncNodes nc)) + sint (ncF nc) + 2) div 2"
  using assms by (simp add: intersectionQuorum_def signed_divide_int_def)

interpretation nq: quorum_system wf_config "\<lambda>nc. set (ncNodes nc)" "\<lambda>nc. sint (ncF nc)"
  intersectionQuorum someCorrectQuorum
proof
  fix c assume wf: "wf_config c"
  then have n: "card (set (ncNodes c)) = length (ncNodes c)"
    by (simp add: wf_config_def distinct_card)
  from wf have q: "intersectionQuorum c = (int (length (ncNodes c)) + sint (ncF c) + 2) div 2"
    by (simp add: wf_config_def intersectionQuorum_div)
  show "finite (set (ncNodes c))" by simp
  show "int (card (set (ncNodes c))) + sint (ncF c) + 1 \<le> 2 * intersectionQuorum c"
    unfolding q n by linarith
  show "intersectionQuorum c \<le> int (card (set (ncNodes c))) - sint (ncF c)"
    unfolding q n using wf by (simp add: wf_config_def) linarith
  show "sint (ncF c) + 1 \<le> someCorrectQuorum c" by (simp add: someCorrectQuorum_def)
qed

text \<open>A network of four nodes tolerating one fault, for the concrete runs of the development.\<close>

definition sampleNet :: NetworkConfig where
  [go_defs]: "sampleNet = \<lparr>ncNodes = [0, 1, 2, 3], ncCheckpointInterval = 5, ncMaxEpochLength = 50,
     ncNumberOfBuckets = 4, ncF = 1\<rparr>"

lemma sampleNet_wf [simp]: "wf_config sampleNet"
  by (simp add: wf_config_def sampleNet_def)

lemma sampleNet_quorums [simp]: "intersectionQuorum sampleNet = 3" "someCorrectQuorum sampleNet = 2"
  by (simp_all add: intersectionQuorum_def someCorrectQuorum_def sampleNet_def)

section \<open>The hash input, as a concatenation\<close>

definition cpData :: "CheckpointMsg \<Rightarrow> bytes list" where
  "cpData cp = [Some (uint64ToBytes (cpSeqNo cp)), cpValue cp]"

definition entryData :: "SetEntry \<Rightarrow> bytes list" where
  "entryData e = [Some (uint64ToBytes (seEpoch e)), Some (uint64ToBytes (seSeqNo e)), seDigest e]"

lemma writeCheckpoints_concat:
  "writeCheckpoints (length pre) cps (pre @ replicate (length cps * 2) x @ post) =
     pre @ concat (map cpData cps) @ post"
proof (induction cps arbitrary: pre)
  case Nil
  then show ?case by simp
next
  case (Cons cp cps)
  have "(pre @ replicate (length (cp # cps) * 2) x @ post)
       [length pre := Some (uint64ToBytes (cpSeqNo cp)), length pre + 1 := cpValue cp]
     = (pre @ cpData cp) @ replicate (length cps * 2) x @ post"
    by (simp add: list_update_append cpData_def)
  then show ?case using Cons.IH [of "pre @ cpData cp"] by (simp add: cpData_def)
qed

lemma writeEntries_concat:
  "writeEntries (length pre) es (pre @ replicate (length es * 3) x @ post) =
     pre @ concat (map entryData es) @ post"
proof (induction es arbitrary: pre)
  case Nil
  then show ?case by simp
next
  case (Cons e es)
  have "(pre @ replicate (length (e # es) * 3) x @ post)
       [length pre := Some (uint64ToBytes (seEpoch e)), length pre + 1 := Some (uint64ToBytes (seSeqNo e)),
        length pre + 2 := seDigest e]
     = (pre @ entryData e) @ replicate (length es * 3) x @ post"
    by (simp add: list_update_append entryData_def numeral_3_eq_3 numeral_2_eq_2)
  moreover have "length (pre @ entryData e) = length pre + 3" by (simp add: entryData_def)
  ultimately show ?case using Cons.IH [of "pre @ entryData e"]
    by (simp only: writeEntries.simps list.map concat.simps append_assoc)
qed

lemma length_cpData: "length (concat (map cpData cps)) = length cps * 2"
  by (induction cps) (auto simp: cpData_def)

lemma length_entryData: "length (concat (map entryData es)) = length es * 3"
  by (induction es) (auto simp: entryData_def)

lemma epochChangeHashData_concat:
  "epochChangeHashData ec = Some (uint64ToBytes (ecmNewEpoch ec)) #
     concat (map cpData (ecmCheckpoints ec)) @ concat (map entryData (ecmPSet ec)) @
     concat (map entryData (ecmQSet ec))"
proof -
  let ?e = "Some (uint64ToBytes (ecmNewEpoch ec))"
  let ?c = "concat (map cpData (ecmCheckpoints ec))" and ?p = "concat (map entryData (ecmPSet ec))"
  let ?nc = "length (ecmCheckpoints ec) * 2" and ?np = "length (ecmPSet ec) * 3"
  let ?nq = "length (ecmQSet ec) * 3"
  have 0: "(replicate (1 + ?nc + ?np + ?nq) (None :: bytes))[0 := ?e] =
    [?e] @ replicate ?nc None @ replicate ?np None @ replicate ?nq None"
    by (simp add: replicate_add)
  have 1: "writeCheckpoints 1 (ecmCheckpoints ec) ([?e] @ replicate ?nc None @ replicate ?np None @ replicate ?nq None)
     = ([?e] @ ?c) @ replicate ?np None @ replicate ?nq None"
    using writeCheckpoints_concat [of "[?e]" "ecmCheckpoints ec" None] by simp
  have 2: "writeEntries (1 + ?nc) (ecmPSet ec) (([?e] @ ?c) @ replicate ?np None @ replicate ?nq None)
     = ([?e] @ ?c @ ?p) @ replicate ?nq None @ []"
    using writeEntries_concat [of "[?e] @ ?c" "ecmPSet ec" None "replicate ?nq None"]
    by (simp add: length_cpData)
  have 3: "writeEntries (1 + ?nc + ?np) (ecmQSet ec) (([?e] @ ?c @ ?p) @ replicate ?nq None @ [])
     = [?e] @ ?c @ ?p @ concat (map entryData (ecmQSet ec))"
    using writeEntries_concat [of "[?e] @ ?c @ ?p" "ecmQSet ec" None "[]"]
    by (simp add: length_cpData length_entryData)
  show ?thesis unfolding epochChangeHashData_def Let_def 0 1 2 3 by simp
qed

lemma uint64ToBytes_bit:
  assumes "n < 64"
  shows "bit (uint64ToBytes v ! (7 - n div 8)) (n mod 8) = bit v n"
proof -
  have "n div 8 < 8" using assms by simp
  then have "56 - 8 * (7 - n div 8) = 8 * (n div 8)" by linarith
  then have "uint64ToBytes v ! (7 - n div 8) = ucast (drop_bit (8 * (n div 8)) v)"
    using nth_upt [of 0 "7 - n div 8" 8] by (simp add: uint64ToBytes_def del: upt_rec_numeral)
  then show ?thesis by (simp add: bit_unsigned_iff bit_drop_bit_eq)
qed

lemma uint64ToBytes_inject: "uint64ToBytes v = uint64ToBytes w \<Longrightarrow> v = w"
  using uint64ToBytes_bit [of _ v] uint64ToBytes_bit [of _ w] by (intro bit_word_eqI) simp

lemma entryData_inject: "concat (map entryData es) = concat (map entryData fs) \<Longrightarrow> es = fs"
proof (induction es arbitrary: fs)
  case Nil
  then show ?case by (cases fs) (simp_all add: entryData_def)
next
  case (Cons e es)
  then obtain f fs' where fs: "fs = f # fs'" by (cases fs) (simp_all add: entryData_def)
  then have "e = f"
    using Cons.prems by (cases e; cases f) (auto simp: entryData_def dest: uint64ToBytes_inject)
  then show ?case using Cons fs by (simp add: entryData_def)
qed

lemma cpData_inject:
  "length es = length fs \<Longrightarrow> concat (map cpData es) @ xs = concat (map cpData fs) @ ys \<longleftrightarrow> es = fs \<and> xs = ys"
proof (induction es fs rule: list_induct2)
  case (Cons e es f fs)
  then show ?case
    by (cases e; cases f) (auto simp: cpData_def dest: uint64ToBytes_inject)
qed simp

section \<open>Properties\<close>

text \<open>C18. Quorums: in a configuration of distinct nodes with more than three times as many nodes as
  faults, any two sets of \<open>intersectionQuorum\<close> nodes have a correct node in common, any set of
  \<open>someCorrectQuorum\<close> nodes has a correct node, and the correct nodes alone are \<open>intersectionQuorum\<close> many.\<close>

theorem quorum_sizes_correct:
  assumes wf: "wf_config nc" and bad: "bad \<subseteq> set (ncNodes nc)" "int (card bad) \<le> sint (ncF nc)"
    and sub: "A \<subseteq> set (ncNodes nc)" "B \<subseteq> set (ncNodes nc)" "C \<subseteq> set (ncNodes nc)"
    and size: "intersectionQuorum nc \<le> int (card A)" "intersectionQuorum nc \<le> int (card B)"
      "someCorrectQuorum nc \<le> int (card C)"
  shows "(\<exists>x. x \<in> A \<and> x \<in> B \<and> x \<notin> bad) \<and> (\<exists>x. x \<in> C \<and> x \<notin> bad) \<and>
    intersectionQuorum nc \<le> int (card (set (ncNodes nc) - bad))"
proof (intro conjI)
  have fin: "finite bad" "finite C" using bad(1) sub(3) by (auto intro: finite_subset)
  show "\<exists>x. x \<in> A \<and> x \<in> B \<and> x \<notin> bad"
    by (rule nq.strong_common_correct [OF wf sub(1,2) size(1,2) fin(1) bad(2)])
  show "\<exists>x. x \<in> C \<and> x \<notin> bad"
    using nq.weak_correct [OF wf fin(2) size(3) fin(1) bad(2)] by blast
  show "intersectionQuorum nc \<le> int (card (set (ncNodes nc) - bad))"
    by (rule nq.strong_available [OF wf bad])
qed

theorem quorum_sizes_correct_witness:
  "(\<exists>x. x \<in> {0, 1, 2} \<and> x \<in> {1, 2, 3} \<and> x \<notin> {1 :: u64}) \<and> (\<exists>x. x \<in> {1, 3} \<and> x \<notin> {1 :: u64}) \<and>
    intersectionQuorum sampleNet \<le> int (card (set (ncNodes sampleNet) - {1}))"
  using quorum_sizes_correct [of sampleNet "{1}" "{0, 1, 2}" "{1, 2, 3}" "{1, 3}"]
  by (simp add: sampleNet_def sampleNet_wf [unfolded sampleNet_def] sampleNet_quorums [unfolded sampleNet_def])



end
