(* ===== verification/Mir_Persisted.thy ===== *)
theory Mir_Persisted
  imports Mir_Stateless
begin

text \<open>
  \<open>pkg/statemachine/persisted.go\<close>: the in-memory image of the write-ahead log. The linked list from
  \<open>logHead\<close> to \<open>logTail\<close> is the list of its (index, entry) pairs; it is empty exactly when \<open>logHead\<close> is
  nil. Operations that other components share return the new log and the actions.

  The interface \<open>wal\<close> is what the components that persist entries rely on: an append succeeds on a
  well-formed log, extends it by exactly that entry, and asks for exactly the matching write.
\<close>

record persisted =
  pNextIndex :: u64
  pLog :: "(u64 \<times> Persistent) list"

definition newPersisted :: persisted where
  [go_defs]: "newPersisted = \<lparr>pNextIndex = 0, pLog = []\<rparr>"

definition appendInitialLoad :: "u64 \<Rightarrow> Persistent \<Rightarrow> persisted \<Rightarrow> persisted option" where
  [go_defs]: "appendInitialLoad index data p =
     (let p' = (if pLog p = [] then p\<lparr>pNextIndex := index, pLog := [(index, data)]\<rparr>
                else p\<lparr>pLog := pLog p @ [(index, data)]\<rparr>)
      in if pNextIndex p' \<noteq> index then None else Some (p'\<lparr>pNextIndex := index + 1\<rparr>))"

definition appendLogEntry :: "Persistent \<Rightarrow> persisted \<Rightarrow> (persisted \<times> ActionList) option" where
  [go_defs]: "appendLogEntry entry p =
     (if pLog p = [] then None
      else Some (p\<lparr>pLog := pLog p @ [(pNextIndex p, entry)], pNextIndex := pNextIndex p + 1\<rparr>,
                 ActionList_Persist [] (pNextIndex p) entry))"

definition addPEntry :: "PEntry \<Rightarrow> persisted \<Rightarrow> (persisted \<times> ActionList) option" where
  [go_defs, simp]: "addPEntry pEntry p = appendLogEntry (Persistent_PEntry pEntry) p"

definition addQEntry :: "QEntry \<Rightarrow> persisted \<Rightarrow> (persisted \<times> ActionList) option" where
  [go_defs, simp]: "addQEntry qEntry p = appendLogEntry (Persistent_QEntry qEntry) p"

definition addNEntry :: "NEntry \<Rightarrow> persisted \<Rightarrow> (persisted \<times> ActionList) option" where
  [go_defs, simp]: "addNEntry nEntry p = appendLogEntry (Persistent_NEntry nEntry) p"

definition addCEntry :: "CEntry \<Rightarrow> persisted \<Rightarrow> (persisted \<times> ActionList) option" where
  [go_defs, simp]: "addCEntry cEntry p = appendLogEntry (Persistent_CEntry cEntry) p"

definition addSuspect :: "u64 \<Rightarrow> persisted \<Rightarrow> (persisted \<times> ActionList) option" where
  [go_defs, simp]: "addSuspect epoch p = appendLogEntry (Persistent_Suspect epoch) p"

definition addECEntry :: "ECEntry \<Rightarrow> persisted \<Rightarrow> (persisted \<times> ActionList) option" where
  [go_defs, simp]: "addECEntry ecEntry p = appendLogEntry (Persistent_ECEntry ecEntry) p"

definition addTEntry :: "TEntry \<Rightarrow> persisted \<Rightarrow> (persisted \<times> ActionList) option" where
  [go_defs, simp]: "addTEntry tEntry p = appendLogEntry (Persistent_TEntry tEntry) p"

text \<open>The entries at which \<open>truncate\<close> may cut: the others are skipped by \<open>continue\<close>.\<close>

definition cutPoint :: "u64 \<Rightarrow> Persistent \<Rightarrow> bool" where
  [go_defs]: "cutPoint lowWatermark e =
     (case e of
        Persistent_CEntry d \<Rightarrow> \<not> ceSeqNo d < lowWatermark
      | Persistent_NEntry d \<Rightarrow> \<not> neSeqNo d \<le> lowWatermark
      | _ \<Rightarrow> False)"

definition truncateLog :: "u64 \<Rightarrow> persisted \<Rightarrow> persisted \<times> ActionList" where
  [go_defs]: "truncateLog lowWatermark p =
     (let rest = dropWhile (\<lambda>(_, e). \<not> cutPoint lowWatermark e) (pLog p) in
      case rest of
        [] \<Rightarrow> (p, [])
      | (index, _) # _ \<Rightarrow>
          if length rest = length (pLog p) then (p, [])
          else (p\<lparr>pLog := rest\<rparr>, ActionList_Truncate [] index))"

section \<open>Iteration\<close>

text \<open>
  The callbacks of a \<open>logIterator\<close> close over local variables: the state \<open>'s\<close>. A nil callback is the
  one that leaves the state alone, as in \<open>noCallbacks\<close>.
\<close>

record 's logIterator =
  onQEntry :: "QEntry \<Rightarrow> 's \<Rightarrow> 's option"
  onPEntry :: "PEntry \<Rightarrow> 's \<Rightarrow> 's option"
  onCEntry :: "CEntry \<Rightarrow> 's \<Rightarrow> 's option"
  onNEntry :: "NEntry \<Rightarrow> 's \<Rightarrow> 's option"
  onFEntry :: "FEntry \<Rightarrow> 's \<Rightarrow> 's option"
  onECEntry :: "ECEntry \<Rightarrow> 's \<Rightarrow> 's option"
  onTEntry :: "TEntry \<Rightarrow> 's \<Rightarrow> 's option"
  onSuspect :: "u64 \<Rightarrow> 's \<Rightarrow> 's option"
  shouldExit :: "'s \<Rightarrow> bool"

definition noCallbacks :: "'s logIterator" where
  [go_defs]: "noCallbacks = \<lparr>onQEntry = \<lambda>_ s. Some s, onPEntry = \<lambda>_ s. Some s, onCEntry = \<lambda>_ s. Some s,
     onNEntry = \<lambda>_ s. Some s, onFEntry = \<lambda>_ s. Some s, onECEntry = \<lambda>_ s. Some s,
     onTEntry = \<lambda>_ s. Some s, onSuspect = \<lambda>_ s. Some s, shouldExit = \<lambda>_. False\<rparr>"

definition dispatch :: "'s logIterator \<Rightarrow> Persistent \<Rightarrow> 's \<Rightarrow> 's option" where
  [go_defs]: "dispatch li e s =
     (case e of
        Persistent_PEntry d \<Rightarrow> onPEntry li d s
      | Persistent_QEntry d \<Rightarrow> onQEntry li d s
      | Persistent_CEntry d \<Rightarrow> onCEntry li d s
      | Persistent_NEntry d \<Rightarrow> onNEntry li d s
      | Persistent_FEntry d \<Rightarrow> onFEntry li d s
      | Persistent_ECEntry d \<Rightarrow> onECEntry li d s
      | Persistent_TEntry d \<Rightarrow> onTEntry li d s
      | Persistent_Suspect d \<Rightarrow> onSuspect li d s)"

fun iterateEntries :: "'s logIterator \<Rightarrow> Persistent list \<Rightarrow> 's \<Rightarrow> 's option" where
  "iterateEntries li [] s = Some s"
| "iterateEntries li (e # es) s =
     do { s' \<leftarrow> dispatch li e s; if shouldExit li s' then Some s' else iterateEntries li es s' }"

definition iterate :: "'s logIterator \<Rightarrow> persisted \<Rightarrow> 's \<Rightarrow> 's option" where
  [go_defs]: "iterate li p s = iterateEntries li (map snd (pLog p)) s"

section \<open>Building our epoch change\<close>

text \<open>The closure state of the first pass: \<open>pSkips\<close> and \<open>logEpoch\<close>.\<close>

type_synonym skipState = "(u64 \<Rightarrow> int) \<times> u64 option"

definition countPEntries :: "u64 \<Rightarrow> skipState logIterator" where
  [go_defs]: "countPEntries newEpoch = noCallbacks\<lparr>
     shouldExit := \<lambda>(skips, logEpoch). (case logEpoch of None \<Rightarrow> False | Some e \<Rightarrow> newEpoch \<le> e),
     onPEntry := \<lambda>pEntry (skips, logEpoch).
       Some (skips(peSeqNo pEntry := skips (peSeqNo pEntry) + 1), logEpoch),
     onNEntry := \<lambda>nEntry (skips, logEpoch). Some (skips, Some (epNumber (neEpochConfig nEntry))),
     onFEntry := \<lambda>fEntry (skips, logEpoch). Some (skips, Some (epNumber (feEndsEpochConfig fEntry)))\<rparr>"

type_synonym collectState = "(u64 \<Rightarrow> int) \<times> u64 option \<times> EpochChangeMsg"

definition collectEntries :: "u64 \<Rightarrow> collectState logIterator" where
  [go_defs]: "collectEntries newEpoch = noCallbacks\<lparr>
     shouldExit := \<lambda>(skips, logEpoch, ec). (case logEpoch of None \<Rightarrow> False | Some e \<Rightarrow> newEpoch \<le> e),
     onPEntry := \<lambda>pEntry (skips, logEpoch, ec).
       (let count = skips (peSeqNo pEntry) in
        if count \<noteq> 1 then Some (skips(peSeqNo pEntry := count - 1), logEpoch, ec)
        else do { e \<leftarrow> logEpoch;
                  Some (skips, logEpoch, ec\<lparr>ecmPSet := ecmPSet ec @
                    [\<lparr>seEpoch = e, seSeqNo = peSeqNo pEntry, seDigest = peDigest pEntry\<rparr>]\<rparr>) }),
     onQEntry := \<lambda>qEntry (skips, logEpoch, ec).
       do { e \<leftarrow> logEpoch;
            Some (skips, logEpoch, ec\<lparr>ecmQSet := ecmQSet ec @
              [\<lparr>seEpoch = e, seSeqNo = qeSeqNo qEntry, seDigest = qeDigest qEntry\<rparr>]\<rparr>) },
     onNEntry := \<lambda>nEntry (skips, logEpoch, ec). Some (skips, Some (epNumber (neEpochConfig nEntry)), ec),
     onFEntry := \<lambda>fEntry (skips, logEpoch, ec). Some (skips, Some (epNumber (feEndsEpochConfig fEntry)), ec),
     onCEntry := \<lambda>cEntry (skips, logEpoch, ec).
       Some (skips, logEpoch, ec\<lparr>ecmCheckpoints := ecmCheckpoints ec @
         [\<lparr>cpSeqNo = ceSeqNo cEntry, cpValue = ceCheckpointValue cEntry\<rparr>]\<rparr>)\<rparr>"

definition constructEpochChange :: "u64 \<Rightarrow> persisted \<Rightarrow> EpochChangeMsg option" where
  [go_defs]: "constructEpochChange newEpoch p =
     do {
       (pSkips, _) \<leftarrow> iterate (countPEntries newEpoch) p (\<lambda>_. 0, None);
       (_, _, ec) \<leftarrow> iterate (collectEntries newEpoch) p
         (pSkips, None, \<lparr>ecmNewEpoch = newEpoch, ecmCheckpoints = [], ecmPSet = [], ecmQSet = []\<rparr>);
       Some ec
     }"

section \<open>Well-formed logs\<close>

text \<open>The indexes of the log are consecutive and \<open>nextIndex\<close> is the one after the last.\<close>

definition wal_inv :: "persisted \<Rightarrow> bool" where
  [go_defs]: "wal_inv p \<longleftrightarrow> pLog p \<noteq> [] \<and>
     map fst (pLog p) = map (\<lambda>i. fst (hd (pLog p)) + of_nat i) [0..<length (pLog p)] \<and>
     pNextIndex p = fst (hd (pLog p)) + of_nat (length (pLog p))"

definition log_entries :: "persisted \<Rightarrow> Persistent list" where
  [go_defs]: "log_entries p = map snd (pLog p)"

text \<open>The interface to the write-ahead log.\<close>

locale wal =
  fixes append :: "'e \<Rightarrow> 'p \<Rightarrow> ('p \<times> 'a list) option"
    and contents :: "'p \<Rightarrow> 'e list"
    and ok :: "'p \<Rightarrow> bool"
    and mk_write :: "'p \<Rightarrow> 'e \<Rightarrow> 'a"
    and written :: "'a \<Rightarrow> 'e option"
  assumes append_ok: "ok p \<Longrightarrow> \<exists>p'. append e p = Some (p', [mk_write p e]) \<and> ok p' \<and> contents p' = contents p @ [e]"
    and written_mk: "written (mk_write p e) = Some e"
begin

fun append_all :: "'e list \<Rightarrow> 'p \<Rightarrow> ('p \<times> 'a list) option" where
  "append_all [] p = Some (p, [])"
| "append_all (e # es) p =
     (case append e p of None \<Rightarrow> None
      | Some (p', as) \<Rightarrow> (case append_all es p' of None \<Rightarrow> None | Some (p'', bs) \<Rightarrow> Some (p'', as @ bs)))"

lemma append_SomeD:
  assumes "ok p" "append e p = Some (p', as)"
  shows "ok p' \<and> contents p' = contents p @ [e] \<and> as = [mk_write p e]"
  using append_ok [OF assms(1), of e] assms(2) by auto

lemma append_all_ok:
  assumes "ok p"
  shows "\<exists>p' as. append_all es p = Some (p', as) \<and> ok p' \<and> contents p' = contents p @ es
    \<and> map written as = map Some es"
  using assms
proof (induction es arbitrary: p)
  case Nil
  then show ?case by simp
next
  case (Cons e es)
  obtain p' where p': "append e p = Some (p', [mk_write p e])" "ok p'" "contents p' = contents p @ [e]"
    using append_ok [OF Cons.prems] by blast
  with Cons.IH [of p'] show ?case by (auto simp: written_mk)
qed

end

definition written_entry :: "Action \<Rightarrow> Persistent option" where
  "written_entry a = (case a of Action_AppendWriteAhead _ e \<Rightarrow> Some e | _ \<Rightarrow> None)"

lemma wal_inv_append:
  assumes "wal_inv p"
  shows "wal_inv (p\<lparr>pLog := pLog p @ [(pNextIndex p, e)], pNextIndex := pNextIndex p + 1\<rparr>)"
  using assms by (simp add: wal_inv_def add.assoc)

interpretation pw: wal appendLogEntry log_entries wal_inv
  "\<lambda>p e. Action_AppendWriteAhead (pNextIndex p) e" written_entry
proof
  fix p e assume "wal_inv p"
  moreover from this have "pLog p \<noteq> []" by (simp add: wal_inv_def)
  ultimately show "\<exists>p'. appendLogEntry e p = Some (p', [Action_AppendWriteAhead (pNextIndex p) e]) \<and>
      wal_inv p' \<and> log_entries p' = log_entries p @ [e]"
    by (simp add: appendLogEntry_def log_entries_def wal_inv_append)
qed (simp add: written_entry_def)

lemma appendLogEntry_Some:
  "appendLogEntry e p = Some (p', acts) \<longleftrightarrow> pLog p \<noteq> [] \<and>
     p' = p\<lparr>pLog := pLog p @ [(pNextIndex p, e)], pNextIndex := pNextIndex p + 1\<rparr> \<and>
     acts = [Action_AppendWriteAhead (pNextIndex p) e]"
  by (auto simp: appendLogEntry_def)

lemma appendInitialLoad_inv:
  assumes "appendInitialLoad i e p = Some p'" "pLog p \<noteq> [] \<longrightarrow> wal_inv p"
  shows "wal_inv p' \<and> log_entries p' = log_entries p @ [e]"
proof (cases "pLog p = []")
  case True
  then show ?thesis using assms(1)
    by (auto simp: appendInitialLoad_def wal_inv_def log_entries_def)
next
  case False
  with assms(1) have p': "pNextIndex p = i"
      "p' = p\<lparr>pLog := pLog p @ [(pNextIndex p, e)], pNextIndex := pNextIndex p + 1\<rparr>"
    by (simp_all add: appendInitialLoad_def split: if_splits)
  show ?thesis using wal_inv_append [of p e] assms(2) False by (simp add: p'(2) log_entries_def)
qed

subsection \<open>Truncation\<close>

lemma wal_inv_nth:
  assumes "wal_inv p" "i < length (pLog p)"
  shows "fst (pLog p ! i) = fst (hd (pLog p)) + of_nat i"
proof -
  have "map fst (pLog p) ! i = map (\<lambda>i. fst (hd (pLog p)) + of_nat i) [0..<length (pLog p)] ! i"
    using assms(1) by (simp add: wal_inv_def)
  then show ?thesis using assms(2) by simp
qed

lemma wal_inv_drop:
  assumes "wal_inv p" "n < length (pLog p)"
  shows "wal_inv (p\<lparr>pLog := drop n (pLog p)\<rparr>)"
proof -
  let ?l = "pLog p" let ?b = "fst (hd ?l)"
  have idx: "fst (?l ! i) = ?b + of_nat i" if "i < length ?l" for i
    using wal_inv_nth [OF assms(1) that] .
  have hd: "hd (drop n ?l) = ?l ! n" using assms(2) by (rule hd_drop_conv_nth)
  have "map fst (drop n ?l) = map (\<lambda>i. fst (hd (drop n ?l)) + of_nat i) [0..<length (drop n ?l)]"
    by (rule nth_equalityI) (use assms(2) in \<open>simp_all add: hd idx add.assoc\<close>)
  moreover have "pNextIndex p = fst (hd (drop n ?l)) + of_nat (length (drop n ?l))"
    using assms by (simp add: hd idx wal_inv_def of_nat_diff)
  ultimately show ?thesis using assms(2) by (simp add: wal_inv_def)
qed

lemma truncateLog_cases:
  obtains (keep) "truncateLog lw p = (p, [])"
  | (cut) n index e where "n < length (pLog p)" "0 < n" "pLog p ! n = (index, e)" "cutPoint lw e"
      "\<forall>i < n. \<not> cutPoint lw (snd (pLog p ! i))"
      "truncateLog lw p = (p\<lparr>pLog := drop n (pLog p)\<rparr>, [Action_TruncateWriteAhead index])"
proof -
  let ?P = "\<lambda>(_ :: u64, e). \<not> cutPoint lw e"
  define n where "n = length (takeWhile ?P (pLog p))"
  have d: "dropWhile ?P (pLog p) = drop n (pLog p)" unfolding n_def by (rule dropWhile_eq_drop)
  have "n \<le> length (pLog p)" by (simp add: n_def length_takeWhile_le)
  then consider "n = 0" | "n = length (pLog p)" | "n < length (pLog p)" "0 < n" by linarith
  then show thesis
  proof cases
    case 1
    then have "truncateLog lw p = (p, [])" by (simp add: truncateLog_def d Let_def split: list.split prod.split)
    then show thesis by (rule keep)
  next
    case 2
    then have "truncateLog lw p = (p, [])" by (simp add: truncateLog_def d)
    then show thesis by (rule keep)
  next
    case 3
    obtain i e where ie: "pLog p ! n = (i, e)" by fastforce
    have c: "cutPoint lw e" using nth_length_takeWhile [of ?P "pLog p"] 3 ie by (simp add: n_def)
    have before: "\<forall>j < n. \<not> cutPoint lw (snd (pLog p ! j))" unfolding n_def
      by (metis (mono_tags, lifting) case_prod_beta nth_mem set_takeWhileD takeWhile_nth)
    have "drop n (pLog p) = (i, e) # drop (Suc n) (pLog p)"
      using 3 ie by (metis Cons_nth_drop_Suc)
    then have "truncateLog lw p = (p\<lparr>pLog := drop n (pLog p)\<rparr>, [Action_TruncateWriteAhead i])"
      using 3 by (simp add: truncateLog_def d)
    then show thesis by (rule cut [OF 3 ie c before])
  qed
qed

section \<open>What an epoch change reports\<close>

text \<open>
  The part of the log an epoch change for \<open>newEpoch\<close> reads ends with the first entry that opens or
  ends an epoch numbered \<open>newEpoch\<close> or more. Within it, every entry belongs to the epoch of the last
  N or F entry before it.
\<close>

definition epochAfter :: "u64 option \<Rightarrow> Persistent \<Rightarrow> u64 option" where
  "epochAfter ep e = (case e of Persistent_NEntry d \<Rightarrow> Some (epNumber (neEpochConfig d))
     | Persistent_FEntry d \<Rightarrow> Some (epNumber (feEndsEpochConfig d)) | _ \<Rightarrow> ep)"

definition reached :: "u64 \<Rightarrow> u64 option \<Rightarrow> bool" where
  "reached n ep = (case ep of None \<Rightarrow> False | Some e \<Rightarrow> n \<le> e)"

fun visible :: "u64 \<Rightarrow> u64 option \<Rightarrow> Persistent list \<Rightarrow> Persistent list" where
  "visible n ep [] = []"
| "visible n ep (e # es) =
     e # (if reached n (epochAfter ep e) then [] else visible n (epochAfter ep e) es)"

definition pCount :: "u64 \<Rightarrow> Persistent list \<Rightarrow> nat" where
  "pCount s es = length (filter (\<lambda>e. case e of Persistent_PEntry d \<Rightarrow> peSeqNo d = s | _ \<Rightarrow> False) es)"

definition pHead :: "u64 option \<Rightarrow> Persistent \<Rightarrow> Persistent list \<Rightarrow> SetEntry list" where
  "pHead ep e es = (case e of
      Persistent_PEntry d \<Rightarrow>
        (if pCount (peSeqNo d) es = 0
         then [\<lparr>seEpoch = the ep, seSeqNo = peSeqNo d, seDigest = peDigest d\<rparr>] else [])
    | _ \<Rightarrow> [])"

definition qHead :: "u64 option \<Rightarrow> Persistent \<Rightarrow> SetEntry list" where
  "qHead ep e = (case e of
      Persistent_QEntry d \<Rightarrow> [\<lparr>seEpoch = the ep, seSeqNo = qeSeqNo d, seDigest = qeDigest d\<rparr>]
    | _ \<Rightarrow> [])"

definition cpHead :: "Persistent \<Rightarrow> CheckpointMsg list" where
  "cpHead e = (case e of
      Persistent_CEntry d \<Rightarrow> [\<lparr>cpSeqNo = ceSeqNo d, cpValue = ceCheckpointValue d\<rparr>] | _ \<Rightarrow> [])"

definition stampedHead :: "u64 option \<Rightarrow> Persistent \<Rightarrow> Persistent list \<Rightarrow> bool" where
  "stampedHead ep e es = (case e of
      Persistent_PEntry d \<Rightarrow> pCount (peSeqNo d) es = 0 \<longrightarrow> ep \<noteq> None
    | Persistent_QEntry d \<Rightarrow> ep \<noteq> None
    | _ \<Rightarrow> True)"

text \<open>
  The P set keeps, of the P entries of each sequence number, the last one; the Q set and the
  checkpoints keep every entry. \<open>stamped\<close> says that every entry that is kept lies after the entry
  that names its epoch.
\<close>

fun pSetSpec :: "u64 option \<Rightarrow> Persistent list \<Rightarrow> SetEntry list" where
  "pSetSpec ep [] = []"
| "pSetSpec ep (e # es) = pHead ep e es @ pSetSpec (epochAfter ep e) es"

fun qSetSpec :: "u64 option \<Rightarrow> Persistent list \<Rightarrow> SetEntry list" where
  "qSetSpec ep [] = []"
| "qSetSpec ep (e # es) = qHead ep e @ qSetSpec (epochAfter ep e) es"

definition cpSpec :: "Persistent list \<Rightarrow> CheckpointMsg list" where
  "cpSpec es = concat (map cpHead es)"

fun stamped :: "u64 option \<Rightarrow> Persistent list \<Rightarrow> bool" where
  "stamped ep [] = True"
| "stamped ep (e # es) = (stampedHead ep e es \<and> stamped (epochAfter ep e) es)"

lemma pCount_simps [simp]:
  "pCount s [] = 0"
  "pCount s (e # es) = (case e of Persistent_PEntry d \<Rightarrow> if peSeqNo d = s then Suc (pCount s es) else pCount s es
     | _ \<Rightarrow> pCount s es)"
  by (simp_all add: pCount_def split: Persistent.splits)

lemma countPEntries_result:
  assumes "\<not> reached n ep"
  shows "\<exists>ep'. iterateEntries (countPEntries n) es (sk, ep) =
     Some (\<lambda>s. sk s + int (pCount s (visible n ep es)), ep')"
  using assms
proof (induction es arbitrary: sk ep)
  case Nil
  then show ?case by simp
next
  case (Cons e es)
  define sk' where "sk' = (\<lambda>s. sk s + int (pCount s [e]))"
  have step: "dispatch (countPEntries n) e (sk, ep) = Some (sk', epochAfter ep e)"
    by (auto simp: dispatch_def countPEntries_def noCallbacks_def epochAfter_def sk'_def fun_eq_iff
        split: Persistent.splits)
  have exit: "shouldExit (countPEntries n) (sk'', ep') = reached n ep'" for sk'' ep'
    by (simp add: countPEntries_def reached_def)
  show ?case
  proof (cases "reached n (epochAfter ep e)")
    case True
    then show ?thesis by (simp add: step exit sk'_def)
  next
    case False
    then obtain ep' where "iterateEntries (countPEntries n) es (sk', epochAfter ep e) =
        Some (\<lambda>s. sk' s + int (pCount s (visible n (epochAfter ep e) es)), ep')"
      using Cons.IH by blast
    moreover have "sk' s + int (pCount s xs) = sk s + int (pCount s (e # xs))" for s xs
      by (simp add: sk'_def split: Persistent.splits)
    ultimately show ?thesis using False by (simp add: step exit del: pCount_simps(2))
  qed
qed

lemma collect_step:
  assumes "\<And>s. 0 < pCount s (e # rest) \<Longrightarrow> sk s = int (pCount s (e # rest))"
  shows "\<exists>sk'. (\<forall>s. 0 < pCount s rest \<longrightarrow> sk' s = int (pCount s rest)) \<and>
    dispatch (collectEntries n) e (sk, ep, ec) =
      (if stampedHead ep e rest
       then Some (sk', epochAfter ep e,
         ec\<lparr>ecmCheckpoints := ecmCheckpoints ec @ cpHead e, ecmPSet := ecmPSet ec @ pHead ep e rest,
            ecmQSet := ecmQSet ec @ qHead ep e\<rparr>)
       else None)"
proof (cases e)
  case (Persistent_PEntry d)
  let ?c = "pCount (peSeqNo d) rest"
  have c: "sk (peSeqNo d) = 1 + int ?c" using assms [of "peSeqNo d"] Persistent_PEntry by simp
  have other: "0 < pCount s rest \<Longrightarrow> s \<noteq> peSeqNo d \<Longrightarrow> sk s = int (pCount s rest)" for s
    using assms [of s] Persistent_PEntry by auto
  show ?thesis
  proof (cases "?c = 0")
    case True
    then have "\<forall>s. 0 < pCount s rest \<longrightarrow> sk s = int (pCount s rest)" using other by (metis less_irrefl)
    then show ?thesis using True c Persistent_PEntry
      by (intro exI [of _ sk]) (auto simp: dispatch_def collectEntries_def noCallbacks_def stampedHead_def
          epochAfter_def cpHead_def pHead_def qHead_def bind_eq_None_conv)
  next
    case False
    then show ?thesis using other c Persistent_PEntry
      by (intro exI [of _ "sk(peSeqNo d := int ?c)"]) (auto simp: dispatch_def collectEntries_def
          noCallbacks_def stampedHead_def epochAfter_def cpHead_def pHead_def qHead_def)
  qed
qed (use assms in \<open>auto simp: dispatch_def collectEntries_def noCallbacks_def stampedHead_def epochAfter_def
      cpHead_def pHead_def qHead_def bind_eq_None_conv intro!: exI [of _ sk]\<close>)

lemma collectEntries_result:
  assumes "\<not> reached n ep"
    and "\<And>s. 0 < pCount s (visible n ep es) \<Longrightarrow> sk s = int (pCount s (visible n ep es))"
  shows "if stamped ep (visible n ep es)
    then \<exists>sk' ep'. iterateEntries (collectEntries n) es (sk, ep, ec) =
      Some (sk', ep', ec\<lparr>ecmCheckpoints := ecmCheckpoints ec @ cpSpec (visible n ep es),
                       ecmPSet := ecmPSet ec @ pSetSpec ep (visible n ep es),
                       ecmQSet := ecmQSet ec @ qSetSpec ep (visible n ep es)\<rparr>)
    else iterateEntries (collectEntries n) es (sk, ep, ec) = None"
  using assms
proof (induction es arbitrary: sk ep ec)
  case Nil
  then show ?case by (simp add: cpSpec_def)
next
  case (Cons e es)
  let ?ep = "epochAfter ep e"
  define rest where "rest = (if reached n ?ep then [] else visible n ?ep es)"
  have vis: "visible n ep (e # es) = e # rest" by (simp add: rest_def)
  have exit: "shouldExit (collectEntries n) (sk', ep', ec') = reached n ep'" for sk' ep' ec'
    by (simp add: collectEntries_def reached_def)
  let ?ec = "ec\<lparr>ecmCheckpoints := ecmCheckpoints ec @ cpHead e, ecmPSet := ecmPSet ec @ pHead ep e rest,
            ecmQSet := ecmQSet ec @ qHead ep e\<rparr>"
  obtain sk' where sk': "\<And>s. 0 < pCount s rest \<Longrightarrow> sk' s = int (pCount s rest)"
    and step: "dispatch (collectEntries n) e (sk, ep, ec) =
      (if stampedHead ep e rest then Some (sk', ?ep, ?ec) else None)"
    using collect_step [of e rest sk n ep ec] Cons.prems(2) unfolding vis by blast
  show ?case
  proof (cases "reached n ?ep")
    case True
    then have "rest = []" by (simp add: rest_def)
    then show ?thesis using True by (simp add: step exit cpSpec_def)
  next
    case False
    then have r: "rest = visible n ?ep es" by (simp add: rest_def)
    then show ?thesis using Cons.IH [OF False, of sk' ?ec] sk' False
      unfolding vis by (auto simp: step exit cpSpec_def)
  qed
qed

lemma constructEpochChange_spec:
  "constructEpochChange newEpoch p =
     (let v = visible newEpoch None (log_entries p) in
      if stamped None v
      then Some \<lparr>ecmNewEpoch = newEpoch, ecmCheckpoints = cpSpec v, ecmPSet = pSetSpec None v,
                 ecmQSet = qSetSpec None v\<rparr>
      else None)"
proof -
  let ?v = "visible newEpoch None (log_entries p)"
  let ?ec = "\<lparr>ecmNewEpoch = newEpoch, ecmCheckpoints = [], ecmPSet = [], ecmQSet = []\<rparr>"
  have nr: "\<not> reached newEpoch None" by (simp add: reached_def)
  obtain ep where 1: "iterate (countPEntries newEpoch) p (\<lambda>_. 0, None) = Some (\<lambda>s. int (pCount s ?v), ep)"
    using countPEntries_result [OF nr, of "log_entries p" "\<lambda>_. 0"] by (auto simp: iterate_def log_entries_def)
  have "constructEpochChange newEpoch p = Option.bind (iterateEntries (collectEntries newEpoch) (log_entries p)
      (\<lambda>s. int (pCount s ?v), None, ?ec)) (\<lambda>(_, _, ec). Some ec)"
    unfolding constructEpochChange_def 1 by (simp add: iterate_def log_entries_def)
  then show ?thesis
    using collectEntries_result [OF nr, of "log_entries p" "\<lambda>s. int (pCount s ?v)" ?ec]
    by (cases "stamped None ?v") (auto simp: Let_def)
qed

lemma pSetSpec_seqNos: "seSeqNo ` set (pSetSpec ep es) = {s. 0 < pCount s es}"
proof (induction es arbitrary: ep)
  case Nil
  then show ?case by simp
next
  case (Cons e es)
  then show ?case by (cases e) (auto simp: pHead_def image_Un)
qed

lemma distinct_pSetSpec: "distinct (map seSeqNo (pSetSpec ep es))"
proof (induction es arbitrary: ep)
  case Nil
  then show ?case by simp
next
  case (Cons e es)
  then show ?case using pSetSpec_seqNos [of "epochAfter ep e" es]
    by (cases e) (auto simp: pHead_def)
qed

text \<open>The entry kept for a sequence number is the last one of the visible log.\<close>

lemma pSetSpec_last:
  "t \<in> set (pSetSpec ep es) \<Longrightarrow>
     \<exists>pre d post. es = pre @ Persistent_PEntry d # post \<and> pCount (peSeqNo d) post = 0 \<and>
       peSeqNo d = seSeqNo t \<and> peDigest d = seDigest t"
proof (induction es arbitrary: ep)
  case Nil
  then show ?case by simp
next
  case (Cons e es)
  show ?case
  proof (cases "t \<in> set (pHead ep e es)")
    case True
    then obtain d where "e = Persistent_PEntry d" "pCount (peSeqNo d) es = 0"
        "peSeqNo d = seSeqNo t" "peDigest d = seDigest t"
      by (auto simp: pHead_def split: Persistent.splits if_splits)
    then show ?thesis by (intro exI [of _ "[]"]) auto
  next
    case False
    with Cons.prems have "t \<in> set (pSetSpec (epochAfter ep e) es)" by simp
    from Cons.IH [OF this] show ?thesis by (metis append_Cons)
  qed
qed

section \<open>Recovery\<close>

lemma appendInitialLoad_next:
  "pLog q \<noteq> [] \<Longrightarrow> pNextIndex q = i \<Longrightarrow>
     appendInitialLoad i e q = Some (q\<lparr>pLog := pLog q @ [(i, e)], pNextIndex := i + 1\<rparr>)"
  by (simp add: appendInitialLoad_def)

lemma replay_prefix:
  assumes "wal_inv p" "n \<le> length (pLog p)" "0 < n"
  shows "ofold (\<lambda>(i, e). appendInitialLoad i e) (take n (pLog p)) newPersisted =
     Some \<lparr>pNextIndex = fst (hd (pLog p)) + of_nat n, pLog = take n (pLog p)\<rparr>"
  using assms(2,3)
proof (induction n)
  case 0
  then show ?case by simp
next
  case (Suc n)
  let ?l = "pLog p"
  have idx: "fst (?l ! n) = fst (hd ?l) + of_nat n"
    using wal_inv_nth [OF assms(1)] Suc.prems(1) by simp
  have snoc: "take (Suc n) ?l = take n ?l @ [?l ! n]" using Suc.prems(1) by (simp add: take_Suc_conv_app_nth)
  show ?case
  proof (cases "n = 0")
    case True
    then show ?thesis using Suc.prems(1) idx unfolding snoc
      by (cases "?l ! 0") (auto simp: appendInitialLoad_def newPersisted_def)
  next
    case False
    then have "take n ?l \<noteq> []" using Suc.prems(1) by auto
    then show ?thesis using Suc False idx unfolding snoc ofold_append
      by (cases "?l ! n") (simp add: appendInitialLoad_next algebra_simps)
  qed
qed

lemma replay_log:
  assumes "wal_inv p"
  shows "ofold (\<lambda>(i, e). appendInitialLoad i e) (pLog p) newPersisted = Some p"
proof -
  have "0 < length (pLog p)" using assms by (simp add: wal_inv_def)
  from replay_prefix [OF assms order_refl this] show ?thesis
    using assms by (simp add: wal_inv_def)
qed

text \<open>The log of a fresh node: the checkpoint it starts from.\<close>

definition sampleLog :: persisted where
  [go_defs]: "sampleLog = \<lparr>pNextIndex = 1, pLog =
     [(0, Persistent_CEntry \<lparr>ceSeqNo = 0, ceCheckpointValue = Some [7],
        ceNetworkState = \<lparr>nsConfig = sampleNet, nsClients = [], nsPending = [], nsReconfigured = False\<rparr>\<rparr>)]\<rparr>"

lemma sampleLog_wf [simp]: "wal_inv sampleLog"
  by (simp add: wal_inv_def sampleLog_def)

section \<open>Properties\<close>

text \<open>
  The write-ahead log on disk, as the actions drive it: an append adds an entry at its index, a
  truncation drops the entries before its index.
\<close>

datatype logOp = OpAppend Persistent | OpTruncate u64

fun logStep :: "logOp \<Rightarrow> persisted \<Rightarrow> (persisted \<times> ActionList) option" where
  "logStep (OpAppend e) p = appendLogEntry e p"
| "logStep (OpTruncate lw) p = Some (truncateLog lw p)"

fun logSteps :: "logOp list \<Rightarrow> persisted \<Rightarrow> (persisted \<times> ActionList) option" where
  "logSteps [] p = Some (p, [])"
| "logSteps (op # ops) p =
     do { (p', acts) \<leftarrow> logStep op p; (p'', acts') \<leftarrow> logSteps ops p'; Some (p'', acts @ acts') }"

fun diskApply :: "Action \<Rightarrow> (u64 \<times> Persistent) list \<Rightarrow> (u64 \<times> Persistent) list" where
  "diskApply (Action_AppendWriteAhead i e) disk = disk @ [(i, e)]"
| "diskApply (Action_TruncateWriteAhead i) disk = dropWhile (\<lambda>(j, _). j \<noteq> i) disk"
| "diskApply _ disk = disk"

lemma wal_inv_index_distinct:
  assumes wf: "wal_inv p" and "length (pLog p) < 2 ^ 64" and "i < j" "j < length (pLog p)"
  shows "fst (pLog p ! i) \<noteq> fst (pLog p ! j)"
proof
  assume "fst (pLog p ! i) = fst (pLog p ! j)"
  then have "(of_nat i :: u64) = of_nat j"
    using wal_inv_nth [OF wf, of i] wal_inv_nth [OF wf, of j] assms(3,4) by simp
  then have "unat (of_nat i :: u64) = unat (of_nat j :: u64)" by simp
  then show False using assms by (simp add: unat_of_nat)
qed

lemma dropWhile_index:
  assumes "n < length xs" and "\<forall>i < n. P (xs ! i)" and "\<not> P (xs ! n)"
  shows "dropWhile P xs = drop n xs"
proof -
  have "xs = take n xs @ drop n xs" by simp
  moreover have "drop n xs = xs ! n # drop (Suc n) xs" using assms(1) by (simp add: Cons_nth_drop_Suc)
  moreover have "\<forall>x\<in>set (take n xs). P x" using assms(1,2) by (auto simp: in_set_conv_nth)
  ultimately show ?thesis
    by (metis assms(3) dropWhile.simps(2) dropWhile_append2)
qed

lemma logStep_disk:
  assumes wf: "wal_inv p" and "length (pLog p) < 2 ^ 64" and step: "logStep op p = Some (p', acts)"
  shows "wal_inv p' \<and> fold diskApply acts (pLog p) = pLog p' \<and> length (pLog p') \<le> Suc (length (pLog p))"
proof (cases op)
  case (OpAppend e)
  then show ?thesis
    using step pw.append_SomeD [OF wf, of e p' acts] by (auto simp: appendLogEntry_Some)
next
  case (OpTruncate lw)
  then have tr: "truncateLog lw p = (p', acts)" using step by simp
  show ?thesis
  proof (cases rule: truncateLog_cases [of lw p])
    case keep
    then show ?thesis using tr wf by simp
  next
    case (cut n index e)
    have "\<forall>i < n. fst (pLog p ! i) \<noteq> index"
      using wal_inv_index_distinct [OF wf assms(2), of _ n] cut(1,3) by fastforce
    then have "dropWhile (\<lambda>(j, _). j \<noteq> index) (pLog p) = drop n (pLog p)"
      using cut(1,3) by (intro dropWhile_index) (auto simp: case_prod_beta)
    then show ?thesis using tr cut wal_inv_drop [OF wf cut(1)] by auto
  qed
qed

lemma logSteps_disk:
  assumes "wal_inv p" and "length (pLog p) + length ops \<le> 2 ^ 64" and "logSteps ops p = Some (p', acts)"
  shows "wal_inv p' \<and> fold diskApply acts (pLog p) = pLog p'"
  using assms
proof (induction ops arbitrary: p acts)
  case Nil
  then show ?case by simp
next
  case (Cons op ops)
  then obtain p1 a1 a2 where op: "logStep op p = Some (p1, a1)" and ops: "logSteps ops p1 = Some (p', a2)"
    and acts: "acts = a1 @ a2" by (auto simp: bind_eq_Some_conv)
  have "wal_inv p1" "fold diskApply a1 (pLog p) = pLog p1" "length (pLog p1) \<le> Suc (length (pLog p))"
    using logStep_disk [OF Cons.prems(1) _ op] Cons.prems(2) by auto
  then show ?case using Cons.IH [OF _ _ ops] Cons.prems(2) acts by simp
qed

text \<open>C9. A crash loses nothing: whatever a node appends to and truncates from its log, carrying out the
  returned actions on the stored log keeps the two equal, and loading the stored log after a restart
  gives back the log the node had, next index included.\<close>

theorem restart_recovers_log:
  assumes "wal_inv p" and "length (pLog p) + length ops \<le> 2 ^ 64" and "logSteps ops p = Some (p', acts)"
  shows "ofold (\<lambda>(i, e). appendInitialLoad i e) (fold diskApply acts (pLog p)) newPersisted = Some p'"
  using logSteps_disk [OF assms] replay_log by simp

theorem restart_recovers_log_witness:
  "\<exists>p' acts. logSteps [OpAppend (Persistent_Suspect 1),
       OpAppend (Persistent_CEntry \<lparr>ceSeqNo = 5, ceCheckpointValue = None, ceNetworkState =
         \<lparr>nsConfig = sampleNet, nsClients = [], nsPending = [], nsReconfigured = False\<rparr>\<rparr>), OpTruncate 5] sampleLog
       = Some (p', acts) \<and>
     ofold (\<lambda>(i, e). appendInitialLoad i e) (fold diskApply acts (pLog sampleLog)) newPersisted = Some p'"
  (is "\<exists>p' acts. logSteps ?ops _ = _ \<and> _")
proof -
  obtain p' acts where steps: "logSteps ?ops sampleLog = Some (p', acts)"
    by (simp add: appendLogEntry_def sampleLog_def truncateLog_def cutPoint_def)
  have "length (pLog sampleLog) + length ?ops \<le> 2 ^ 64" by (simp add: sampleLog_def)
  from restart_recovers_log [OF sampleLog_wf this steps] steps show ?thesis by blast
qed



text \<open>C15. The epoch change a node sends reports its whole log up to the new epoch: the P set has exactly one
  entry for every sequence number the node prepared, with the digest of the last P entry for it; the
  Q set has every Q entry and the checkpoints every C entry, in the order of the log, each stamped
  with the epoch it was made in.\<close>

theorem constructEpochChange_reports:
  assumes "constructEpochChange newEpoch p = Some ec" and v: "v = visible newEpoch None (log_entries p)"
  shows "ecmNewEpoch ec = newEpoch \<and>
    distinct (map seSeqNo (ecmPSet ec)) \<and>
    seSeqNo ` set (ecmPSet ec) = {peSeqNo d | d. Persistent_PEntry d \<in> set v} \<and>
    (\<forall>t\<in>set (ecmPSet ec). \<exists>pre d post. v = pre @ Persistent_PEntry d # post \<and> peSeqNo d = seSeqNo t \<and>
       peDigest d = seDigest t \<and> (\<forall>d'. Persistent_PEntry d' \<in> set post \<longrightarrow> peSeqNo d' \<noteq> seSeqNo t)) \<and>
    ecmQSet ec = qSetSpec None v \<and> ecmCheckpoints ec = cpSpec v"
proof -
  have ec: "ec = \<lparr>ecmNewEpoch = newEpoch, ecmCheckpoints = cpSpec v, ecmPSet = pSetSpec None v,
      ecmQSet = qSetSpec None v\<rparr>"
    using assms by (auto simp: constructEpochChange_spec Let_def split: if_splits)
  have count: "0 < pCount s es \<longleftrightarrow> (\<exists>d. Persistent_PEntry d \<in> set es \<and> peSeqNo d = s)" for s es
    by (induction es) (auto split: Persistent.splits)
  have "\<exists>pre d post. v = pre @ Persistent_PEntry d # post \<and> peSeqNo d = seSeqNo t \<and>
       peDigest d = seDigest t \<and> (\<forall>d'. Persistent_PEntry d' \<in> set post \<longrightarrow> peSeqNo d' \<noteq> seSeqNo t)"
    if t: "t \<in> set (ecmPSet ec)" for t
  proof -
    obtain pre d post where d: "v = pre @ Persistent_PEntry d # post" "pCount (peSeqNo d) post = 0"
        "peSeqNo d = seSeqNo t" "peDigest d = seDigest t"
      using pSetSpec_last [of t None v] t ec by auto
    then have "\<forall>d'. Persistent_PEntry d' \<in> set post \<longrightarrow> peSeqNo d' \<noteq> seSeqNo t"
      using count [of "seSeqNo t" post] by simp
    with d show ?thesis by blast
  qed
  moreover have "seSeqNo ` set (ecmPSet ec) = {peSeqNo d | d. Persistent_PEntry d \<in> set v}"
    using ec by (auto simp: pSetSpec_seqNos count)
  ultimately show ?thesis using distinct_pSetSpec [of None v] ec by simp
qed

definition sampleHistory :: persisted where
  "sampleHistory = \<lparr>pNextIndex = 5, pLog =
     [(0, Persistent_NEntry \<lparr>neSeqNo = 1, neEpochConfig = \<lparr>epNumber = 2, epLeaders = [0], epPlannedExpiration = 9\<rparr>\<rparr>),
      (1, Persistent_QEntry \<lparr>qeSeqNo = 1, qeDigest = Some [5], qeRequests = []\<rparr>),
      (2, Persistent_PEntry \<lparr>peSeqNo = 1, peDigest = Some [4]\<rparr>),
      (3, Persistent_PEntry \<lparr>peSeqNo = 1, peDigest = Some [5]\<rparr>),
      (4, Persistent_Suspect 2)]\<rparr>"

theorem constructEpochChange_reports_witness:
  "\<exists>ec. constructEpochChange 3 sampleHistory = Some ec \<and> ecmNewEpoch ec = 3 \<and>
    distinct (map seSeqNo (ecmPSet ec)) \<and>
    ecmQSet ec = qSetSpec None (visible 3 None (log_entries sampleHistory))"
proof -
  obtain ec where ec: "constructEpochChange 3 sampleHistory = Some ec"
    by (simp add: constructEpochChange_spec sampleHistory_def log_entries_def epochAfter_def reached_def
        stampedHead_def)
  with constructEpochChange_reports [OF ec refl] show ?thesis by blast
qed

end
