(* ===== verification/Mir_Sequence.thy ===== *)
theory Mir_Sequence
  imports Mir_Persisted
begin

text \<open>
  \<open>pkg/statemachine/sequence.go\<close>: the three-phase commit of one sequence number in one epoch. The
  record \<open>sequence\<close> has the fields of the struct except \<open>logger\<close> and \<open>persisted\<close>; the log every sequence
  shares is an argument and a result of the operations. \<open>clientRequests\<close> holds pointers to requests the
  client code keeps updating, so the sequence stores references and \<open>prepare\<close> reads them through a
  store passed to it.
\<close>

section \<open>Data\<close>

datatype sequenceState =
    sequenceUninitialized | sequenceAllocated | sequencePendingRequests | sequenceReady
  | sequencePreprepared | sequencePrepared | sequenceCommitted

datatype nodeSeqState = nodeSeqUninitialized | nodeSeqPreprepared | nodeSeqPrepared

text \<open>Both are Go enumerations: the order of the constants is the order of the constructors.\<close>

fun seqRank :: "sequenceState \<Rightarrow> nat" where
  "seqRank sequenceUninitialized = 0"
| "seqRank sequenceAllocated = 1"
| "seqRank sequencePendingRequests = 2"
| "seqRank sequenceReady = 3"
| "seqRank sequencePreprepared = 4"
| "seqRank sequencePrepared = 5"
| "seqRank sequenceCommitted = 6"

fun nodeRank :: "nodeSeqState \<Rightarrow> nat" where
  "nodeRank nodeSeqUninitialized = 0"
| "nodeRank nodeSeqPreprepared = 1"
| "nodeRank nodeSeqPrepared = 2"

lemma seqRank_inject [simp]: "seqRank a = seqRank b \<longleftrightarrow> a = b"
  by (cases a; cases b) auto

lemma nodeRank_inject [simp]: "nodeRank a = nodeRank b \<longleftrightarrow> a = b"
  by (cases a; cases b) auto

instantiation sequenceState :: linorder
begin

definition less_eq_sequenceState :: "sequenceState \<Rightarrow> sequenceState \<Rightarrow> bool" where
  "a \<le> b \<longleftrightarrow> seqRank a \<le> seqRank b"

definition less_sequenceState :: "sequenceState \<Rightarrow> sequenceState \<Rightarrow> bool" where
  "a < b \<longleftrightarrow> seqRank a < seqRank b"

instance
  by standard (auto simp: less_eq_sequenceState_def less_sequenceState_def)

end

instantiation nodeSeqState :: linorder
begin

definition less_eq_nodeSeqState :: "nodeSeqState \<Rightarrow> nodeSeqState \<Rightarrow> bool" where
  "a \<le> b \<longleftrightarrow> nodeRank a \<le> nodeRank b"

definition less_nodeSeqState :: "nodeSeqState \<Rightarrow> nodeSeqState \<Rightarrow> bool" where
  "a < b \<longleftrightarrow> nodeRank a < nodeRank b"

instance
  by standard (auto simp: less_eq_nodeSeqState_def less_nodeSeqState_def)

end

lemmas seqState_order = less_eq_sequenceState_def less_sequenceState_def
  less_eq_nodeSeqState_def less_nodeSeqState_def

record nodeSeqChoice =
  nscState :: nodeSeqState
  nscDigest :: bytes

text \<open>The client requests of \<open>client_hash_disseminator.go\<close>, and the store their references point into.\<close>

record clientRequest =
  creqAck :: RequestAck
  creqAgreements :: "u64 list"
  creqStored :: bool
  creqFetching :: bool
  creqTicksFetching :: u64
  creqTicksCorrect :: u64

type_synonym cr_ref = nat
type_synonym cr_store = "cr_ref \<rightharpoonup> clientRequest"

record sequence =
  sqOwner :: u64
  sqSeqNo :: u64
  sqEpoch :: u64
  sqMyConfig :: InitialParameters
  sqNetworkConfig :: NetworkConfig
  sqState :: sequenceState
  sqQEntry :: "QEntry option"
  sqClientRequests :: "cr_ref list"
  sqBatch :: "RequestAck list"
  sqOutstanding :: "byte list list"
  sqDigest :: bytes
  sqNodeChoices :: "u64 \<rightharpoonup> nodeSeqChoice"
  sqPrepares :: "byte list \<Rightarrow> nat"
  sqCommits :: "byte list \<Rightarrow> nat"

type_synonym seqResult = "(sequence \<times> persisted \<times> ActionList) option"

section \<open>Operations\<close>

definition newSequence :: "u64 \<Rightarrow> u64 \<Rightarrow> u64 \<Rightarrow> NetworkConfig \<Rightarrow> InitialParameters \<Rightarrow> sequence" where
  [go_defs]: "newSequence owner epoch seqNo networkConfig myConfig =
     \<lparr>sqOwner = owner, sqSeqNo = seqNo, sqEpoch = epoch, sqMyConfig = myConfig,
      sqNetworkConfig = networkConfig, sqState = sequenceUninitialized, sqQEntry = None,
      sqClientRequests = [], sqBatch = [], sqOutstanding = [], sqDigest = None,
      sqNodeChoices = Map.empty, sqPrepares = (\<lambda>_. 0), sqCommits = (\<lambda>_. 0)\<rparr>"

text \<open>\<open>nodeChoice\<close> hands out a pointer into the map; callers write the changed choice back.\<close>

definition nodeChoice :: "u64 \<Rightarrow> sequence \<Rightarrow> nodeSeqChoice \<times> sequence" where
  [go_defs]: "nodeChoice source s =
     (case sqNodeChoices s source of
        Some choice \<Rightarrow> (choice, s)
      | None \<Rightarrow>
          (let choice = \<lparr>nscState = nodeSeqUninitialized, nscDigest = None\<rparr>
           in (choice, s\<lparr>sqNodeChoices := (sqNodeChoices s)(source \<mapsto> choice)\<rparr>)))"

definition checkRequests :: "sequence \<Rightarrow> sequence" where
  [go_defs]: "checkRequests s =
     (if length (sqOutstanding s) > 0 then s else s\<lparr>sqState := sequenceReady\<rparr>)"

definition missingNodes :: "NetworkConfig \<Rightarrow> clientRequest \<Rightarrow> u64 list" where
  [go_defs]: "missingNodes nc cr = filter (\<lambda>id. id \<notin> set (creqAgreements cr)) (ncNodes nc)"

fun forwardMissing :: "cr_store \<Rightarrow> NetworkConfig \<Rightarrow> cr_ref list \<Rightarrow> ActionList \<Rightarrow> ActionList option" where
  "forwardMissing h nc [] actions = Some actions"
| "forwardMissing h nc (r # rs) actions =
     (case h r of
        None \<Rightarrow> None
      | Some cr \<Rightarrow> forwardMissing h nc rs (ActionList_ForwardRequest actions (missingNodes nc cr) (creqAck cr)))"

definition prepare :: "cr_store \<Rightarrow> sequence \<Rightarrow> persisted \<Rightarrow> seqResult" where
  [go_defs]: "prepare h s p =
     do {
       let qEntry = \<lparr>qeSeqNo = sqSeqNo s, qeDigest = sqDigest s, qeRequests = sqBatch s\<rparr>;
       let s' = s\<lparr>sqQEntry := Some qEntry, sqState := sequencePreprepared\<rparr>;
       (p', actions) \<leftarrow> addQEntry qEntry p;
       let nodes = ncNodes (sqNetworkConfig s);
       if sqOwner s = ipId (sqMyConfig s)
       then do {
         actions \<leftarrow> forwardMissing h (sqNetworkConfig s) (sqClientRequests s) actions;
         Some (s', p', ActionList_Send actions nodes (Msg_Preprepare (sqSeqNo s) (sqEpoch s) (sqBatch s)))
       }
       else Some (s', p', ActionList_Send actions nodes (Msg_Prepare (sqSeqNo s) (sqEpoch s) (sqDigest s)))
     }"

definition checkPrepareQuorum :: "sequence \<Rightarrow> persisted \<Rightarrow> seqResult" where
  [go_defs]: "checkPrepareQuorum s p =
     (let agreements = sqPrepares s (bstr (sqDigest s));
          (myChoice, s) = nodeChoice (ipId (sqMyConfig s)) s
      in if nscState myChoice < nodeSeqPreprepared then Some (s, p, [])
         else if \<not> bytes_equal (nscDigest myChoice) (sqDigest s) then Some (s, p, [])
         else if int agreements < intersectionQuorum (sqNetworkConfig s) then Some (s, p, [])
         else do {
           let s' = s\<lparr>sqState := sequencePrepared\<rparr>;
           (p', actions) \<leftarrow> addPEntry \<lparr>peSeqNo = sqSeqNo s, peDigest = sqDigest s\<rparr> p;
           Some (s', p', ActionList_Send actions (ncNodes (sqNetworkConfig s))
                           (Msg_Commit (sqSeqNo s) (sqEpoch s) (sqDigest s)))
         })"

definition checkCommitQuorum :: "sequence \<Rightarrow> sequence" where
  [go_defs]: "checkCommitQuorum s =
     (let agreements = sqCommits s (bstr (sqDigest s));
          (myChoice, s) = nodeChoice (ipId (sqMyConfig s)) s
      in if nscState myChoice < nodeSeqPrepared then s
         else if int agreements < intersectionQuorum (sqNetworkConfig s) then s
         else s\<lparr>sqState := sequenceCommitted\<rparr>)"

text \<open>One round of the loop in \<open>advanceState\<close>: the switch over the current state.\<close>

definition advanceOnce :: "cr_store \<Rightarrow> sequence \<Rightarrow> persisted \<Rightarrow> seqResult" where
  [go_defs]: "advanceOnce h s p =
     (case sqState s of
        sequenceUninitialized \<Rightarrow> Some (s, p, [])
      | sequenceAllocated \<Rightarrow> Some (s, p, [])
      | sequencePendingRequests \<Rightarrow> Some (checkRequests s, p, [])
      | sequenceReady \<Rightarrow>
          if sqDigest s \<noteq> None \<or> length (sqBatch s) = 0 then prepare h s p else Some (s, p, [])
      | sequencePreprepared \<Rightarrow> checkPrepareQuorum s p
      | sequencePrepared \<Rightarrow> Some (checkCommitQuorum s, p, [])
      | sequenceCommitted \<Rightarrow> Some (s, p, []))"

lemma nodeChoice_frame:
  assumes "nodeChoice source s = (choice, s')"
  shows "s' = s\<lparr>sqNodeChoices := (sqNodeChoices s)(source \<mapsto> choice)\<rparr>"
  using assms by (auto simp: nodeChoice_def Let_def fun_upd_idem split: option.splits)

lemma advanceOnce_rank:
  assumes "advanceOnce h s p = Some (s', p', acts)"
  shows "sqState s' = sqState s \<or> seqRank (sqState s) < seqRank (sqState s')"
  using assms
  by (auto simp: advanceOnce_def checkRequests_def prepare_def checkPrepareQuorum_def checkCommitQuorum_def
      Let_def bind_eq_Some_conv split: sequenceState.splits if_splits prod.splits
      dest!: nodeChoice_frame)

function advanceState :: "cr_store \<Rightarrow> sequence \<Rightarrow> persisted \<Rightarrow> seqResult" where
  "advanceState h s p =
     (case advanceOnce h s p of
        None \<Rightarrow> None
      | Some (s', p', acts) \<Rightarrow>
          if sqState s' = sqState s then Some (s', p', acts)
          else (case advanceState h s' p' of
                  None \<Rightarrow> None
                | Some (s'', p'', acts') \<Rightarrow> Some (s'', p'', ActionList_concat acts acts')))"
  by pat_completeness auto
termination
proof (relation "measure (\<lambda>(h, s, p). 6 - seqRank (sqState s))", goal_cases)
  case 1
  then show ?case by simp
next
  case (2 h s p x s' y p' acts)
  then have "seqRank (sqState s) < seqRank (sqState s')" using advanceOnce_rank by fastforce
  moreover have "seqRank (sqState s') \<le> 6" by (cases "sqState s'") auto
  ultimately show ?case by simp
qed

declare advanceState.simps [simp del]

definition applyPrepareMsg :: "cr_store \<Rightarrow> u64 \<Rightarrow> bytes \<Rightarrow> sequence \<Rightarrow> persisted \<Rightarrow> seqResult" where
  [go_defs]: "applyPrepareMsg h source digest s p =
     (let (choice, s) = nodeChoice source s in
      if source \<noteq> sqOwner s \<and> nscState choice > nodeSeqUninitialized then Some (s, p, [])
      else
        (let choice = choice\<lparr>nscState := nodeSeqPreprepared, nscDigest := digest\<rparr>;
             s = s\<lparr>sqNodeChoices := (sqNodeChoices s)(source \<mapsto> choice),
                   sqPrepares := (sqPrepares s)(bstr digest := sqPrepares s (bstr digest) + 1)\<rparr>
         in advanceState h s p))"

definition applyBatchHashResult :: "cr_store \<Rightarrow> bytes \<Rightarrow> sequence \<Rightarrow> persisted \<Rightarrow> seqResult" where
  [go_defs]: "applyBatchHashResult h digest s p =
     (let s = s\<lparr>sqDigest := digest\<rparr> in applyPrepareMsg h (sqOwner s) digest s p)"

definition allocate :: "cr_store \<Rightarrow> RequestAck list \<Rightarrow> byte list list \<Rightarrow> sequence \<Rightarrow> persisted \<Rightarrow> seqResult" where
  [go_defs]: "allocate h requestAcks outstandingReqs s p =
     do {
       assert (sqState s = sequenceUninitialized);
       let s = s\<lparr>sqState := sequenceAllocated, sqBatch := requestAcks, sqOutstanding := outstandingReqs\<rparr>;
       if length requestAcks = 0
       then applyBatchHashResult h None (s\<lparr>sqState := sequenceReady\<rparr>) p
       else do {
         let data = map ackDigest requestAcks;
         let actions = ActionList_Hash [] data (HashOrigin_Batch (sqOwner s) (sqEpoch s) (sqSeqNo s) requestAcks);
         (s, p, out) \<leftarrow> advanceState h (s\<lparr>sqState := sequencePendingRequests\<rparr>) p;
         Some (s, p, ActionList_concat actions out)
       }
     }"

definition allocateAsOwner :: "cr_store \<Rightarrow> cr_ref list \<Rightarrow> sequence \<Rightarrow> persisted \<Rightarrow> seqResult" where
  [go_defs]: "allocateAsOwner h clientRequests s p =
     do {
       requestAcks \<leftarrow> those (map (\<lambda>r. map_option creqAck (h r)) clientRequests);
       allocate h requestAcks [] (s\<lparr>sqClientRequests := clientRequests\<rparr>) p
     }"

definition satisfyOutstanding :: "cr_store \<Rightarrow> RequestAck \<Rightarrow> sequence \<Rightarrow> persisted \<Rightarrow> seqResult" where
  [go_defs]: "satisfyOutstanding h fr s p =
     do {
       assert (bstr (ackDigest fr) \<in> set (sqOutstanding s));
       advanceState h (s\<lparr>sqOutstanding := removeAll (bstr (ackDigest fr)) (sqOutstanding s)\<rparr>) p
     }"

text \<open>
  The Go code sets \<open>choice.state\<close> to \<open>nodeSeqPrepared\<close> before it compares it with
  \<open>nodeSeqUninitialized\<close>, so the branch meant to count a commit as a prepare is never taken (and
  would assign \<open>prepares[d]\<close> to itself).
\<close>

definition applyCommitMsg :: "cr_store \<Rightarrow> u64 \<Rightarrow> bytes \<Rightarrow> sequence \<Rightarrow> persisted \<Rightarrow> seqResult" where
  [go_defs]: "applyCommitMsg h source digest s p =
     (let (choice, s) = nodeChoice source s in
      if nscState choice > nodeSeqPreprepared then Some (s, p, [])
      else
        (let choice = choice\<lparr>nscState := nodeSeqPrepared\<rparr>;
             s = s\<lparr>sqNodeChoices := (sqNodeChoices s)(source \<mapsto> choice)\<rparr>;
             s = (if nscState choice = nodeSeqUninitialized
                  then s\<lparr>sqPrepares := (sqPrepares s)(bstr digest := sqPrepares s (bstr digest))\<rparr>
                  else s);
             s = s\<lparr>sqCommits := (sqCommits s)(bstr digest := sqCommits s (bstr digest) + 1)\<rparr>
         in advanceState h s p))"

section \<open>Runs of a sequence\<close>

text \<open>
  The calls \<open>epoch_active.go\<close> makes on a sequence, one constructor per method, and the runs they
  form: the events delivered so far, the actions returned so far, and the current state. The store
  of client requests may be a different one at every step.
\<close>

datatype seqEvent =
    EvAllocate "RequestAck list" "byte list list"
  | EvAllocateAsOwner "cr_ref list"
  | EvHash bytes
  | EvSatisfy RequestAck
  | EvPrepare u64 bytes
  | EvCommit u64 bytes

fun seqApply :: "cr_store \<Rightarrow> seqEvent \<Rightarrow> sequence \<Rightarrow> persisted \<Rightarrow> seqResult" where
  "seqApply h (EvAllocate acks outstanding) s p = allocate h acks outstanding s p"
| "seqApply h (EvAllocateAsOwner rs) s p = allocateAsOwner h rs s p"
| "seqApply h (EvHash digest) s p = applyBatchHashResult h digest s p"
| "seqApply h (EvSatisfy ack) s p = satisfyOutstanding h ack s p"
| "seqApply h (EvPrepare source digest) s p = applyPrepareMsg h source digest s p"
| "seqApply h (EvCommit source digest) s p = applyCommitMsg h source digest s p"

inductive seqRun :: "sequence \<Rightarrow> persisted \<Rightarrow> seqEvent list \<Rightarrow> ActionList \<Rightarrow> sequence \<Rightarrow> persisted \<Rightarrow> bool" where
  start: "seqRun s p [] [] s p"
| step: "seqRun s0 p0 evs acts s p \<Longrightarrow> seqApply h ev s p = Some (s', p', out) \<Longrightarrow>
    seqRun s0 p0 (evs @ [ev]) (acts @ out) s' p'"

text \<open>The same as a function, to evaluate concrete runs with one store.\<close>

fun seqExec :: "cr_store \<Rightarrow> seqEvent list \<Rightarrow> sequence \<Rightarrow> persisted \<Rightarrow> seqResult" where
  "seqExec h [] s p = Some (s, p, [])"
| "seqExec h (ev # evs) s p =
     (case seqApply h ev s p of
        None \<Rightarrow> None
      | Some (s', p', acts) \<Rightarrow>
          (case seqExec h evs s' p' of
             None \<Rightarrow> None
           | Some (s'', p'', out) \<Rightarrow> Some (s'', p'', acts @ out)))"

lemma seqRun_trans:
  assumes "seqRun s1 p1 evs' acts' s2 p2" and "seqRun s0 p0 evs acts s1 p1"
  shows "seqRun s0 p0 (evs @ evs') (acts @ acts') s2 p2"
  using assms
proof (induction rule: seqRun.induct)
  case (start s p)
  then show ?case by simp
next
  case (step s0' p0' evs' acts' s p h ev s' p' out)
  then show ?case using seqRun.step [of s0 p0 "evs @ evs'" "acts @ acts'" s p h ev s' p' out] by simp
qed

lemma seqExec_run: "seqExec h evs s p = Some (s', p', acts) \<Longrightarrow> seqRun s p evs acts s' p'"
proof (induction evs arbitrary: s p acts)
  case Nil
  then show ?case by (auto intro: seqRun.start)
next
  case (Cons ev evs)
  from Cons.prems obtain s1 p1 a1 a2 where ev: "seqApply h ev s p = Some (s1, p1, a1)"
    and rest: "seqExec h evs s1 p1 = Some (s', p', a2)" and acts: "acts = a1 @ a2"
    by (auto split: option.splits prod.splits)
  have "seqRun s p [ev] a1 s1 p1" using seqRun.step [OF seqRun.start ev] by simp
  from seqRun_trans [OF Cons.IH [OF rest] this] show ?case using acts by simp
qed

section \<open>Steps of a run\<close>

definition choiceState :: "sequence \<Rightarrow> u64 \<Rightarrow> nodeSeqState" where
  "choiceState s src = (case sqNodeChoices s src of None \<Rightarrow> nodeSeqUninitialized | Some c \<Rightarrow> nscState c)"

text \<open>What the loop of \<open>advanceState\<close> never changes.\<close>

definition votes :: "sequence \<Rightarrow> sequence" where
  "votes s = s\<lparr>sqState := sequenceUninitialized, sqQEntry := None, sqNodeChoices := Map.empty\<rparr>"

lemma votes_eq:
  "votes s = votes t \<longleftrightarrow> sqOwner s = sqOwner t \<and> sqSeqNo s = sqSeqNo t \<and> sqEpoch s = sqEpoch t \<and>
     sqMyConfig s = sqMyConfig t \<and> sqNetworkConfig s = sqNetworkConfig t \<and>
     sqClientRequests s = sqClientRequests t \<and> sqBatch s = sqBatch t \<and> sqOutstanding s = sqOutstanding t \<and>
     sqDigest s = sqDigest t \<and> sqPrepares s = sqPrepares t \<and> sqCommits s = sqCommits t"
  by (cases s; cases t) (auto simp: votes_def)

lemma nodeChoice_D:
  assumes "nodeChoice source s = (choice, s')"
  shows "s' = s\<lparr>sqNodeChoices := (sqNodeChoices s)(source \<mapsto> choice)\<rparr> \<and>
    choiceState (s\<lparr>sqNodeChoices := (sqNodeChoices s)(source \<mapsto> choice)\<rparr>) = choiceState s \<and>
    nscState choice = choiceState s source"
  using assms nodeChoice_frame [OF assms]
  by (auto simp: nodeChoice_def choiceState_def Let_def fun_eq_iff split: option.splits if_splits)

lemma choiceState_cong [simp]:
  "choiceState (s\<lparr>sqState := x\<rparr>) = choiceState s"
  "choiceState (s\<lparr>sqQEntry := q\<rparr>) = choiceState s"
  by (simp_all add: choiceState_def fun_eq_iff)

lemma advanceOnce_frame:
  assumes "advanceOnce h s p = Some (s', p', acts)"
  shows "votes s' = votes s \<and> choiceState s' = choiceState s"
  using assms
  by (auto simp: votes_eq advanceOnce_def checkRequests_def prepare_def checkPrepareQuorum_def
      checkCommitQuorum_def Let_def bind_eq_Some_conv split: sequenceState.splits if_splits prod.splits
      dest!: nodeChoice_D)

lemma advanceState_rule:
  assumes "advanceState h s p = Some (s', p', acts)"
    and "Q s p pre"
    and "\<And>h s p pre s' p' out. Q s p pre \<Longrightarrow> advanceOnce h s p = Some (s', p', out) \<Longrightarrow> Q s' p' (pre @ out)"
  shows "Q s' p' (pre @ acts)"
  using assms(1,2)
proof (induction h s p arbitrary: pre acts rule: advanceState.induct)
  case (1 h s p)
  from 1(2) obtain s1 p1 a1 where once: "advanceOnce h s p = Some (s1, p1, a1)"
    by (subst (asm) advanceState.simps) (auto split: option.splits)
  show ?case
  proof (cases "sqState s1 = sqState s")
    case True
    then have "s' = s1" "p' = p1" "acts = a1"
      using 1(2) once by (simp_all add: advanceState.simps [of h s p])
    then show ?thesis using assms(3) [OF 1(3) once] by simp
  next
    case False
    then obtain a2 where rest: "advanceState h s1 p1 = Some (s', p', a2)" and acts: "acts = a1 @ a2"
      using 1(2) once by (subst (asm) advanceState.simps) (auto split: option.splits)
    have "Q s' p' ((pre @ a1) @ a2)"
      using 1(1) [OF once refl refl False rest assms(3) [OF 1(3) once]] .
    then show ?thesis using acts by simp
  qed
qed

lemma forwardMissing_sends:
  "forwardMissing h nc rs acts = Some acts' \<Longrightarrow> sends_of acts' = sends_of acts"
  by (induction rs arbitrary: acts) (auto split: option.splits)

lemma prepare_D:
  assumes "prepare h s p = Some (s', p', acts)"
    and "q = \<lparr>qeSeqNo = sqSeqNo s, qeDigest = sqDigest s, qeRequests = sqBatch s\<rparr>"
  shows "sqState s' = sequencePreprepared" "sqQEntry s' = Some q"
    "log_entries p' = log_entries p @ [Persistent_QEntry q]"
    "map snd (sends_of acts) =
      [if sqOwner s = ipId (sqMyConfig s) then Msg_Preprepare (sqSeqNo s) (sqEpoch s) (sqBatch s)
       else Msg_Prepare (sqSeqNo s) (sqEpoch s) (sqDigest s)]"
  using assms
  by (auto simp: prepare_def Let_def bind_eq_Some_conv appendLogEntry_Some log_entries_def split: if_splits
      dest!: forwardMissing_sends)

lemma checkPrepareQuorum_D:
  assumes "checkPrepareQuorum s p = Some (s', p', acts)"
  shows "sqState s' = sqState s \<and> sqQEntry s' = sqQEntry s \<and> p' = p \<and> acts = [] \<or>
    sqState s' = sequencePrepared \<and> sqQEntry s' = sqQEntry s \<and>
    intersectionQuorum (sqNetworkConfig s) \<le> int (sqPrepares s (bstr (sqDigest s))) \<and>
    nodeSeqPreprepared \<le> choiceState s (ipId (sqMyConfig s)) \<and>
    log_entries p' = log_entries p @ [Persistent_PEntry \<lparr>peSeqNo = sqSeqNo s, peDigest = sqDigest s\<rparr>] \<and>
    map snd (sends_of acts) = [Msg_Commit (sqSeqNo s) (sqEpoch s) (sqDigest s)]"
  using assms
  by (auto simp: checkPrepareQuorum_def Let_def bind_eq_Some_conv appendLogEntry_Some log_entries_def not_less
      split: if_splits prod.splits dest!: nodeChoice_D)

lemma checkCommitQuorum_D:
  "sqState (checkCommitQuorum s) = sqState s \<or>
   sqState (checkCommitQuorum s) = sequenceCommitted \<and>
     intersectionQuorum (sqNetworkConfig s) \<le> int (sqCommits s (bstr (sqDigest s))) \<and>
     nodeSeqPrepared \<le> choiceState s (ipId (sqMyConfig s))"
  "sqQEntry (checkCommitQuorum s) = sqQEntry s"
  by (auto simp: checkCommitQuorum_def Let_def not_less split: if_splits prod.splits dest!: nodeChoice_D)

text \<open>What one round of the loop does, phase by phase.\<close>

lemma advanceOnce_cases:
  assumes "advanceOnce h s p = Some (s', p', acts)"
  obtains
    (stay) "sqState s' = sqState s" "sqQEntry s' = sqQEntry s" "p' = p" "acts = []"
  | (ready) "sqState s = sequencePendingRequests" "sqState s' = sequenceReady" "sqQEntry s' = sqQEntry s"
      "p' = p" "acts = []"
  | (preprepare) q where "sqState s = sequenceReady" "sqState s' = sequencePreprepared"
      "sqDigest s \<noteq> None \<or> sqBatch s = []"
      "q = \<lparr>qeSeqNo = sqSeqNo s, qeDigest = sqDigest s, qeRequests = sqBatch s\<rparr>"
      "sqQEntry s' = Some q" "log_entries p' = log_entries p @ [Persistent_QEntry q]"
      "map snd (sends_of acts) =
        [if sqOwner s = ipId (sqMyConfig s) then Msg_Preprepare (sqSeqNo s) (sqEpoch s) (sqBatch s)
         else Msg_Prepare (sqSeqNo s) (sqEpoch s) (sqDigest s)]"
  | (prepare) e where "sqState s = sequencePreprepared" "sqState s' = sequencePrepared"
      "sqQEntry s' = sqQEntry s" "e = \<lparr>peSeqNo = sqSeqNo s, peDigest = sqDigest s\<rparr>"
      "intersectionQuorum (sqNetworkConfig s) \<le> int (sqPrepares s (bstr (sqDigest s)))"
      "nodeSeqPreprepared \<le> choiceState s (ipId (sqMyConfig s))"
      "log_entries p' = log_entries p @ [Persistent_PEntry e]"
      "map snd (sends_of acts) = [Msg_Commit (sqSeqNo s) (sqEpoch s) (sqDigest s)]"
  | (commit) "sqState s = sequencePrepared" "sqState s' = sequenceCommitted"
      "sqQEntry s' = sqQEntry s" "p' = p" "acts = []"
      "intersectionQuorum (sqNetworkConfig s) \<le> int (sqCommits s (bstr (sqDigest s)))"
      "nodeSeqPrepared \<le> choiceState s (ipId (sqMyConfig s))"
proof (cases "sqState s")
  case sequencePendingRequests
  then show ?thesis using assms stay ready by (auto simp: advanceOnce_def checkRequests_def split: if_splits)
next
  case sequenceReady
  show ?thesis
  proof (cases "sqDigest s \<noteq> None \<or> sqBatch s = []")
    case True
    then have "prepare h s p = Some (s', p', acts)"
      using assms sequenceReady by (auto simp: advanceOnce_def)
    note D = prepare_D [OF this refl]
    show ?thesis by (rule preprepare [OF sequenceReady D(1) True refl D(2-4)])
  next
    case False
    then show ?thesis using assms sequenceReady by (intro stay) (auto simp: advanceOnce_def)
  qed
next
  case sequencePreprepared
  then have "checkPrepareQuorum s p = Some (s', p', acts)" using assms by (simp add: advanceOnce_def)
  note D = checkPrepareQuorum_D [OF this]
  from D show ?thesis by (elim disjE conjE) (rule stay, simp_all, rule prepare [OF sequencePreprepared], simp_all)
next
  case sequencePrepared
  then have eq: "s' = checkCommitQuorum s" "p' = p" "acts = []" using assms by (auto simp: advanceOnce_def)
  from checkCommitQuorum_D(1) [of s] show ?thesis
    by (elim disjE conjE) (rule stay, simp_all add: eq checkCommitQuorum_D(2),
        rule commit [OF sequencePrepared], simp_all add: eq checkCommitQuorum_D(2))
qed (rule stay; use assms in \<open>simp add: advanceOnce_def\<close>)+

text \<open>What one event does before the loop runs.\<close>

definition countPrepare :: "u64 \<Rightarrow> bytes \<Rightarrow> sequence \<Rightarrow> sequence" where
  "countPrepare source digest s =
     s\<lparr>sqNodeChoices := (sqNodeChoices s)(source \<mapsto> \<lparr>nscState = nodeSeqPreprepared, nscDigest = digest\<rparr>),
       sqPrepares := (sqPrepares s)(bstr digest := sqPrepares s (bstr digest) + 1)\<rparr>"

definition countCommit :: "u64 \<Rightarrow> bytes \<Rightarrow> sequence \<Rightarrow> sequence" where
  "countCommit source digest s =
     s\<lparr>sqNodeChoices := (sqNodeChoices s)(source \<mapsto>
         (fst (nodeChoice source s))\<lparr>nscState := nodeSeqPrepared\<rparr>),
       sqCommits := (sqCommits s)(bstr digest := sqCommits s (bstr digest) + 1)\<rparr>"

lemma choiceState_count [simp]:
  "choiceState (countPrepare source d s) = (choiceState s)(source := nodeSeqPreprepared)"
  "choiceState (countCommit source d s) = (choiceState s)(source := nodeSeqPrepared)"
  by (simp_all add: choiceState_def countPrepare_def countCommit_def fun_eq_iff)

lemma count_simps [simp]:
  "sqOwner (countPrepare source d s) = sqOwner s" "sqOwner (countCommit source d s) = sqOwner s"
  "sqSeqNo (countPrepare source d s) = sqSeqNo s" "sqSeqNo (countCommit source d s) = sqSeqNo s"
  "sqEpoch (countPrepare source d s) = sqEpoch s" "sqEpoch (countCommit source d s) = sqEpoch s"
  "sqMyConfig (countPrepare source d s) = sqMyConfig s" "sqMyConfig (countCommit source d s) = sqMyConfig s"
  "sqNetworkConfig (countPrepare source d s) = sqNetworkConfig s"
  "sqNetworkConfig (countCommit source d s) = sqNetworkConfig s"
  "sqState (countPrepare source d s) = sqState s" "sqState (countCommit source d s) = sqState s"
  "sqQEntry (countPrepare source d s) = sqQEntry s" "sqQEntry (countCommit source d s) = sqQEntry s"
  "sqBatch (countPrepare source d s) = sqBatch s" "sqBatch (countCommit source d s) = sqBatch s"
  "sqDigest (countPrepare source d s) = sqDigest s" "sqDigest (countCommit source d s) = sqDigest s"
  "sqCommits (countPrepare source d s) = sqCommits s"
  "sqCommits (countCommit source d s) = (sqCommits s)(bstr d := sqCommits s (bstr d) + 1)"
  by (simp_all add: countPrepare_def countCommit_def)

lemma applyPrepareMsg_eq:
  "applyPrepareMsg h source digest s p =
     (if source \<noteq> sqOwner s \<and> choiceState s source > nodeSeqUninitialized
      then Some (snd (nodeChoice source s), p, [])
      else advanceState h (countPrepare source digest s) p)"
proof -
  obtain c s1 where c: "nodeChoice source s = (c, s1)" by force
  obtain st d where "c = \<lparr>nscState = st, nscDigest = d\<rparr>" by (cases c)
  with nodeChoice_D [OF c] show ?thesis by (auto simp: applyPrepareMsg_def countPrepare_def Let_def c)
qed

lemma applyCommitMsg_eq:
  "applyCommitMsg h source digest s p =
     (if choiceState s source > nodeSeqPreprepared then Some (snd (nodeChoice source s), p, [])
      else advanceState h (countCommit source digest s) p)"
proof -
  obtain c s1 where c: "nodeChoice source s = (c, s1)" by force
  show ?thesis using nodeChoice_D [OF c] by (auto simp: applyCommitMsg_def countCommit_def Let_def c)
qed

lemma nodeChoice_snd:
  "votes (snd (nodeChoice source s)) = votes s" "choiceState (snd (nodeChoice source s)) = choiceState s"
  "sqState (snd (nodeChoice source s)) = sqState s" "sqQEntry (snd (nodeChoice source s)) = sqQEntry s"
  by (cases "nodeChoice source s"; auto simp: votes_eq dest!: nodeChoice_D)+

lemma seqApply_cases:
  assumes "seqApply h ev s p = Some (s', p', acts)"
  obtains
    (ignored) "votes s' = votes s" "choiceState s' = choiceState s" "sqState s' = sqState s"
      "sqQEntry s' = sqQEntry s" "p' = p" "acts = []"
  | (noop) rs outst where "ev = EvAllocate [] outst \<or> ev = EvAllocateAsOwner []" "sqState s = sequenceUninitialized"
      "advanceState h (countPrepare (sqOwner s) None (s\<lparr>sqClientRequests := rs, sqBatch := [],
         sqOutstanding := outst, sqState := sequenceReady, sqDigest := None\<rparr>)) p = Some (s', p', acts)"
  | (batch) rs acks outst pre out where "acks \<noteq> []" "sqState s = sequenceUninitialized"
      "advanceState h (s\<lparr>sqClientRequests := rs, sqBatch := acks, sqOutstanding := outst,
         sqState := sequencePendingRequests\<rparr>) p = Some (s', p', out)" "acts = pre @ out" "sends_of pre = []"
  | (hash) d where "ev = EvHash d"
      "advanceState h (countPrepare (sqOwner s) d (s\<lparr>sqDigest := d\<rparr>)) p = Some (s', p', acts)"
  | (satisfy) outst where "advanceState h (s\<lparr>sqOutstanding := outst\<rparr>) p = Some (s', p', acts)"
  | (prepare) source d where "ev = EvPrepare source d"
      "source = sqOwner s \<or> choiceState s source = nodeSeqUninitialized"
      "advanceState h (countPrepare source d s) p = Some (s', p', acts)"
  | (commit) source d where "ev = EvCommit source d" "choiceState s source \<noteq> nodeSeqPrepared"
      "advanceState h (countCommit source d s) p = Some (s', p', acts)"
proof (cases ev)
  case (EvAllocate acks outst)
  show ?thesis
  proof (cases "acks = []")
    case True
    then show ?thesis
      using assms EvAllocate noop [where rs = "sqClientRequests s" and outst = outst]
      by (auto simp: allocate_def applyBatchHashResult_def applyPrepareMsg_eq bind_eq_Some_conv)
  next
    case False
    then show ?thesis
      using assms EvAllocate batch [where rs = "sqClientRequests s" and acks = acks and outst = outst]
      by (auto simp: allocate_def bind_eq_Some_conv)
  qed
next
  case (EvAllocateAsOwner rs)
  with assms obtain acks where acks: "those (map (\<lambda>r. map_option creqAck (h r)) rs) = Some acks"
    and alloc: "allocate h acks [] (s\<lparr>sqClientRequests := rs\<rparr>) p = Some (s', p', acts)"
    by (auto simp: allocateAsOwner_def bind_eq_Some_conv)
  show ?thesis
  proof (cases "acks = []")
    case True
    then have "rs = []" using acks by (cases rs) (auto split: option.splits)
    then show ?thesis
      using alloc True EvAllocateAsOwner noop [where rs = rs and outst = "[]"]
      by (auto simp: allocate_def applyBatchHashResult_def applyPrepareMsg_eq bind_eq_Some_conv)
  next
    case False
    then show ?thesis
      using alloc batch [where rs = rs and acks = acks and outst = "[]"] by (auto simp: allocate_def bind_eq_Some_conv)
  qed
next
  case (EvHash d)
  then show ?thesis using assms hash by (auto simp: applyBatchHashResult_def applyPrepareMsg_eq)
next
  case (EvSatisfy ack)
  then show ?thesis using assms satisfy by (auto simp: satisfyOutstanding_def bind_eq_Some_conv)
next
  case (EvPrepare source d)
  then show ?thesis
    using assms prepare [of source d] ignored nodeChoice_snd [of source s]
    by (cases "choiceState s source") (auto simp: applyPrepareMsg_eq less_nodeSeqState_def split: if_splits)
next
  case (EvCommit source d)
  then show ?thesis
    using assms commit [of source d] ignored nodeChoice_snd [of source s]
    by (cases "choiceState s source") (auto simp: applyCommitMsg_eq less_nodeSeqState_def split: if_splits)
qed

section \<open>Invariants of a run\<close>

text \<open>Nothing is said that was not persisted, and each phase speaks once.\<close>

definition announcement :: "sequence \<Rightarrow> bytes \<Rightarrow> Msg" where
  "announcement s d =
     (if sqOwner s = ipId (sqMyConfig s) then Msg_Preprepare (sqSeqNo s) (sqEpoch s) (sqBatch s)
      else Msg_Prepare (sqSeqNo s) (sqEpoch s) d)"

definition phaseInv :: "sequence \<Rightarrow> persisted \<Rightarrow> ActionList \<Rightarrow> bool" where
  "phaseInv s p acts \<longleftrightarrow>
     (\<exists>dq dp.
        map snd (sends_of acts) =
          (if sequencePreprepared \<le> sqState s then [announcement s dq] else []) @
          (if sequencePrepared \<le> sqState s then [Msg_Commit (sqSeqNo s) (sqEpoch s) dp] else []) \<and>
        (sequencePreprepared \<le> sqState s \<longrightarrow>
           sqQEntry s = Some \<lparr>qeSeqNo = sqSeqNo s, qeDigest = dq, qeRequests = sqBatch s\<rparr> \<and>
           Persistent_QEntry \<lparr>qeSeqNo = sqSeqNo s, qeDigest = dq, qeRequests = sqBatch s\<rparr> \<in> set (log_entries p)) \<and>
        (sequencePrepared \<le> sqState s \<longrightarrow>
           Persistent_PEntry \<lparr>peSeqNo = sqSeqNo s, peDigest = dp\<rparr> \<in> set (log_entries p)))"

lemma phaseInv_cong:
  assumes "phaseInv s p acts"
    and "sqState t = sqState s" "sqQEntry t = sqQEntry s" "sqBatch t = sqBatch s"
      "sqSeqNo t = sqSeqNo s" "sqEpoch t = sqEpoch s" "sqOwner t = sqOwner s" "sqMyConfig t = sqMyConfig s"
  shows "phaseInv t p acts"
proof -
  have "announcement t = announcement s" using assms by (simp add: announcement_def fun_eq_iff)
  with assms(1) show ?thesis unfolding phaseInv_def assms(2-5) by (simp only: assms(6))
qed

lemma phaseInv_early:
  "sqState s < sequencePreprepared \<Longrightarrow> phaseInv s p acts \<longleftrightarrow> sends_of acts = []"
  by (cases "sqState s") (auto simp: phaseInv_def seqState_order)

lemma phaseInv_advanceOnce:
  assumes inv: "phaseInv s p acts" and once: "advanceOnce h s p = Some (s', p', out)"
  shows "phaseInv s' p' (acts @ out)"
proof -
  have frame: "votes s' = votes s" using advanceOnce_frame [OF once] by simp
  from once show ?thesis
  proof (cases rule: advanceOnce_cases)
    case stay
    then show ?thesis using inv frame by (auto simp: votes_eq intro: phaseInv_cong)
  next
    case ready
    then show ?thesis using inv frame by (simp add: phaseInv_early seqState_order)
  next
    case (preprepare q)
    then have "sends_of acts = []" using inv by (simp add: phaseInv_early seqState_order)
    then show ?thesis
      using preprepare frame
      by (auto simp: phaseInv_def announcement_def votes_eq seqState_order intro!: exI [of _ "sqDigest s"])
  next
    case (prepare e)
    then show ?thesis
      using inv frame by (auto simp: phaseInv_def announcement_def votes_eq seqState_order)
  next
    case commit
    then show ?thesis using inv frame by (auto simp: phaseInv_def announcement_def votes_eq seqState_order)
  qed
qed

lemma phaseInv_advanceState:
  assumes "phaseInv s p pre" and "advanceState h s p = Some (s', p', out)"
  shows "phaseInv s' p' (pre @ out)"
  using advanceState_rule [where Q = phaseInv, OF assms(2,1)] phaseInv_advanceOnce by blast

lemma phaseInv_seqApply:
  assumes inv: "phaseInv s p acts" and app: "seqApply h ev s p = Some (s', p', out)"
  shows "phaseInv s' p' (acts @ out)"
  using app
proof (cases rule: seqApply_cases)
  case ignored
  then show ?thesis using inv by (auto simp: votes_eq intro: phaseInv_cong)
next
  case (noop rs outst)
  then show ?thesis
    using inv by (intro phaseInv_advanceState [OF _ noop(3)]) (auto simp: phaseInv_early seqState_order)
next
  case (batch rs acks outst pre out')
  then show ?thesis
    using inv phaseInv_advanceState [OF _ batch(3), of "acts @ pre"]
    by (auto simp: phaseInv_early seqState_order)
next
  case (hash d)
  show ?thesis by (rule phaseInv_advanceState [OF phaseInv_cong [OF inv] hash(2)]) simp_all
next
  case (satisfy outst)
  show ?thesis by (rule phaseInv_advanceState [OF phaseInv_cong [OF inv] satisfy]) simp_all
next
  case (prepare source d)
  show ?thesis by (rule phaseInv_advanceState [OF phaseInv_cong [OF inv] prepare(3)]) simp_all
next
  case (commit source d)
  show ?thesis by (rule phaseInv_advanceState [OF phaseInv_cong [OF inv] commit(3)]) simp_all
qed

lemma phaseInv_run:
  assumes "seqRun s0 p0 evs acts s p" and "sqState s0 = sequenceUninitialized"
  shows "phaseInv s p acts"
  using assms by (induction rule: seqRun.induct) (auto simp: phaseInv_early seqState_order intro: phaseInv_seqApply)

lemma advanceState_frame:
  assumes "advanceState h s p = Some (s', p', out)"
  shows "votes s' = votes s" "choiceState s' = choiceState s"
  using advanceState_rule [where Q = "\<lambda>t _ _. votes t = votes s \<and> choiceState t = choiceState s", OF assms]
    advanceOnce_frame by fastforce+

text \<open>The identity of the sequence never changes.\<close>

definition seqIdent :: "sequence \<Rightarrow> u64 \<times> u64 \<times> u64 \<times> InitialParameters \<times> NetworkConfig" where
  "seqIdent s = (sqOwner s, sqSeqNo s, sqEpoch s, sqMyConfig s, sqNetworkConfig s)"

lemma seqIdent_run:
  assumes "seqRun s0 p0 evs acts s p"
  shows "seqIdent s = seqIdent s0"
  using assms
proof (induction rule: seqRun.induct)
  case (step s0 p0 evs acts s p h ev s' p' out)
  have "seqIdent s' = seqIdent s"
    using step(2) by (cases rule: seqApply_cases)
      (auto simp: votes_eq seqIdent_def dest!: advanceState_frame(1))
  then show ?case using step by simp
qed simp

text \<open>
  The digest. A run is given one digest \<open>D\<close> when every hash result it is told has that value, the empty
  string for a batch without requests: the hash is computed once per batch.
\<close>

fun digestEv :: "byte list \<Rightarrow> seqEvent \<Rightarrow> bool" where
  "digestEv D (EvHash d) \<longleftrightarrow> bstr d = D"
| "digestEv D (EvAllocate acks _) \<longleftrightarrow> (acks = [] \<longrightarrow> D = [])"
| "digestEv D (EvAllocateAsOwner rs) \<longleftrightarrow> (rs = [] \<longrightarrow> D = [])"
| "digestEv D _ \<longleftrightarrow> True"

definition digestInv :: "byte list \<Rightarrow> sequence \<Rightarrow> bool" where
  "digestInv D s \<longleftrightarrow>
     (sqDigest s \<noteq> None \<longrightarrow> bstr (sqDigest s) = D) \<and>
     (sqState s \<noteq> sequenceUninitialized \<and> sqBatch s = [] \<longrightarrow> D = []) \<and>
     (sequencePreprepared \<le> sqState s \<longrightarrow>
        bstr (sqDigest s) = D \<and> (\<exists>q. sqQEntry s = Some q \<and> bstr (qeDigest q) = D)) \<and>
     (sqState s = sequenceCommitted \<longrightarrow> intersectionQuorum (sqNetworkConfig s) \<le> int (sqCommits s D))"

lemma digestInv_advanceOnce:
  assumes inv: "digestInv D s" and once: "advanceOnce h s p = Some (s', p', out)"
  shows "digestInv D s'"
  using once
proof (cases rule: advanceOnce_cases)
  case (preprepare q)
  then show ?thesis
    using inv advanceOnce_frame [OF once] by (auto simp: digestInv_def votes_eq seqState_order)
qed (use inv advanceOnce_frame [OF once] in \<open>auto simp: digestInv_def votes_eq seqState_order\<close>)

lemma digestInv_advanceState:
  assumes "advanceState h s p = Some (s', p', out)" and "digestInv D s"
  shows "digestInv D s'"
  using advanceState_rule [where Q = "\<lambda>s _ _. digestInv D s" and pre = "[]", OF assms] digestInv_advanceOnce
  by blast

lemma digestInv_seqApply:
  assumes inv: "digestInv D s" and ev: "digestEv D ev" and app: "seqApply h ev s p = Some (s', p', out)"
  shows "digestInv D s'"
  using app
proof (cases rule: seqApply_cases)
  case ignored
  then show ?thesis using inv by (auto simp: digestInv_def votes_eq)
next
  case (noop rs outst)
  then show ?thesis
    using inv ev by (intro digestInv_advanceState [OF noop(3)]) (auto simp: digestInv_def seqState_order)
next
  case (batch rs acks outst pre out')
  then show ?thesis
    using inv by (intro digestInv_advanceState [OF batch(3)]) (auto simp: digestInv_def seqState_order)
next
  case (hash d)
  then show ?thesis
    using inv ev by (intro digestInv_advanceState [OF hash(2)]) (auto simp: digestInv_def)
next
  case (satisfy outst)
  then show ?thesis
    using inv by (intro digestInv_advanceState [OF satisfy]) (auto simp: digestInv_def)
next
  case (prepare source d)
  then show ?thesis
    using inv by (intro digestInv_advanceState [OF prepare(3)]) (auto simp: digestInv_def)
next
  case (commit source d)
  then show ?thesis
    using inv by (intro digestInv_advanceState [OF commit(3)]) (auto simp: digestInv_def)
qed

lemma digestInv_run:
  assumes "seqRun s0 p0 evs acts s p" and "\<forall>ev\<in>set evs. digestEv D ev"
    and "sqState s0 = sequenceUninitialized" and "sqDigest s0 = None"
  shows "digestInv D s"
  using assms
proof (induction rule: seqRun.induct)
  case (start s p)
  then show ?case by (simp add: digestInv_def seqState_order)
next
  case (step s0 p0 evs acts s p h ev s' p' out)
  then show ?case using digestInv_seqApply [OF _ _ step(2)] by simp
qed

text \<open>
  The commits counted. A node other than the owner counts once; the owner counts as often as it is
  heard, since counting its preprepare puts its choice back to \<open>nodeSeqPreprepared\<close>.
\<close>

definition commitVoters :: "byte list \<Rightarrow> seqEvent list \<Rightarrow> u64 list" where
  "commitVoters d evs = List.map_filter
     (\<lambda>ev. case ev of EvCommit source e \<Rightarrow> if bstr e = d then Some source else None | _ \<Rightarrow> None) evs"

lemma commitVoters_simps [simp]:
  "commitVoters d [] = []"
  "commitVoters d (evs @ evs') = commitVoters d evs @ commitVoters d evs'"
  "commitVoters d (ev # evs) =
     (case ev of EvCommit source e \<Rightarrow> if bstr e = d then source # commitVoters d evs else commitVoters d evs
      | _ \<Rightarrow> commitVoters d evs)"
  by (simp_all add: commitVoters_def map_filter_rules split: seqEvent.splits)

definition voteInv :: "(u64 \<rightharpoonup> byte list) \<Rightarrow> seqEvent list \<Rightarrow> sequence \<Rightarrow> bool" where
  "voteInv g evs s \<longleftrightarrow>
     finite (dom g) \<and> sqOwner s \<notin> dom g \<and>
     (\<forall>source. source \<noteq> sqOwner s \<longrightarrow> (source \<in> dom g \<longleftrightarrow> choiceState s source = nodeSeqPrepared)) \<and>
     (\<forall>source d. g source = Some d \<longrightarrow> source \<in> set (commitVoters d evs)) \<and>
     (\<forall>d. sqCommits s d \<le> card {source. g source = Some d} + count_list (commitVoters d evs) (sqOwner s))"

lemma count_list_append: "count_list (xs @ ys) x = count_list xs x + count_list ys x"
  by (induction xs) auto

lemma voteInv_mono:
  assumes "voteInv g evs s" and "sqOwner t = sqOwner s" and "sqCommits t = sqCommits s"
    and "\<forall>source. source \<noteq> sqOwner s \<longrightarrow>
      (choiceState t source = nodeSeqPrepared \<longleftrightarrow> choiceState s source = nodeSeqPrepared)"
  shows "voteInv g (evs @ evs') t"
proof -
  have "sqCommits t d \<le> card {source. g source = Some d} + count_list (commitVoters d (evs @ evs')) (sqOwner t)" for d
    using assms by (simp add: voteInv_def count_list_append add.assoc [symmetric] trans_le_add1)
  then show ?thesis using assms by (auto simp: voteInv_def)
qed

lemma voteInv_commit:
  assumes inv: "voteInv g evs s" and new: "choiceState s source \<noteq> nodeSeqPrepared"
  shows "\<exists>g'. voteInv g' (evs @ [EvCommit source d]) (countCommit source d s)"
proof (cases "source = sqOwner s")
  case True
  then have "voteInv g (evs @ [EvCommit source d]) (countCommit source d s)"
    using inv by (auto simp: voteInv_def count_list_append)
  then show ?thesis by blast
next
  case False
  then have fresh: "g source = None" using inv new by (auto simp: voteInv_def)
  have fin: "finite {x. g x = Some e}" for e
    using inv by (auto simp: voteInv_def intro: finite_subset [of _ "dom g"])
  have "{x. (g(source \<mapsto> bstr d)) x = Some (bstr d)} = insert source {x. g x = Some (bstr d)}" by auto
  then have "card {x. (g(source \<mapsto> bstr d)) x = Some (bstr d)} = Suc (card {x. g x = Some (bstr d)})"
    using fresh fin by simp
  moreover have "{x. (g(source \<mapsto> bstr d)) x = Some e} = {x. g x = Some e}" if "e \<noteq> bstr d" for e
    using that fresh by auto
  ultimately have "voteInv (g(source \<mapsto> bstr d)) (evs @ [EvCommit source d]) (countCommit source d s)"
    using inv False by (auto simp: voteInv_def count_list_append)
  then show ?thesis by blast
qed

lemma voteInv_seqApply:
  assumes inv: "voteInv g evs s" and app: "seqApply h ev s p = Some (s', p', out)"
  shows "\<exists>g'. voteInv g' (evs @ [ev]) s'"
  using app
proof (cases rule: seqApply_cases)
  case ignored
  then show ?thesis using voteInv_mono [OF inv, of s' "[ev]"] by (auto simp: votes_eq)
next
  case (noop rs outst)
  then show ?thesis
    using voteInv_mono [OF inv, of s' "[ev]"] advanceState_frame [OF noop(3)]
    by (auto simp: votes_eq choiceState_def)
next
  case (batch rs acks outst pre out')
  then show ?thesis
    using voteInv_mono [OF inv, of s' "[ev]"] advanceState_frame [OF batch(3)]
    by (auto simp: votes_eq choiceState_def)
next
  case (hash d)
  then show ?thesis
    using voteInv_mono [OF inv, of s' "[ev]"] advanceState_frame [OF hash(2)]
    by (auto simp: votes_eq choiceState_def)
next
  case (satisfy outst)
  then show ?thesis
    using voteInv_mono [OF inv, of s' "[ev]"] advanceState_frame [OF satisfy]
    by (auto simp: votes_eq choiceState_def)
next
  case (prepare source d)
  have "voteInv g (evs @ [ev]) s'"
    using inv by (rule voteInv_mono)
      (use prepare(2) advanceState_frame [OF prepare(3)] in \<open>auto simp: votes_eq\<close>)
  then show ?thesis by blast
next
  case (commit source d)
  from voteInv_commit [OF inv commit(2)] obtain g'
    where "voteInv g' (evs @ [ev]) (countCommit source d s)" using commit(1) by blast
  then have "voteInv g' ((evs @ [ev]) @ []) s'"
    by (rule voteInv_mono) (use advanceState_frame [OF commit(3)] in \<open>auto simp: votes_eq\<close>)
  then show ?thesis by auto
qed

lemma voteInv_run:
  assumes "seqRun s0 p0 evs acts s p" and "sqCommits s0 = (\<lambda>_. 0)" and "sqNodeChoices s0 = Map.empty"
  shows "\<exists>g. voteInv g evs s"
  using assms
proof (induction rule: seqRun.induct)
  case (start s p)
  then have "voteInv Map.empty [] s" by (simp add: voteInv_def choiceState_def)
  then show ?case by blast
next
  case (step s0 p0 evs acts s p h ev s' p' out)
  then show ?case using voteInv_seqApply by blast
qed

lemma commits_bound:
  assumes "seqRun s0 p0 evs acts s p" and "sqCommits s0 = (\<lambda>_. 0)" and "sqNodeChoices s0 = Map.empty"
  shows "sqCommits s d \<le> card (set (commitVoters d evs) - {sqOwner s}) +
           count_list (commitVoters d evs) (sqOwner s)"
proof -
  obtain g where g: "voteInv g evs s" using voteInv_run [OF assms] by blast
  have "{source. g source = Some d} \<subseteq> set (commitVoters d evs) - {sqOwner s}"
    using g by (auto simp: voteInv_def)
  then have "card {source. g source = Some d} \<le> card (set (commitVoters d evs) - {sqOwner s})"
    by (simp add: card_mono)
  moreover have "sqCommits s d \<le> card {source. g source = Some d} + count_list (commitVoters d evs) (sqOwner s)"
    using g by (simp add: voteInv_def)
  ultimately show ?thesis by linarith
qed

lemma commits_distinct:
  assumes "seqRun s0 p0 evs acts s p" and "sqCommits s0 = (\<lambda>_. 0)" and "sqNodeChoices s0 = Map.empty"
    and once: "count_list (commitVoters d evs) (sqOwner s) \<le> 1"
  shows "sqCommits s d \<le> card (set (commitVoters d evs))"
proof (cases "sqOwner s \<in> set (commitVoters d evs)")
  case True
  then have "card (set (commitVoters d evs) - {sqOwner s}) + 1 = card (set (commitVoters d evs))"
    using card_Suc_Diff1 [OF finite_set True] by simp
  then show ?thesis using commits_bound [OF assms(1-3), of d] once by linarith
next
  case False
  then show ?thesis using commits_bound [OF assms(1-3), of d] by (simp add: count_list_0_iff)
qed

text \<open>A returned sequence has gone as far as what it knows allows.\<close>

definition choiceDigest :: "sequence \<Rightarrow> u64 \<Rightarrow> bytes" where
  "choiceDigest s source = (case sqNodeChoices s source of None \<Rightarrow> None | Some c \<Rightarrow> nscDigest c)"

definition settled :: "sequence \<Rightarrow> bool" where
  "settled s \<longleftrightarrow>
     (case sqState s of
        sequencePendingRequests \<Rightarrow> sqOutstanding s \<noteq> []
      | sequenceReady \<Rightarrow> sqDigest s = None \<and> sqBatch s \<noteq> []
      | sequencePreprepared \<Rightarrow>
          choiceState s (ipId (sqMyConfig s)) < nodeSeqPreprepared \<or>
          bstr (choiceDigest s (ipId (sqMyConfig s))) \<noteq> bstr (sqDigest s) \<or>
          int (sqPrepares s (bstr (sqDigest s))) < intersectionQuorum (sqNetworkConfig s)
      | sequencePrepared \<Rightarrow>
          choiceState s (ipId (sqMyConfig s)) < nodeSeqPrepared \<or>
          int (sqCommits s (bstr (sqDigest s))) < intersectionQuorum (sqNetworkConfig s)
      | sequenceAllocated \<Rightarrow> False
      | _ \<Rightarrow> True)"

lemma advanceOnce_settled:
  assumes "advanceOnce h s p = Some (s', p', acts)" and "sqState s' = sqState s"
    and "sqState s \<noteq> sequenceAllocated"
  shows "settled s'"
  using assms
  by (cases "sqState s")
    (auto simp: settled_def advanceOnce_def checkRequests_def prepare_def checkPrepareQuorum_def
      checkCommitQuorum_def Let_def bind_eq_Some_conv choiceDigest_def choiceState_def
      split: if_splits prod.splits dest!: nodeChoice_frame)

lemma advanceState_settled:
  assumes "advanceState h s p = Some (s', p', acts)" and "sqState s \<noteq> sequenceAllocated"
  shows "settled s'"
  using assms
proof (induction h s p arbitrary: acts rule: advanceState.induct)
  case (1 h s p)
  from 1(2) obtain s1 p1 a1 where once: "advanceOnce h s p = Some (s1, p1, a1)"
    by (subst (asm) advanceState.simps) (auto split: option.splits)
  show ?case
  proof (cases "sqState s1 = sqState s")
    case True
    then have "s' = s1" using 1(2) once by (simp add: advanceState.simps [of h s p])
    then show ?thesis using advanceOnce_settled [OF once True] 1(3) by simp
  next
    case False
    then obtain a2 where rest: "advanceState h s1 p1 = Some (s', p', a2)"
      using 1(2) once by (subst (asm) advanceState.simps) (auto split: option.splits)
    have "sqState s1 \<noteq> sequenceAllocated"
      using once False by (cases rule: advanceOnce_cases) auto
    then show ?thesis using 1(1) [OF once refl refl False rest] by simp
  qed
qed

lemma settled_nodeChoice: "settled s \<Longrightarrow> settled (snd (nodeChoice source s))"
  by (cases "sqState s")
    (auto simp: settled_def nodeChoice_def choiceState_def choiceDigest_def Let_def split: option.splits)

lemma settled_not_allocated: "settled s \<Longrightarrow> sqState s \<noteq> sequenceAllocated"
  by (auto simp: settled_def)

lemma settled_seqApply:
  assumes "settled s" and "seqApply h ev s p = Some (s', p', out)"
  shows "settled s'"
proof -
  note na = settled_not_allocated [OF assms(1)]
  have alloc: "allocate h acks outst t p = Some (s', p', out) \<Longrightarrow> settled s'" for acks outst t
    by (auto simp: allocate_def applyBatchHashResult_def applyPrepareMsg_eq bind_eq_Some_conv Let_def
        split: if_splits dest: advanceState_settled)
  show ?thesis
    using assms na alloc
    by (cases ev)
      (auto simp: allocateAsOwner_def satisfyOutstanding_def applyBatchHashResult_def applyPrepareMsg_eq
        applyCommitMsg_eq bind_eq_Some_conv settled_nodeChoice split: if_splits dest: advanceState_settled)
qed

lemma settled_run:
  assumes "seqRun s0 p0 evs acts s p" and "sqState s0 = sequenceUninitialized"
  shows "settled s"
  using assms
proof (induction rule: seqRun.induct)
  case (start s p)
  then show ?case by (simp add: settled_def)
next
  case (step s0 p0 evs acts s p h ev s' p' out)
  then show ?case using settled_seqApply by blast
qed

text \<open>Panics: the loop runs on every well-formed log when the requests of the batch exist.\<close>

lemma forwardMissing_total:
  "\<forall>r\<in>set rs. h r \<noteq> None \<Longrightarrow> \<exists>acts'. forwardMissing h nc rs acts = Some acts'"
  by (induction rs arbitrary: acts) (auto split: option.splits)

lemma advanceOnce_total:
  assumes "wal_inv p" and "\<forall>r\<in>set (sqClientRequests s). h r \<noteq> None"
  shows "\<exists>s' p' acts. advanceOnce h s p = Some (s', p', acts) \<and> wal_inv p'"
proof -
  obtain pq where pq: "addQEntry \<lparr>qeSeqNo = sqSeqNo s, qeDigest = sqDigest s, qeRequests = sqBatch s\<rparr> p = Some pq"
      "wal_inv (fst pq)"
    using pw.append_ok [OF assms(1)] by fastforce
  obtain pp where pp: "addPEntry \<lparr>peSeqNo = sqSeqNo s, peDigest = sqDigest s\<rparr> p = Some pp" "wal_inv (fst pp)"
    using pw.append_ok [OF assms(1)] by fastforce
  obtain f where f: "forwardMissing h (sqNetworkConfig s) (sqClientRequests s) (snd pq) = Some f"
    using forwardMissing_total [OF assms(2)] by blast
  have "\<exists>s' p' acts. prepare h s p = Some (s', p', acts) \<and> wal_inv p'"
    using pq f by (cases pq) (simp add: prepare_def Let_def)
  moreover have "\<exists>s' p' acts. checkPrepareQuorum s p = Some (s', p', acts) \<and> wal_inv p'"
  proof -
    obtain c s1 where c: "nodeChoice (ipId (sqMyConfig s)) s = (c, s1)" by force
    then have "sqSeqNo s1 = sqSeqNo s" "sqDigest s1 = sqDigest s" by (auto dest: nodeChoice_frame)
    then show ?thesis using pp assms(1) c by (cases pp) (auto simp: checkPrepareQuorum_def Let_def)
  qed
  ultimately show ?thesis
    using assms(1) by (cases "sqState s") (auto simp: advanceOnce_def)
qed

lemma advanceState_total:
  assumes "wal_inv p" and "\<forall>r\<in>set (sqClientRequests s). h r \<noteq> None"
  shows "\<exists>s' p' acts. advanceState h s p = Some (s', p', acts) \<and> wal_inv p'"
  using assms
proof (induction h s p rule: advanceState.induct)
  case (1 h s p)
  obtain s1 p1 a1 where once: "advanceOnce h s p = Some (s1, p1, a1)" and wal: "wal_inv p1"
    using advanceOnce_total [OF 1(2,3)] by blast
  show ?case
  proof (cases "sqState s1 = sqState s")
    case True
    then show ?thesis using once wal by (simp add: advanceState.simps [of h s p])
  next
    case False
    moreover have "\<forall>r\<in>set (sqClientRequests s1). h r \<noteq> None"
      using advanceOnce_frame [OF once] 1(3) by (simp add: votes_eq)
    ultimately show ?thesis
      using 1(1) [OF once refl refl False wal] once by (auto simp: advanceState.simps [of h s p])
  qed
qed

end
