(* ===== verification/Mir_Agreement.thy ===== *)
theory Mir_Agreement
  imports Mir_Sequence
begin

text \<open>
  What the three-phase commit of \<open>sequence.go\<close> guarantees: what a node says it has persisted, a
  sequence that returns has gone as far as it can, a committed sequence has a quorum of commits, and
  no two replicas commit different digests in one epoch. The last two hold when the owner's commit is
  heard once: the runs at the end show that a repeated vote of the owner is counted again.
\<close>

section \<open>Sample runs\<close>

definition sampleParams :: "u64 \<Rightarrow> InitialParameters" where
  [go_defs]: "sampleParams me = \<lparr>ipId = me, ipBatchSize = 1, ipHeartbeatTicks = 2, ipSuspectTicks = 4,
     ipNewEpochTimeoutTicks = 8, ipBufferSize = 1000\<rparr>"

definition sampleAck :: RequestAck where
  [go_defs]: "sampleAck = \<lparr>ackClientId = 9, ackReqNo = 0, ackDigest = Some [1, 2]\<rparr>"

definition sampleStore :: cr_store where
  [go_defs]: "sampleStore = [7 \<mapsto> \<lparr>creqAck = sampleAck, creqAgreements = [0, 1], creqStored = True,
     creqFetching = False, creqTicksFetching = 0, creqTicksCorrect = 0\<rparr>]"

text \<open>Node 0 owns sequence 1 of epoch 3.\<close>

definition sampleSeq :: "u64 \<Rightarrow> sequence" where
  [go_defs]: "sampleSeq me = newSequence 0 3 1 sampleNet (sampleParams me)"

definition sampleDigest :: bytes where
  [go_defs]: "sampleDigest = Some [5]"

definition sampleEvents :: "u64 \<Rightarrow> seqEvent list" where
  [go_defs]: "sampleEvents me =
     (if me = 0 then [EvAllocateAsOwner [7], EvHash sampleDigest, EvPrepare 0 sampleDigest, EvPrepare 1 sampleDigest]
      else [EvAllocate [sampleAck] [], EvHash sampleDigest, EvPrepare me sampleDigest,
            EvPrepare (if me = 1 then 2 else 1) sampleDigest]) @
     [EvCommit me sampleDigest, EvCommit 0 sampleDigest, EvCommit 1 sampleDigest, EvCommit 2 sampleDigest]"

definition sampleRun :: "u64 \<Rightarrow> sequence \<times> persisted \<times> ActionList" where
  "sampleRun me = the (seqExec sampleStore (sampleEvents me) (sampleSeq me) sampleLog)"

lemma sampleRun_ok:
  "seqExec sampleStore (sampleEvents 0) (sampleSeq 0) sampleLog \<noteq> None"
  "seqExec sampleStore (sampleEvents 1) (sampleSeq 1) sampleLog \<noteq> None"
  "seqExec sampleStore (sampleEvents 2) (sampleSeq 2) sampleLog \<noteq> None"
  by code_simp+

lemma sampleRun_committed:
  "sqState (fst (sampleRun 1)) = sequenceCommitted"
  "sqState (fst (sampleRun 2)) = sequenceCommitted"
  by code_simp+

lemma sampleRun_run:
  assumes "me \<in> {0, 1, 2}"
  shows "seqRun (sampleSeq me) sampleLog (sampleEvents me) (snd (snd (sampleRun me)))
    (fst (sampleRun me)) (fst (snd (sampleRun me)))"
proof -
  have "seqExec sampleStore (sampleEvents me) (sampleSeq me) sampleLog \<noteq> None"
    using assms sampleRun_ok by auto
  then have "seqExec sampleStore (sampleEvents me) (sampleSeq me) sampleLog =
      Some (fst (sampleRun me), fst (snd (sampleRun me)), snd (snd (sampleRun me)))"
    by (auto simp: sampleRun_def)
  then show ?thesis by (rule seqExec_run)
qed

lemma sampleRun_sends:
  "map snd (sends_of (snd (snd (sampleRun 0)))) = [Msg_Preprepare 1 3 [sampleAck], Msg_Commit 1 3 sampleDigest]"
  "map snd (sends_of (snd (snd (sampleRun 1)))) = [Msg_Prepare 1 3 sampleDigest, Msg_Commit 1 3 sampleDigest]"
  "map snd (sends_of (snd (snd (sampleRun 2)))) = [Msg_Prepare 1 3 sampleDigest, Msg_Commit 1 3 sampleDigest]"
  by code_simp+

lemma sampleRun_commit:
  assumes "me \<in> {0, 1, 2}"
  shows "Msg_Commit 1 3 sampleDigest \<in> snd ` set (sends_of (snd (snd (sampleRun me))))"
  using assms sampleRun_sends [THEN arg_cong, of set] by auto

lemma sampleEvents_votes:
  assumes "me \<in> {1, 2}"
  shows "\<forall>ev\<in>set (sampleEvents me). digestEv [5] ev"
    and "set (commitVoters [5] (sampleEvents me)) = {0, 1, 2}"
    and "count_list (commitVoters [5] (sampleEvents me)) 0 = 1"
    and "EvCommit c d \<in> set (sampleEvents me) \<Longrightarrow> c \<in> {0, 1, 2} \<and> d = sampleDigest"
  using assms by (auto simp: sampleEvents_def sampleDigest_def)

section \<open>Committing\<close>

lemma newSequence_fresh [simp]:
  "sqState (newSequence owner epoch seqNo nc cfg) = sequenceUninitialized"
  "sqDigest (newSequence owner epoch seqNo nc cfg) = None"
  "sqCommits (newSequence owner epoch seqNo nc cfg) = (\<lambda>_. 0)"
  "sqNodeChoices (newSequence owner epoch seqNo nc cfg) = Map.empty"
  "seqIdent (newSequence owner epoch seqNo nc cfg) = (owner, seqNo, epoch, cfg, nc)"
  by (simp_all add: newSequence_def seqIdent_def)

lemma set_commitVoters: "c \<in> set (commitVoters d evs) \<longleftrightarrow> (\<exists>e. EvCommit c e \<in> set evs \<and> bstr e = d)"
  by (induction evs) (auto split: seqEvent.splits if_splits)

lemma committed_quorum:
  assumes run: "seqRun (newSequence owner epoch seqNo nc cfg) p0 evs acts s p"
    and D: "\<forall>ev\<in>set evs. digestEv D ev" and committed: "sqState s = sequenceCommitted"
    and once: "count_list (commitVoters D evs) owner \<le> 1"
  shows "intersectionQuorum nc \<le> int (card (set (commitVoters D evs)))"
    "\<exists>q. sqQEntry s = Some q \<and> bstr (qeDigest q) = D"
proof -
  have ident: "sqOwner s = owner" "sqNetworkConfig s = nc"
    using seqIdent_run [OF run] by (simp_all add: seqIdent_def newSequence_def)
  have inv: "digestInv D s" using digestInv_run [OF run D] by simp
  show "\<exists>q. sqQEntry s = Some q \<and> bstr (qeDigest q) = D"
    using inv committed by (simp add: digestInv_def seqState_order)
  have "sqCommits s D \<le> card (set (commitVoters D evs))"
    using commits_distinct [OF run] once ident by simp
  moreover have "intersectionQuorum nc \<le> int (sqCommits s D)"
    using inv committed ident by (simp add: digestInv_def)
  ultimately show "intersectionQuorum nc \<le> int (card (set (commitVoters D evs)))" by linarith
qed

lemma one_commit_sent:
  assumes run: "seqRun (newSequence owner epoch seqNo nc cfg) p0 evs acts s p"
    and "Msg_Commit seqNo epoch d \<in> snd ` set (sends_of acts)"
    and "Msg_Commit seqNo epoch e \<in> snd ` set (sends_of acts)"
  shows "d = e"
proof -
  have "phaseInv s p acts" using phaseInv_run [OF run] by simp
  then obtain dq dp where "map snd (sends_of acts) =
      (if sequencePreprepared \<le> sqState s then [announcement s dq] else []) @
      (if sequencePrepared \<le> sqState s then [Msg_Commit (sqSeqNo s) (sqEpoch s) dp] else [])"
    unfolding phaseInv_def by blast
  from arg_cong [OF this, of set] assms(2,3) show ?thesis
    by (auto simp: announcement_def split: if_splits)
qed



text \<open>C8. A node speaks about a sequence only after it has persisted what it says: a run of the sequence
  sends at most one preprepare or prepare and then at most one commit, in that order and nothing else;
  the log holds the Q entry with the batch the first one announces (and with its digest), and the P
  entry with the digest of the second.\<close>

theorem sequence_sends_persisted:
  assumes run: "seqRun (newSequence owner epoch seqNo nc cfg) p0 evs acts s p"
  shows "\<exists>first commit. map snd (sends_of acts) = first @ commit \<and>
    (first = [] \<or>
     (\<exists>q. first = [if owner = ipId cfg then Msg_Preprepare seqNo epoch (qeRequests q)
                    else Msg_Prepare seqNo epoch (qeDigest q)] \<and>
        qeSeqNo q = seqNo \<and> Persistent_QEntry q \<in> set (log_entries p))) \<and>
    (commit = [] \<or>
     first \<noteq> [] \<and> (\<exists>e. commit = [Msg_Commit seqNo epoch (peDigest e)] \<and>
        peSeqNo e = seqNo \<and> Persistent_PEntry e \<in> set (log_entries p)))"
proof -
  have ident: "sqOwner s = owner" "sqSeqNo s = seqNo" "sqEpoch s = epoch" "sqMyConfig s = cfg"
    using seqIdent_run [OF run] by (simp_all add: seqIdent_def newSequence_def)
  let ?first = "\<lambda>d. if sequencePreprepared \<le> sqState s then [announcement s d] else []"
  let ?commit = "\<lambda>d. if sequencePrepared \<le> sqState s then [Msg_Commit seqNo epoch d] else []"
  have "phaseInv s p acts" using phaseInv_run [OF run] by simp
  then obtain dq dp where sends: "map snd (sends_of acts) = ?first dq @ ?commit dp"
    and q: "sequencePreprepared \<le> sqState s \<longrightarrow>
      Persistent_QEntry \<lparr>qeSeqNo = seqNo, qeDigest = dq, qeRequests = sqBatch s\<rparr> \<in> set (log_entries p)"
    and e: "sequencePrepared \<le> sqState s \<longrightarrow> Persistent_PEntry \<lparr>peSeqNo = seqNo, peDigest = dp\<rparr> \<in> set (log_entries p)"
    unfolding phaseInv_def ident by blast
  have "sequencePrepared \<le> sqState s \<longrightarrow> sequencePreprepared \<le> sqState s" by (simp add: seqState_order)
  with sends q e show ?thesis
    by (intro exI [of _ "?first dq"] exI [of _ "?commit dp"]) (force simp: announcement_def ident)
qed

theorem sequence_sends_persisted_witness:
  "\<exists>first commit. map snd (sends_of (snd (snd (sampleRun 1)))) = first @ commit \<and>
    (first = [] \<or>
     (\<exists>q. first = [if 0 = ipId (sampleParams 1) then Msg_Preprepare 1 3 (qeRequests q)
                    else Msg_Prepare 1 3 (qeDigest q)] \<and>
        qeSeqNo q = 1 \<and> Persistent_QEntry q \<in> set (log_entries (fst (snd (sampleRun 1)))))) \<and>
    (commit = [] \<or>
     first \<noteq> [] \<and> (\<exists>e. commit = [Msg_Commit 1 3 (peDigest e)] \<and>
        peSeqNo e = 1 \<and> Persistent_PEntry e \<in> set (log_entries (fst (snd (sampleRun 1))))))"
  using sequence_sends_persisted [OF sampleRun_run [of 1, unfolded sampleSeq_def]] by simp

text \<open>C7. Every commit a sequence counts comes from a node that sent one for that digest, a node other
  than the owner is counted once, and so a committed sequence has heard a quorum of commits for the
  digest it persisted, where only repeated commits of the owner can stand in for distinct nodes.\<close>

theorem committed_needs_commits:
  assumes run: "seqRun (newSequence owner epoch seqNo nc cfg) p0 evs acts s p"
    and D: "\<forall>ev\<in>set evs. digestEv D ev" and committed: "sqState s = sequenceCommitted"
  shows "\<exists>q. sqQEntry s = Some q \<and> bstr (qeDigest q) = D \<and> Persistent_QEntry q \<in> set (log_entries p) \<and>
    intersectionQuorum nc \<le>
      int (card (set (commitVoters D evs) - {owner}) + count_list (commitVoters D evs) owner)"
proof -
  have ident: "sqOwner s = owner" "sqNetworkConfig s = nc"
    using seqIdent_run [OF run] by (simp_all add: seqIdent_def newSequence_def)
  have inv: "digestInv D s" using digestInv_run [OF run D] by simp
  have "phaseInv s p acts" using phaseInv_run [OF run] by simp
  then obtain q where "sqQEntry s = Some q" "Persistent_QEntry q \<in> set (log_entries p)"
    using committed by (auto simp: phaseInv_def seqState_order)
  moreover from this inv committed have "bstr (qeDigest q) = D" by (simp add: digestInv_def seqState_order)
  moreover have "intersectionQuorum nc \<le> int (sqCommits s D)"
    using inv committed ident by (simp add: digestInv_def)
  ultimately show ?thesis using commits_bound [OF run, of D] ident by auto
qed

theorem committed_needs_commits_witness:
  "\<exists>q. sqQEntry (fst (sampleRun 1)) = Some q \<and> bstr (qeDigest q) = [5] \<and>
    Persistent_QEntry q \<in> set (log_entries (fst (snd (sampleRun 1)))) \<and>
    intersectionQuorum sampleNet \<le> int (card (set (commitVoters [5] (sampleEvents 1)) - {0}) +
      count_list (commitVoters [5] (sampleEvents 1)) 0)"
  by (rule committed_needs_commits [OF sampleRun_run [of 1, unfolded sampleSeq_def] sampleEvents_votes(1)])
    (simp_all add: sampleRun_committed)

text \<open>C16. No sequence is left waiting for something it already has: after every event, a sequence that was
  allocated, whose requests are all available and whose batch is hashed, with our own prepare and
  commit heard, and with a quorum of prepares and a quorum of commits counted for its digest, is
  committed.\<close>

theorem sequence_progress:
  assumes run: "seqRun (newSequence owner epoch seqNo nc cfg) p0 evs acts s p"
    and "sqState s \<noteq> sequenceUninitialized" and "sqOutstanding s = []"
    and "sqDigest s \<noteq> None \<or> sqBatch s = []"
    and "choiceState s (ipId cfg) = nodeSeqPrepared"
    and "bytes_equal (choiceDigest s (ipId cfg)) (sqDigest s)"
    and "intersectionQuorum nc \<le> int (sqPrepares s (bstr (sqDigest s)))"
    and "intersectionQuorum nc \<le> int (sqCommits s (bstr (sqDigest s)))"
  shows "sqState s = sequenceCommitted"
proof -
  have ident: "sqMyConfig s = cfg" "sqNetworkConfig s = nc"
    using seqIdent_run [OF run] by (simp_all add: seqIdent_def newSequence_def)
  have "settled s" using settled_run [OF run] by simp
  then show ?thesis
    using assms(2-) by (cases "sqState s") (auto simp: settled_def ident less_nodeSeqState_def)
qed

theorem sequence_progress_witness:
  "sqState (fst (sampleRun 1)) = sequenceCommitted"
proof (rule sequence_progress [OF sampleRun_run [of 1, unfolded sampleSeq_def]])
  show "sqState (fst (sampleRun 1)) \<noteq> sequenceUninitialized" by code_simp
  show "sqOutstanding (fst (sampleRun 1)) = []" by code_simp
  show "sqDigest (fst (sampleRun 1)) \<noteq> None \<or> sqBatch (fst (sampleRun 1)) = []" by code_simp
  show "choiceState (fst (sampleRun 1)) (ipId (sampleParams 1)) = nodeSeqPrepared" by code_simp
  show "bytes_equal (choiceDigest (fst (sampleRun 1)) (ipId (sampleParams 1))) (sqDigest (fst (sampleRun 1)))"
    by code_simp
  show "intersectionQuorum sampleNet \<le> int (sqPrepares (fst (sampleRun 1)) (bstr (sqDigest (fst (sampleRun 1)))))"
    by code_simp
  show "intersectionQuorum sampleNet \<le> int (sqCommits (fst (sampleRun 1)) (bstr (sqDigest (fst (sampleRun 1)))))"
    by code_simp
qed simp

text \<open>C17. The methods of a sequence never panic and never loop when used as intended: on a well-formed
  log, with the sequence's requests in the store, an event is processed unless it allocates a
  sequence twice, satisfies a request the sequence does not wait for, or names an unknown request;
  the log stays well-formed.\<close>

theorem seqApply_total:
  assumes wal: "wal_inv p" and reqs: "\<forall>r\<in>set (sqClientRequests s). h r \<noteq> None"
    and ev: "case ev of
        EvAllocate _ _ \<Rightarrow> sqState s = sequenceUninitialized
      | EvAllocateAsOwner rs \<Rightarrow> sqState s = sequenceUninitialized \<and> list_all (\<lambda>r. h r \<noteq> None) rs
      | EvSatisfy ack \<Rightarrow> bstr (ackDigest ack) \<in> set (sqOutstanding s)
      | _ \<Rightarrow> True"
  shows "\<exists>s' p' acts. seqApply h ev s p = Some (s', p', acts) \<and> wal_inv p'"
proof -
  note total = advanceState_total [OF wal, of _ h]
  have alloc: "\<exists>s' p' acts. allocate h acks outst t p = Some (s', p', acts) \<and> wal_inv p'"
    if "sqState t = sequenceUninitialized" "\<forall>r\<in>set (sqClientRequests t). h r \<noteq> None" for acks outst t
    using that total [of "countPrepare (sqOwner t) None (t\<lparr>sqBatch := [], sqOutstanding := outst,
        sqState := sequenceReady, sqDigest := None\<rparr>)"]
      total [of "t\<lparr>sqBatch := acks, sqOutstanding := outst, sqState := sequencePendingRequests\<rparr>"]
    by (cases "acks = []") (auto simp: allocate_def Let_def applyBatchHashResult_def applyPrepareMsg_eq countPrepare_def)
  have those: "list_all (\<lambda>r. h r \<noteq> None) rs \<Longrightarrow> \<exists>acks. those (map (\<lambda>r. map_option creqAck (h r)) rs) = Some acks" for rs
    by (induction rs) auto
  show ?thesis
  proof (cases ev)
    case (EvAllocateAsOwner rs)
    then show ?thesis
      using ev those [of rs] alloc [of "s\<lparr>sqClientRequests := rs\<rparr>"]
      by (auto simp: allocateAsOwner_def list_all_iff)
  qed (use ev alloc [of s] reqs total wal in \<open>auto simp: satisfyOutstanding_def applyBatchHashResult_def
        applyPrepareMsg_eq applyCommitMsg_eq countPrepare_def countCommit_def\<close>)
qed

theorem seqApply_total_witness:
  "\<exists>s' p' acts. seqApply sampleStore (EvAllocateAsOwner [7]) (sampleSeq 0) sampleLog = Some (s', p', acts) \<and> wal_inv p'"
  by (rule seqApply_total) (simp_all add: sampleSeq_def newSequence_def sampleStore_def)

section \<open>Votes of the owner\<close>

text \<open>The leader counts its own vote twice: hashing its batch counts as its prepare, and so does the
  preprepare it then receives from itself. In a network of four nodes, where a prepare quorum is
  three, the leader is prepared and sends its commit after hearing of a single other node.\<close>

theorem leader_prepare_counted_twice:
  "case seqExec sampleStore
      [EvAllocateAsOwner [7], EvHash sampleDigest, EvPrepare 0 sampleDigest, EvPrepare 1 sampleDigest]
      (newSequence 0 3 1 sampleNet (sampleParams 0)) sampleLog of
     None \<Rightarrow> False
   | Some (s, p, acts) \<Rightarrow>
       sqState s = sequencePrepared \<and> Msg_Commit 1 3 sampleDigest \<in> set (map snd (sends_of acts)) \<and>
       intersectionQuorum (sqNetworkConfig s) = 3"
  by code_simp

text \<open>A faulty owner can have its commit counted twice: when its commit arrives before the hash of its
  batch, counting the batch as its prepare forgets the commit. In a network of four nodes, where a
  commit quorum is three, a replica commits after hearing commits of the owner and itself only.\<close>

theorem owner_commit_counted_twice:
  "case seqExec sampleStore
      [EvAllocate [sampleAck] [], EvCommit 0 sampleDigest, EvHash sampleDigest, EvPrepare 1 sampleDigest,
       EvPrepare 2 sampleDigest, EvCommit 0 sampleDigest, EvCommit 1 sampleDigest]
      (newSequence 0 3 1 sampleNet (sampleParams 1)) sampleLog of
     None \<Rightarrow> False
   | Some (s, p, acts) \<Rightarrow> sqState s = sequenceCommitted \<and> intersectionQuorum (sqNetworkConfig s) = 3"
  by code_simp

end
