(* ===== verification/Mir_CommitState.thy ===== *)
theory Mir_CommitState
  imports Mir_Persisted
begin

unbundle bit_operations_syntax

text \<open>
  \<open>pkg/statemachine/commitstate.go\<close>: the sequences committed since the last checkpoint, in two halves
  of one checkpoint interval each, the clients' committed requests, and the checkpoints requested of
  the application. A pointer to a sequence number in \<open>committedSinceLastCheckpoint\<close> is the number, nil
  is \<open>None\<close>. The clients are reached only through the map \<open>committingClients\<close>, so the map holds them as
  values and the operations return the changed map.
\<close>

section \<open>Clients\<close>

record committingClient =
  ccLastState :: ClientState
  ccCommitted :: "u64 option list"

definition newCommittingClient :: "u64 \<Rightarrow> ClientState \<Rightarrow> committingClient option" where
  [go_defs]: "newCommittingClient seqNo clientState =
     do {
       let mask = bstr (clCommittedMask clientState);
       committed \<leftarrow> ofold
         (\<lambda>i committed. do {
            b \<leftarrow> isBitSet mask (int i);
            if \<not> b then Some committed else slice_set committed (int i) (Some seqNo)
          })
         [0..<nat (bits mask)] (replicate (unat (clWidth clientState)) None);
       Some \<lparr>ccLastState = clientState, ccCommitted = committed\<rparr>
     }"

definition markCommitted :: "u64 \<Rightarrow> u64 \<Rightarrow> committingClient \<Rightarrow> committingClient option" where
  [go_defs]: "markCommitted seqNo reqNo cc =
     do {
       let offset = reqNo - clLowWatermark (ccLastState cc);
       committed \<leftarrow> slice_set (ccCommitted cc) (uint offset) (Some seqNo);
       Some (cc\<lparr>ccCommitted := committed\<rparr>)
     }"

text \<open>The loop that finds \<open>firstUncommitted\<close> and \<open>lastCommitted\<close>.\<close>

fun scanCommitted :: "u64 \<Rightarrow> u64 option list \<Rightarrow> u64 option \<times> u64 option \<Rightarrow> u64 option \<times> u64 option" where
  "scanCommitted reqNo [] (firstUncommitted, lastCommitted) = (firstUncommitted, lastCommitted)"
| "scanCommitted reqNo (c # cs) (firstUncommitted, lastCommitted) =
     (if c \<noteq> None then scanCommitted (reqNo + 1) cs (firstUncommitted, Some reqNo)
      else if firstUncommitted = None then scanCommitted (reqNo + 1) cs (Some reqNo, lastCommitted)
      else scanCommitted (reqNo + 1) cs (firstUncommitted, lastCommitted))"

text \<open>The mask over the requests from the first uncommitted to the last committed one.\<close>

definition checkpointMask :: "u64 option list \<Rightarrow> int \<Rightarrow> byte list option" where
  [go_defs]: "checkpointMask committed n =
     ofold
       (\<lambda>i mask. do {
          c \<leftarrow> slice_get committed (int i);
          case c of
            None \<Rightarrow> Some mask
          | Some _ \<Rightarrow> do { assert (i \<noteq> 0); setBit mask (int i) }
        })
       [0..<nat (n + 1)] (replicate (nat (n sdiv 8 + 1)) 0)"

definition createCheckpointState :: "committingClient \<Rightarrow> (ClientState \<times> committingClient) option" where
  [go_defs]: "createCheckpointState cc =
     (let last = ccLastState cc;
          (firstUncommitted, lastCommitted) = scanCommitted (clLowWatermark last) (ccCommitted cc) (None, None)
      in case lastCommitted of
           None \<Rightarrow>
             let newState = \<lparr>clId = clId last, clWidth = clWidth last, clWidthConsumed = 0,
                             clLowWatermark = clLowWatermark last, clCommittedMask = None\<rparr>
             in Some (newState, cc\<lparr>ccLastState := newState\<rparr>)
         | Some lastC \<Rightarrow>
             (case firstUncommitted of
                None \<Rightarrow>
                  do {
                    let highWatermark = clLowWatermark last + ucast (clWidth last) - ucast (clWidthConsumed last) - 1;
                    assert (lastC = highWatermark);
                    let newState = \<lparr>clId = clId last, clWidth = clWidth last, clWidthConsumed = clWidth last,
                                    clLowWatermark = lastC + 1, clCommittedMask = None\<rparr>;
                    Some (newState, cc\<lparr>ccLastState := newState, ccCommitted := []\<rparr>)
                  }
              | Some firstU \<Rightarrow>
                  do {
                    let widthConsumed = sint (firstU - clLowWatermark last);
                    assert (0 \<le> widthConsumed \<and> widthConsumed \<le> int (length (ccCommitted cc)));
                    let committed = drop (nat widthConsumed) (ccCommitted cc);
                    assert (widthConsumed \<le> uint (clWidth last));
                    let committed = committed @ replicate (nat (uint (clWidth last) - widthConsumed)) None;
                    mask \<leftarrow> (if lastC \<noteq> firstU
                             then map_option Some (checkpointMask committed (sint (lastC - firstU)))
                             else Some None);
                    let newState = \<lparr>clId = clId last, clWidth = clWidth last,
                                    clWidthConsumed = word_of_int widthConsumed,
                                    clLowWatermark = firstU, clCommittedMask = mask\<rparr>;
                    Some (newState, cc\<lparr>ccLastState := newState, ccCommitted := committed\<rparr>)
                  }))"

section \<open>The commit state\<close>

record commitState =
  csCommittingClients :: "u64 \<rightharpoonup> committingClient"
  csLowWatermark :: u64
  csLastAppliedCommit :: u64
  csHighestCommit :: u64
  csStopAtSeqNo :: u64
  csActiveState :: "NetworkState option"
  csLowerHalfCommits :: "QEntry option list"
  csUpperHalfCommits :: "QEntry option list"
  csCheckpointPending :: bool
  csTransferring :: bool

definition newCommitState :: commitState where
  [go_defs]: "newCommitState = \<lparr>csCommittingClients = Map.empty, csLowWatermark = 0, csLastAppliedCommit = 0,
     csHighestCommit = 0, csStopAtSeqNo = 0, csActiveState = None, csLowerHalfCommits = [],
     csUpperHalfCommits = [], csCheckpointPending = False, csTransferring = False\<rparr>"

definition checkpointInterval :: "NetworkConfig \<Rightarrow> u64" where
  [go_defs]: "checkpointInterval nc = scast (ncCheckpointInterval nc)"

text \<open>\<open>make([]*msgs.QEntry, ci)\<close> panics when the interval is negative, hence converted to a huge length.\<close>

definition makeHalf :: "u64 \<Rightarrow> QEntry option list option" where
  [go_defs]: "makeHalf ci = (if ci < 2 ^ 63 then Some (replicate (unat ci) None) else None)"

text \<open>The closure variables \<open>lastCEntry\<close>, \<open>secondToLastCEntry\<close> and \<open>lastTEntry\<close> of \<open>reinitialize\<close>.\<close>

type_synonym lastEntries = "CEntry option \<times> CEntry option \<times> TEntry option"

definition lastEntriesIterator :: "lastEntries logIterator" where
  [go_defs]: "lastEntriesIterator = noCallbacks\<lparr>
     onCEntry := \<lambda>cEntry (lastC, _, lastT). Some (Some cEntry, lastC, lastT),
     onTEntry := \<lambda>tEntry (lastC, secondC, _). Some (lastC, secondC, Some tEntry)\<rparr>"

definition cs_reinitialize :: "persisted \<Rightarrow> commitState \<Rightarrow> (commitState \<times> ActionList) option" where
  [go_defs]: "cs_reinitialize p cs =
     do {
       (lastC, secondC, lastT) \<leftarrow> iterate lastEntriesIterator p (None, None, None);
       lastCEntry \<leftarrow> lastC;
       let base = (case secondC of
                     None \<Rightarrow> lastCEntry
                   | Some c \<Rightarrow> if length (nsPending (ceNetworkState c)) = 0 then lastCEntry else c);
       let active = ceNetworkState base;
       let ci = checkpointInterval (nsConfig active);
       let stopAt = (if length (nsPending active) = 0 then ceSeqNo lastCEntry + 2 * ci else ceSeqNo lastCEntry + ci);
       lower \<leftarrow> makeHalf ci;
       upper \<leftarrow> makeHalf ci;
       clients \<leftarrow> ofold
         (\<lambda>clientState clients. do {
            cc \<leftarrow> newCommittingClient (ceSeqNo lastCEntry) clientState;
            Some (clients(clId clientState \<mapsto> cc))
          })
         (nsClients (ceNetworkState lastCEntry)) Map.empty;
       let cs = cs\<lparr>csActiveState := Some active, csLowWatermark := ceSeqNo base, csStopAtSeqNo := stopAt,
                   csLastAppliedCommit := ceSeqNo lastCEntry, csHighestCommit := ceSeqNo lastCEntry,
                   csLowerHalfCommits := lower, csUpperHalfCommits := upper, csCommittingClients := clients\<rparr>;
       case lastT of
         None \<Rightarrow> Some (cs\<lparr>csTransferring := False\<rparr>, [])
       | Some tEntry \<Rightarrow>
           if ceSeqNo lastCEntry \<ge> teSeqNo tEntry then Some (cs\<lparr>csTransferring := False\<rparr>, [])
           else Some (cs\<lparr>csTransferring := True\<rparr>, ActionList_StateTransfer [] (teSeqNo tEntry) (teValue tEntry))
     }"

definition transferTo ::
  "u64 \<Rightarrow> bytes \<Rightarrow> commitState \<Rightarrow> persisted \<Rightarrow> (commitState \<times> persisted \<times> ActionList) option" where
  [go_defs]: "transferTo seqNo v cs p =
     do {
       assert (\<not> csTransferring cs);
       (p, actions) \<leftarrow> addTEntry \<lparr>teSeqNo = seqNo, teValue = v\<rparr> p;
       Some (cs\<lparr>csTransferring := True\<rparr>, p, ActionList_StateTransfer actions seqNo v)
     }"

text \<open>The epoch configuration \<open>applyCheckpointResult\<close> is passed is not used by it.\<close>

definition cs_applyCheckpointResult ::
  "EpochConfig option \<Rightarrow> CheckpointResult \<Rightarrow> commitState \<Rightarrow> persisted \<Rightarrow> (commitState \<times> persisted \<times> ActionList) option" where
  [go_defs]: "cs_applyCheckpointResult epochConfig result cs p =
     do {
       active \<leftarrow> csActiveState cs;
       let ci = checkpointInterval (nsConfig active);
       if csTransferring cs then Some (cs, p, [])
       else if crSeqNo result \<noteq> csLowWatermark cs + ci then None
       else do {
         let stopAt = (if length (nsPending (crNetworkState result)) = 0 then crSeqNo result + 2 * ci
                       else csStopAtSeqNo cs);
         upper \<leftarrow> makeHalf ci;
         let cs = cs\<lparr>csStopAtSeqNo := stopAt, csActiveState := Some (crNetworkState result),
                     csLowerHalfCommits := csUpperHalfCommits cs, csUpperHalfCommits := upper,
                     csLowWatermark := crSeqNo result, csCheckpointPending := False\<rparr>;
         (p, actions) \<leftarrow> addCEntry \<lparr>ceSeqNo = crSeqNo result, ceCheckpointValue = crValue result,
                                    ceNetworkState = crNetworkState result\<rparr> p;
         Some (cs, p, ActionList_Send actions (ncNodes (nsConfig (crNetworkState result)))
                        (Msg_Checkpoint \<lparr>cpSeqNo = crSeqNo result, cpValue = crValue result\<rparr>))
       }
     }"

definition commit :: "QEntry \<Rightarrow> commitState \<Rightarrow> commitState option" where
  [go_defs]: "commit qEntry cs =
     do {
       assert (\<not> csTransferring cs);
       assert (csStopAtSeqNo cs \<ge> qeSeqNo qEntry);
       if qeSeqNo qEntry \<le> csLowWatermark cs then Some cs
       else do {
         cs \<leftarrow> (if csHighestCommit cs < qeSeqNo qEntry
               then do {
                 assert (csHighestCommit cs + 1 = qeSeqNo qEntry);
                 Some (cs\<lparr>csHighestCommit := qeSeqNo qEntry\<rparr>)
               }
               else Some cs);
         active \<leftarrow> csActiveState cs;
         let ci = checkpointInterval (nsConfig active);
         let upper = (qeSeqNo qEntry - csLowWatermark cs > ci);
         assert (ci \<noteq> 0);
         let offset = sint ((qeSeqNo qEntry - (csLowWatermark cs + 1)) mod ci);
         let commits = (if upper then csUpperHalfCommits cs else csLowerHalfCommits cs);
         old \<leftarrow> slice_get commits offset;
         case old of
           Some o' \<Rightarrow> do { assert (bytes_equal (qeDigest o') (qeDigest qEntry)); Some cs }
         | None \<Rightarrow> do {
             commits \<leftarrow> slice_set commits offset (Some qEntry);
             Some (if upper then cs\<lparr>csUpperHalfCommits := commits\<rparr> else cs\<lparr>csLowerHalfCommits := commits\<rparr>)
           }
       }
     }"

fun applyReconfig :: "Reconfiguration \<Rightarrow> NetworkConfig \<times> ClientState list \<Rightarrow> (NetworkConfig \<times> ClientState list) option" where
  "applyReconfig (NewClient cid width) (nc, clients) =
     Some (nc, clients @ [\<lparr>clId = cid, clWidth = width, clWidthConsumed = 0, clLowWatermark = 0, clCommittedMask = None\<rparr>])"
| "applyReconfig (RemoveClient cid) (nc, clients) =
     (case dropWhile (\<lambda>c. clId c \<noteq> cid) clients of
        [] \<Rightarrow> None
      | _ # rest \<Rightarrow> Some (nc, takeWhile (\<lambda>c. clId c \<noteq> cid) clients @ rest))"
| "applyReconfig (NewConfig nc') (nc, clients) = Some (nc', clients)"

fun nextClientStates ::
  "ClientState list \<Rightarrow> (u64 \<rightharpoonup> committingClient) \<Rightarrow> (ClientState list \<times> (u64 \<rightharpoonup> committingClient)) option" where
  "nextClientStates [] ccs = Some ([], ccs)"
| "nextClientStates (c # cs) ccs =
     do {
       cc \<leftarrow> ccs (clId c);
       (st, cc) \<leftarrow> createCheckpointState cc;
       (sts, ccs) \<leftarrow> nextClientStates cs (ccs(clId c \<mapsto> cc));
       Some (st # sts, ccs)
     }"

definition nextNetworkConfig ::
  "NetworkState \<Rightarrow> (u64 \<rightharpoonup> committingClient) \<Rightarrow> (NetworkConfig \<times> ClientState list \<times> (u64 \<rightharpoonup> committingClient)) option" where
  [go_defs]: "nextNetworkConfig startingState ccs =
     do {
       (nextClients, ccs) \<leftarrow> nextClientStates (nsClients startingState) ccs;
       (nextConfig, nextClients) \<leftarrow> ofold applyReconfig (nsPending startingState) (nsConfig startingState, nextClients);
       Some (nextConfig, nextClients, ccs)
     }"

definition markRequests :: "QEntry \<Rightarrow> (u64 \<rightharpoonup> committingClient) \<Rightarrow> (u64 \<rightharpoonup> committingClient) option" where
  [go_defs]: "markRequests q ccs =
     ofold (\<lambda>req ccs. do {
              cc \<leftarrow> ccs (ackClientId req);
              cc \<leftarrow> markCommitted (qeSeqNo q) (ackReqNo req) cc;
              Some (ccs(ackClientId req \<mapsto> cc))
            }) (qeRequests q) ccs"

text \<open>The request for a checkpoint at the top of the loop body of \<open>drain\<close>.\<close>

definition drainCheckpoint :: "u64 \<Rightarrow> commitState \<Rightarrow> (commitState \<times> ActionList) option" where
  [go_defs]: "drainCheckpoint ci cs =
     (if csLastAppliedCommit cs = csLowWatermark cs + ci \<and> \<not> csCheckpointPending cs
      then do {
        active \<leftarrow> csActiveState cs;
        (networkConfig, clientConfigs, ccs) \<leftarrow> nextNetworkConfig active (csCommittingClients cs);
        Some (cs\<lparr>csCheckpointPending := True, csCommittingClients := ccs\<rparr>,
              ActionList_Checkpoint [] (csLastAppliedCommit cs) networkConfig clientConfigs)
      }
      else Some (cs, []))"

text \<open>The rest of the body: the next committed sequence, or \<open>None\<close> inside when there is none yet.\<close>

definition drainCommit :: "u64 \<Rightarrow> commitState \<Rightarrow> (commitState \<times> QEntry) option option" where
  [go_defs]: "drainCommit ci cs =
     do {
       let nextCommit = csLastAppliedCommit cs + 1;
       let upper = (nextCommit - csLowWatermark cs > ci);
       assert (ci \<noteq> 0);
       let offset = sint ((nextCommit - (csLowWatermark cs + 1)) mod ci);
       q \<leftarrow> slice_get (if upper then csUpperHalfCommits cs else csLowerHalfCommits cs) offset;
       case q of
         None \<Rightarrow> Some None
       | Some q \<Rightarrow> do {
           assert (qeSeqNo q = nextCommit);
           ccs \<leftarrow> markRequests q (csCommittingClients cs);
           Some (Some (cs\<lparr>csCommittingClients := ccs, csLastAppliedCommit := nextCommit\<rparr>, q))
         }
     }"

lemma drainCheckpoint_shape:
  assumes "drainCheckpoint ci cs = Some (cs', acts)"
  shows "\<exists>pending ccs. cs' = cs\<lparr>csCheckpointPending := pending, csCommittingClients := ccs\<rparr>"
proof (cases "csLastAppliedCommit cs = csLowWatermark cs + ci \<and> \<not> csCheckpointPending cs")
  case True
  then show ?thesis using assms by (auto simp: drainCheckpoint_def bind_eq_Some_conv)
next
  case False
  then have "cs' = cs" using assms by (auto simp: drainCheckpoint_def)
  then show ?thesis by (intro exI [of _ "csCheckpointPending cs"] exI [of _ "csCommittingClients cs"]) simp
qed

lemma drainCheckpoint_frame:
  assumes "drainCheckpoint ci cs = Some (cs', acts)"
  shows "csLastAppliedCommit cs' = csLastAppliedCommit cs" "csLowWatermark cs' = csLowWatermark cs"
    "csLowerHalfCommits cs' = csLowerHalfCommits cs" "csUpperHalfCommits cs' = csUpperHalfCommits cs"
    "csActiveState cs' = csActiveState cs" "csHighestCommit cs' = csHighestCommit cs"
    "csStopAtSeqNo cs' = csStopAtSeqNo cs" "csTransferring cs' = csTransferring cs"
  using drainCheckpoint_shape [OF assms] by auto

lemma drainCommit_shape:
  assumes "drainCommit ci cs = Some (Some (cs', q))"
  shows "\<exists>ccs. cs' = cs\<lparr>csCommittingClients := ccs, csLastAppliedCommit := csLastAppliedCommit cs + 1\<rparr> \<and>
    qeSeqNo q = csLastAppliedCommit cs + 1"
  using assms by (simp add: drainCommit_def Let_def bind_eq_Some_conv split: option.splits) auto

lemma drainCommit_frame:
  assumes "drainCommit ci cs = Some (Some (cs', q))"
  shows "csLastAppliedCommit cs' = csLastAppliedCommit cs + 1" "csLowWatermark cs' = csLowWatermark cs"
    "csLowerHalfCommits cs' = csLowerHalfCommits cs" "csUpperHalfCommits cs' = csUpperHalfCommits cs"
    "csActiveState cs' = csActiveState cs" "csCheckpointPending cs' = csCheckpointPending cs"
    "csHighestCommit cs' = csHighestCommit cs" "csStopAtSeqNo cs' = csStopAtSeqNo cs"
    "csTransferring cs' = csTransferring cs" "qeSeqNo q = csLastAppliedCommit cs + 1"
  using drainCommit_shape [OF assms] by auto

function drainLoop :: "u64 \<Rightarrow> commitState \<Rightarrow> (commitState \<times> ActionList) option" where
  "drainLoop ci cs =
     (if csLastAppliedCommit cs < csLowWatermark cs + 2 * ci
      then (case drainCheckpoint ci cs of
              None \<Rightarrow> None
            | Some (cs1, actions) \<Rightarrow>
                (case drainCommit ci cs1 of
                   None \<Rightarrow> None
                 | Some None \<Rightarrow> Some (cs1, actions)
                 | Some (Some (cs2, q)) \<Rightarrow>
                     (case drainLoop ci cs2 of
                        None \<Rightarrow> None
                      | Some (cs3, rest) \<Rightarrow> Some (cs3, ActionList_concat (ActionList_Commit actions q) rest))))
      else Some (cs, []))"
  by pat_completeness auto
termination
proof (relation "measure (\<lambda>(ci, cs). unat (csLowWatermark cs + 2 * ci - csLastAppliedCommit cs))", goal_cases)
  case 1
  then show ?case by simp
next
  case (2 ci cs x cs1 acts y z cs2 q)
  then have "csLastAppliedCommit cs2 = csLastAppliedCommit cs + 1" "csLowWatermark cs2 = csLowWatermark cs"
    using drainCheckpoint_frame drainCommit_frame by fastforce+
  then show ?case using loop_measure [OF 2(1)] by simp
qed

declare drainLoop.simps [simp del]

definition drain :: "commitState \<Rightarrow> (commitState \<times> ActionList) option" where
  [go_defs]: "drain cs = do { active \<leftarrow> csActiveState cs; drainLoop (checkpointInterval (nsConfig active)) cs }"

section \<open>The window of committed sequences\<close>

text \<open>The sequence number of a slot, and the invariant of the two halves.\<close>

definition slotsOk :: "u64 \<Rightarrow> QEntry option list \<Rightarrow> bool" where
  "slotsOk base half \<longleftrightarrow> (\<forall>i < length half. \<forall>q. half ! i = Some q \<longrightarrow> qeSeqNo q = base + 1 + of_nat i)"

definition csInv :: "u64 \<Rightarrow> commitState \<Rightarrow> bool" where
  "csInv ci cs \<longleftrightarrow>
     0 < ci \<and> unat ci < 2 ^ 63 \<and> unat (csLowWatermark cs) + 2 * unat ci < 2 ^ 64 \<and>
     map_option (checkpointInterval \<circ> nsConfig) (csActiveState cs) = Some ci \<and>
     length (csLowerHalfCommits cs) = unat ci \<and> length (csUpperHalfCommits cs) = unat ci \<and>
     slotsOk (csLowWatermark cs) (csLowerHalfCommits cs) \<and>
     slotsOk (csLowWatermark cs + ci) (csUpperHalfCommits cs) \<and>
     csLowWatermark cs \<le> csLastAppliedCommit cs \<and>
     csLastAppliedCommit cs \<le> csLowWatermark cs + 2 * ci \<and>
     csStopAtSeqNo cs \<le> csLowWatermark cs + 2 * ci \<and>
     (csCheckpointPending cs \<longrightarrow> csLowWatermark cs + ci \<le> csLastAppliedCommit cs)"

definition slot :: "u64 \<Rightarrow> commitState \<Rightarrow> u64 \<Rightarrow> QEntry option" where
  "slot ci cs s =
     (let d = unat (s - csLowWatermark cs) in
      if d = 0 \<or> 2 * unat ci < d then None
      else if d \<le> unat ci then csLowerHalfCommits cs ! (d - 1)
      else csUpperHalfCommits cs ! (d - 1 - unat ci))"

lemma unat_pred: "d \<noteq> 0 \<Longrightarrow> unat (d - 1 :: u64) = unat d - 1"
  using unat_diff_le [of 1 d] by (simp add: word_le_nat_alt Suc_le_eq unat_gt_0)

lemma slot_offset:
  assumes "0 < (ci :: u64)" "unat ci < 2 ^ 63" "s \<noteq> lw" "unat (s - lw) \<le> 2 * unat ci"
  shows "sint ((s - (lw + 1)) mod ci) =
    int (if s - lw > ci then unat (s - lw) - 1 - unat ci else unat (s - lw) - 1)"
proof -
  let ?d = "s - lw"
  have d: "?d \<noteq> 0" using assms(3) by simp
  have eq: "s - (lw + 1) = ?d - 1" by simp
  have "0 < unat ci" using assms(1) by (simp add: word_less_nat_alt)
  moreover have "0 < unat ?d" using d by (simp add: unat_gt_0)
  ultimately have m: "unat ((?d - 1) mod ci) = (if unat ci < unat ?d then unat ?d - 1 - unat ci else unat ?d - 1)"
    using assms(4) by (auto simp: unat_mod_distrib unat_pred [OF d] mod_if)
  have "unat ((?d - 1) mod ci) < unat ci"
    using \<open>0 < unat ci\<close> by (simp add: unat_mod_distrib)
  then have "unat ((?d - 1) mod ci) < 2 ^ 63" using assms(2) by linarith
  then have "sint ((?d - 1) mod ci) = int (unat ((?d - 1) mod ci))"
    using sint_small [of "(?d - 1) mod ci"] by simp
  then show ?thesis unfolding eq m word_less_nat_alt .
qed

lemma csInv_window:
  assumes "csInv ci cs"
  shows "unat (csLowWatermark cs + 2 * ci) = unat (csLowWatermark cs) + 2 * unat ci"
    "unat (csLowWatermark cs + ci) = unat (csLowWatermark cs) + unat ci" "0 < unat ci"
proof -
  have *: "unat (csLowWatermark cs) + 2 * unat ci < 2 ^ 64" using assms by (simp add: csInv_def)
  then have "unat (2 * ci) = 2 * unat ci" by (simp add: unat_word_ariths)
  then show "unat (csLowWatermark cs + 2 * ci) = unat (csLowWatermark cs) + 2 * unat ci"
    using * by (simp add: unat_add_no_wrap)
  show "unat (csLowWatermark cs + ci) = unat (csLowWatermark cs) + unat ci"
    using * by (simp add: unat_add_no_wrap)
  show "0 < unat ci" using assms by (simp add: csInv_def word_less_nat_alt)
qed

lemma slotsOk_nth: "slotsOk base half \<Longrightarrow> i < length half \<Longrightarrow> half ! i = Some q \<Longrightarrow> qeSeqNo q = base + 1 + of_nat i"
  by (auto simp: slotsOk_def)

lemma slot_seqNo:
  assumes inv: "csInv ci cs" and slot: "slot ci cs s = Some q"
  shows "qeSeqNo q = s"
proof -
  define d where "d = unat (s - csLowWatermark cs)"
  have s: "s = csLowWatermark cs + of_nat d" by (simp add: d_def)
  have d: "0 < d" "d \<le> 2 * unat ci" using slot by (auto simp: slot_def d_def Let_def split: if_splits)
  show ?thesis
  proof (cases "d \<le> unat ci")
    case True
    then have "qeSeqNo q = csLowWatermark cs + 1 + of_nat (d - 1)"
      using inv slot d by (intro slotsOk_nth) (auto simp: csInv_def slot_def d_def [symmetric])
    then show ?thesis using d(1) s by (simp add: of_nat_diff)
  next
    case False
    then have "qeSeqNo q = csLowWatermark cs + ci + 1 + of_nat (d - 1 - unat ci)"
      using inv slot d by (intro slotsOk_nth) (auto simp: csInv_def slot_def d_def [symmetric])
    moreover have "(of_nat (d - 1 - unat ci) :: u64) = of_nat d - 1 - ci"
      using False by (simp add: of_nat_diff)
    ultimately show ?thesis using s by simp
  qed
qed

lemma slot_get:
  assumes inv: "csInv ci cs" and "s \<noteq> csLowWatermark cs" "unat (s - csLowWatermark cs) \<le> 2 * unat ci"
  shows "slice_get (if s - csLowWatermark cs > ci then csUpperHalfCommits cs else csLowerHalfCommits cs)
      (sint ((s - (csLowWatermark cs + 1)) mod ci)) = Some (slot ci cs s)"
proof -
  have ci: "0 < ci" "unat ci < 2 ^ 63" and len: "length (csLowerHalfCommits cs) = unat ci"
      "length (csUpperHalfCommits cs) = unat ci"
    using inv by (simp_all add: csInv_def)
  have "0 < unat (s - csLowWatermark cs)" using assms(2) by (simp add: unat_gt_0)
  then show ?thesis
    unfolding slot_offset [OF ci assms(2,3)] slice_get_nat
    using assms(3) by (auto simp: slot_def len word_less_nat_alt Let_def)
qed

lemma next_in_window:
  assumes inv: "csInv ci cs" and "csLastAppliedCommit cs < csLowWatermark cs + 2 * ci"
  shows "csLastAppliedCommit cs + 1 \<noteq> csLowWatermark cs"
    "unat (csLastAppliedCommit cs + 1 - csLowWatermark cs) = unat (csLastAppliedCommit cs) + 1 - unat (csLowWatermark cs)"
    "unat (csLastAppliedCommit cs + 1 - csLowWatermark cs) \<le> 2 * unat ci"
    "csLastAppliedCommit cs + 1 \<le> csLowWatermark cs + 2 * ci" "csLowWatermark cs \<le> csLastAppliedCommit cs + 1"
proof -
  let ?la = "csLastAppliedCommit cs" and ?lw = "csLowWatermark cs"
  note u = unat_Suc_less [OF assms(2)] and w = csInv_window [OF inv]
  have le: "unat ?lw \<le> unat ?la" "unat ?la < unat ?lw + 2 * unat ci"
    using inv assms(2) w by (auto simp: csInv_def word_le_nat_alt word_less_nat_alt)
  show lw: "?lw \<le> ?la + 1" using le u by (simp add: word_le_nat_alt)
  show d: "unat (?la + 1 - ?lw) = unat ?la + 1 - unat ?lw" using unat_diff_le [OF lw] u by simp
  show "unat (?la + 1 - ?lw) \<le> 2 * unat ci" using d le by linarith
  show "?la + 1 \<noteq> ?lw" using u le by (metis Suc_n_not_le_n)
  show "?la + 1 \<le> ?lw + 2 * ci" by (rule word_less_Suc_le [OF assms(2)])
qed

lemma drainCommit_slot:
  assumes inv: "csInv ci cs" and "csLastAppliedCommit cs < csLowWatermark cs + 2 * ci"
  shows "drainCommit ci cs =
    (case slot ci cs (csLastAppliedCommit cs + 1) of
       None \<Rightarrow> Some None
     | Some q \<Rightarrow> map_option (\<lambda>ccs. Some (cs\<lparr>csCommittingClients := ccs,
         csLastAppliedCommit := csLastAppliedCommit cs + 1\<rparr>, q)) (markRequests q (csCommittingClients cs)))"
proof -
  note nxt = next_in_window [OF assms]
  have "ci \<noteq> 0" using inv by (auto simp: csInv_def)
  moreover note slot_get [OF inv nxt(1,3)]
  moreover have "qeSeqNo q = csLastAppliedCommit cs + 1" if "slot ci cs (csLastAppliedCommit cs + 1) = Some q" for q
    by (rule slot_seqNo [OF inv that])
  ultimately show ?thesis
    by (cases "slot ci cs (csLastAppliedCommit cs + 1)")
      (auto simp: drainCommit_def Let_def map_option_case split: option.splits)
qed

section \<open>Draining\<close>

lemma drainCheckpoint_actions:
  assumes "drainCheckpoint ci cs = Some (cs', acts)"
  shows "commits_of acts = []"
    "checkpoints_of acts =
      (if csLastAppliedCommit cs = csLowWatermark cs + ci \<and> \<not> csCheckpointPending cs then [csLowWatermark cs + ci] else [])"
    "csCheckpointPending cs' \<longleftrightarrow> csCheckpointPending cs \<or> csLastAppliedCommit cs = csLowWatermark cs + ci"
  using assms by (auto simp: drainCheckpoint_def bind_eq_Some_conv split: if_splits)

lemma slot_cong:
  assumes "csLowWatermark cs' = csLowWatermark cs" "csLowerHalfCommits cs' = csLowerHalfCommits cs"
    "csUpperHalfCommits cs' = csUpperHalfCommits cs"
  shows "slot ci cs' = slot ci cs"
  using assms by (simp add: slot_def Let_def fun_eq_iff)

text \<open>What a run of the loop amounts to: it hands out the committed sequences after the last applied one,
  as far as they go without a gap, and one checkpoint request if it passes the middle of the window.\<close>

definition drained :: "u64 \<Rightarrow> commitState \<Rightarrow> commitState \<Rightarrow> ActionList \<Rightarrow> bool" where
  "drained ci cs cs' acts \<longleftrightarrow>
     csLowWatermark cs' = csLowWatermark cs \<and> csLowerHalfCommits cs' = csLowerHalfCommits cs \<and>
     csUpperHalfCommits cs' = csUpperHalfCommits cs \<and> csActiveState cs' = csActiveState cs \<and>
     csHighestCommit cs' = csHighestCommit cs \<and> csStopAtSeqNo cs' = csStopAtSeqNo cs \<and>
     csTransferring cs' = csTransferring cs \<and>
     csLastAppliedCommit cs \<le> csLastAppliedCommit cs' \<and>
     csLastAppliedCommit cs' \<le> csLowWatermark cs + 2 * ci \<and>
     map Some (commits_of acts) = map (\<lambda>i. slot ci cs (csLastAppliedCommit cs + of_nat (Suc i)))
       [0..<unat (csLastAppliedCommit cs') - unat (csLastAppliedCommit cs)] \<and>
     (csLastAppliedCommit cs' = csLowWatermark cs + 2 * ci \<or> slot ci cs (csLastAppliedCommit cs' + 1) = None) \<and>
     checkpoints_of acts =
       (if \<not> csCheckpointPending cs \<and> csLastAppliedCommit cs \<le> csLowWatermark cs + ci \<and>
           csLowWatermark cs + ci \<le> csLastAppliedCommit cs' then [csLowWatermark cs + ci] else []) \<and>
     (csCheckpointPending cs' \<longleftrightarrow> csCheckpointPending cs \<or> checkpoints_of acts \<noteq> [])"

lemma csInv_cong:
  assumes "csInv ci cs" "csLowWatermark cs' = csLowWatermark cs" "csLowerHalfCommits cs' = csLowerHalfCommits cs"
    "csUpperHalfCommits cs' = csUpperHalfCommits cs" "csActiveState cs' = csActiveState cs"
    "csLowWatermark cs \<le> csLastAppliedCommit cs'" "csLastAppliedCommit cs' \<le> csLowWatermark cs + 2 * ci"
    "csStopAtSeqNo cs' = csStopAtSeqNo cs"
    "csCheckpointPending cs' \<longrightarrow> csLowWatermark cs + ci \<le> csLastAppliedCommit cs'"
  shows "csInv ci cs'"
  using assms by (simp add: csInv_def)

lemma drained_stop:
  assumes inv: "csInv ci cs" and "csLastAppliedCommit cs < csLowWatermark cs + 2 * ci"
    and cp: "drainCheckpoint ci cs = Some (cs1, acts)" and "slot ci cs (csLastAppliedCommit cs + 1) = None"
  shows "drained ci cs cs1 acts"
  using assms(2,4) drainCheckpoint_frame [OF cp] drainCheckpoint_actions [OF cp] inv
  by (auto simp: drained_def csInv_def)

lemma drained_step:
  assumes inv: "csInv ci cs" and la: "csLastAppliedCommit cs < csLowWatermark cs + 2 * ci"
    and cp: "drainCheckpoint ci cs = Some (cs1, acts)" and cm: "drainCommit ci cs1 = Some (Some (cs2, q))"
    and slot: "slot ci cs (csLastAppliedCommit cs + 1) = Some q" and rest: "drained ci cs2 cs3 acts'"
  shows "drained ci cs cs3 (acts @ Action_Commit q # acts')"
proof -
  let ?la = "csLastAppliedCommit cs" and ?la3 = "csLastAppliedCommit cs3" and ?m = "csLowWatermark cs + ci"
  note f1 = drainCheckpoint_frame [OF cp] and f2 = drainCommit_frame [OF cm] and a1 = drainCheckpoint_actions [OF cp]
  have sl: "slot ci cs2 = slot ci cs" by (rule slot_cong) (simp_all add: f1 f2)
  have la2: "csLastAppliedCommit cs2 = ?la + 1" and u: "unat (?la + 1) = Suc (unat ?la)"
    using f1 f2 unat_Suc_less [OF la] by simp_all
  have le: "?la + 1 \<le> ?la3" using rest la2 by (simp add: drained_def)
  then have n: "unat ?la3 - unat ?la = Suc (unat ?la3 - unat (?la + 1))"
    using u by (simp add: word_le_nat_alt)
  have commits: "map Some (commits_of (acts @ Action_Commit q # acts')) =
      map (\<lambda>i. slot ci cs (?la + of_nat (Suc i))) [0..<unat ?la3 - unat ?la]"
    using rest slot unfolding n map_upt_Suc
    by (simp add: drained_def sl la2 a1(1) add.assoc)
  have mid: "(?la \<le> ?m \<and> ?m \<le> ?la3) \<longleftrightarrow> ?la = ?m \<or> (?la + 1 \<le> ?m \<and> ?m \<le> ?la3)"
    using le u by (auto simp: word_le_nat_alt word_unat_eq_iff)
  have "?la \<le> ?la3" using le u by (simp add: word_le_nat_alt)
  moreover have "\<not> ?la + 1 \<le> ?m" if "?la = ?m" using that u by (simp add: word_le_nat_alt)
  ultimately show ?thesis
    using rest commits a1 mid unfolding drained_def sl by (auto simp: la2 f1 f2)
qed

lemma drainLoop_drained:
  assumes "csInv ci cs" and "drainLoop ci cs = Some (cs', acts)"
  shows "drained ci cs cs' acts \<and> csInv ci cs'"
  using assms
proof (induction ci cs arbitrary: acts rule: drainLoop.induct)
  case (1 ci cs)
  show ?case
  proof (cases "csLastAppliedCommit cs < csLowWatermark cs + 2 * ci")
    case False
    then have "cs' = cs" "acts = []" "csLastAppliedCommit cs = csLowWatermark cs + 2 * ci"
      using 1(2,3) by (simp_all add: drainLoop.simps [of ci cs] csInv_def)
    moreover from this 1(2) have "\<not> csLastAppliedCommit cs \<le> csLowWatermark cs + ci"
      using csInv_window [OF 1(2)] by (simp add: word_le_nat_alt)
    ultimately show ?thesis using 1(2) by (simp add: drained_def)
  next
    case True
    then obtain cs1 a1 where cp: "drainCheckpoint ci cs = Some (cs1, a1)"
      using 1(3) by (auto simp: drainLoop.simps [of ci cs] split: option.splits)
    note f1 = drainCheckpoint_frame [OF cp] and nw = next_in_window [OF 1(2) True]
    have inv1: "csInv ci cs1"
      using 1(2) by (rule csInv_cong) (use 1(2) drainCheckpoint_actions(3) [OF cp] in \<open>auto simp: f1 csInv_def\<close>)
    have sl: "slot ci cs1 = slot ci cs" by (rule slot_cong) (simp_all add: f1)
    have la1: "csLastAppliedCommit cs1 < csLowWatermark cs1 + 2 * ci" using True f1 by simp
    show ?thesis
    proof (cases "slot ci cs (csLastAppliedCommit cs + 1)")
      case None
      then have "drainCommit ci cs1 = Some None" using drainCommit_slot [OF inv1 la1] by (simp add: sl f1)
      then have "cs' = cs1" "acts = a1" using 1(3) cp True by (simp_all add: drainLoop.simps [of ci cs])
      then show ?thesis using drained_stop [OF 1(2) True cp None] inv1 by simp
    next
      case (Some q)
      then obtain cs2 where cm: "drainCommit ci cs1 = Some (Some (cs2, q))"
        using drainCommit_slot [OF inv1 la1] 1(3) True cp
        by (cases "markRequests q (csCommittingClients cs1)") (auto simp: drainLoop.simps [of ci cs] sl f1)
      then obtain a2 where rest: "drainLoop ci cs2 = Some (cs', a2)" and acts: "acts = a1 @ Action_Commit q # a2"
        using 1(3) True cp by (auto simp: drainLoop.simps [of ci cs] split: option.splits)
      have "csInv ci cs2"
        using inv1 by (rule csInv_cong) (use nw inv1 unat_Suc_less [OF True] in
            \<open>auto simp: drainCommit_frame [OF cm] f1 csInv_def word_le_nat_alt\<close>)
      with 1(1) [OF True cp refl cm refl refl _ rest] drained_step [OF 1(2) True cp cm Some] acts
      show ?thesis by simp
    qed
  qed
qed

section \<open>Recording a commit\<close>

definition setSlot :: "u64 \<Rightarrow> u64 \<Rightarrow> QEntry \<Rightarrow> commitState \<Rightarrow> commitState" where
  "setSlot ci s q cs =
     (let d = unat (s - csLowWatermark cs) in
      if d \<le> unat ci then cs\<lparr>csLowerHalfCommits := (csLowerHalfCommits cs)[d - 1 := Some q]\<rparr>
      else cs\<lparr>csUpperHalfCommits := (csUpperHalfCommits cs)[d - 1 - unat ci := Some q]\<rparr>)"

lemma commit_eq:
  assumes inv: "csInv ci cs" and "\<not> csTransferring cs" and "qeSeqNo q \<le> csStopAtSeqNo cs"
    and lw: "csLowWatermark cs < qeSeqNo q"
    and "qeSeqNo q \<le> csHighestCommit cs \<or> qeSeqNo q = csHighestCommit cs + 1"
  shows "commit q cs =
    (let cs' = (if csHighestCommit cs < qeSeqNo q then cs\<lparr>csHighestCommit := qeSeqNo q\<rparr> else cs) in
     case slot ci cs (qeSeqNo q) of
       None \<Rightarrow> Some (setSlot ci (qeSeqNo q) q cs')
     | Some o' \<Rightarrow> if bytes_equal (qeDigest o') (qeDigest q) then Some cs' else None)"
proof -
  let ?s = "qeSeqNo q" and ?lw = "csLowWatermark cs"
  define cs' where "cs' = (if csHighestCommit cs < ?s then cs\<lparr>csHighestCommit := ?s\<rparr> else cs)"
  obtain active where active: "csActiveState cs = Some active" "checkpointInterval (nsConfig active) = ci"
    using inv by (auto simp: csInv_def)
  have ci: "0 < ci" "unat ci < 2 ^ 63" using inv by (simp_all add: csInv_def)
  have ne: "?s \<noteq> ?lw" using lw by auto
  have d: "unat (?s - ?lw) = unat ?s - unat ?lw" using lw by (simp add: unat_diff_le)
  have "unat ?s \<le> unat ?lw + 2 * unat ci"
    using assms(3) inv csInv_window [OF inv] by (simp add: csInv_def word_le_nat_alt)
  then have le: "unat (?s - ?lw) \<le> 2 * unat ci" using d by linarith
  have inv': "csInv ci cs'" using inv by (simp add: cs'_def csInv_def)
  have lw': "csLowWatermark cs' = ?lw" "csActiveState cs' = Some active" by (simp_all add: cs'_def active)
  have sl: "slot ci cs' = slot ci cs" by (rule slot_cong) (simp_all add: cs'_def)
  note get = slot_get [OF inv', unfolded lw', OF ne le, unfolded sl]
  have offset: "sint ((?s - (?lw + 1)) mod ci) =
      int (if ?s - ?lw > ci then unat (?s - ?lw) - 1 - unat ci else unat (?s - ?lw) - 1)"
    by (rule slot_offset [OF ci ne le])
  have set: "slice_set (if ?s - ?lw > ci then csUpperHalfCommits cs' else csLowerHalfCommits cs')
      (sint ((?s - (?lw + 1)) mod ci)) v = Some ((if ?s - ?lw > ci then csUpperHalfCommits cs' else csLowerHalfCommits cs')
        [if ?s - ?lw > ci then unat (?s - ?lw) - 1 - unat ci else unat (?s - ?lw) - 1 := v])" for v
    using get unfolding offset slice_get_nat slice_set_nat by (auto split: if_splits)
  have hi: "(if csHighestCommit cs < ?s
      then do { assert (csHighestCommit cs + 1 = ?s); Some (cs\<lparr>csHighestCommit := ?s\<rparr>) } else Some cs) = Some cs'"
    using assms(5) by (auto simp: cs'_def)
  have "ci \<noteq> 0" "\<not> ?s \<le> ?lw" using ci lw by auto
  then have "commit q cs = do {
      old \<leftarrow> Some (slot ci cs ?s);
      case old of
        Some o' \<Rightarrow> do { assert (bytes_equal (qeDigest o') (qeDigest q)); Some cs' }
      | None \<Rightarrow> do {
          commits \<leftarrow> slice_set (if ?s - ?lw > ci then csUpperHalfCommits cs' else csLowerHalfCommits cs')
            (sint ((?s - (?lw + 1)) mod ci)) (Some q);
          Some (if ?s - ?lw > ci then cs'\<lparr>csUpperHalfCommits := commits\<rparr> else cs'\<lparr>csLowerHalfCommits := commits\<rparr>)
        } }"
    unfolding commit_def hi using assms(2,3) by (simp add: Let_def lw' active(2) get split del: if_split del: bytes_equal_iff)
  also have "\<dots> = (case slot ci cs ?s of
       None \<Rightarrow> Some (setSlot ci ?s q cs')
     | Some o' \<Rightarrow> if bytes_equal (qeDigest o') (qeDigest q) then Some cs' else None)"
    unfolding set by (auto simp: setSlot_def Let_def lw' word_less_nat_alt split: option.splits)
  finally show ?thesis unfolding cs'_def Let_def .
qed

lemma slotsOk_update:
  "slotsOk base half \<Longrightarrow> qeSeqNo q = base + 1 + of_nat i \<Longrightarrow> slotsOk base (half[i := Some q])"
  unfolding slotsOk_def by (metis length_list_update nth_list_update_eq nth_list_update_neq option.inject)

lemma setSlot_inv:
  assumes inv: "csInv ci cs" and s: "qeSeqNo q = s" "s \<noteq> csLowWatermark cs"
  shows "csInv ci (setSlot ci s q cs)"
proof -
  define d where "d = unat (s - csLowWatermark cs)"
  have sd: "s = csLowWatermark cs + of_nat d" by (simp add: d_def)
  have "0 < d" using s(2) by (simp add: d_def unat_gt_0)
  then have "d \<le> unat ci \<Longrightarrow> qeSeqNo q = csLowWatermark cs + 1 + of_nat (d - 1)"
    and "\<not> d \<le> unat ci \<Longrightarrow> qeSeqNo q = csLowWatermark cs + ci + 1 + of_nat (d - 1 - unat ci)"
    unfolding s(1) sd by (simp_all add: of_nat_diff)
  then show ?thesis
    using inv by (auto simp: setSlot_def d_def [symmetric] Let_def csInv_def intro: slotsOk_update)
qed

lemma word_sub_inject: "(x :: u64) - b = y - b \<longleftrightarrow> x = y"
  by simp

lemma setSlot_slot:
  assumes inv: "csInv ci cs" and "s \<noteq> csLowWatermark cs" "unat (s - csLowWatermark cs) \<le> 2 * unat ci"
  shows "slot ci (setSlot ci s q cs) = (slot ci cs)(s := Some q)"
proof
  fix x
  let ?d = "unat (s - csLowWatermark cs)" and ?e = "unat (x - csLowWatermark cs)"
  have len: "length (csLowerHalfCommits cs) = unat ci" "length (csUpperHalfCommits cs) = unat ci"
    using inv by (simp_all add: csInv_def)
  have "0 < ?d" using assms(2) by (simp add: unat_gt_0)
  moreover have "x = s \<longleftrightarrow> ?e = ?d" by (metis word_sub_inject word_unat_eq_iff)
  ultimately show "slot ci (setSlot ci s q cs) x = ((slot ci cs)(s := Some q)) x"
    using assms(3) len
    by (cases "?d \<le> unat ci"; cases "?e = ?d") (auto simp: slot_def setSlot_def Let_def nth_list_update)
qed

definition recorded :: "commitState \<Rightarrow> QEntry set" where
  "recorded cs = {q. Some q \<in> set (csLowerHalfCommits cs) \<union> set (csUpperHalfCommits cs)}"

lemma slot_recorded:
  assumes inv: "csInv ci cs" and slot: "slot ci cs s = Some q"
  shows "q \<in> recorded cs"
proof -
  define d where "d = unat (s - csLowWatermark cs)"
  have d: "0 < d" "d \<le> 2 * unat ci" using slot by (auto simp: slot_def d_def Let_def split: if_splits)
  have len: "length (csLowerHalfCommits cs) = unat ci" "length (csUpperHalfCommits cs) = unat ci"
    using inv by (simp_all add: csInv_def)
  show ?thesis
  proof (cases "d \<le> unat ci")
    case True
    then have "csLowerHalfCommits cs ! (d - 1) = Some q" "d - 1 < length (csLowerHalfCommits cs)"
      using slot d len by (auto simp: slot_def d_def [symmetric])
    then show ?thesis by (metis (mono_tags) UnI1 mem_Collect_eq nth_mem recorded_def)
  next
    case False
    then have "csUpperHalfCommits cs ! (d - 1 - unat ci) = Some q" "d - 1 - unat ci < length (csUpperHalfCommits cs)"
      using slot d len by (auto simp: slot_def d_def [symmetric])
    then show ?thesis by (metis (mono_tags) UnI2 mem_Collect_eq nth_mem recorded_def)
  qed
qed

lemma setSlot_recorded: "recorded (setSlot ci s q cs) \<subseteq> insert q (recorded cs)"
  by (auto simp: setSlot_def recorded_def Let_def dest!: set_update_subset_insert [THEN subsetD])

lemma commit_window:
  assumes "csInv ci cs" and "commit q cs = Some cs'" and "csLowWatermark cs < qeSeqNo q"
  shows "\<not> csTransferring cs" "qeSeqNo q \<le> csStopAtSeqNo cs"
    "qeSeqNo q \<le> csHighestCommit cs \<or> qeSeqNo q = csHighestCommit cs + 1"
  using assms by (auto simp: commit_def bind_eq_Some_conv not_less not_le split: if_splits)

lemma commit_inv:
  assumes inv: "csInv ci cs" and c: "commit q cs = Some cs'"
  shows "csInv ci cs' \<and> recorded cs' \<subseteq> insert q (recorded cs) \<and>
    csLastAppliedCommit cs' = csLastAppliedCommit cs \<and> csLowWatermark cs' = csLowWatermark cs \<and>
    csTransferring cs' = csTransferring cs"
proof (cases "csLowWatermark cs < qeSeqNo q")
  case False
  then have "cs' = cs" using c by (auto simp: commit_def bind_eq_Some_conv not_less split: if_splits)
  then show ?thesis using inv by auto
next
  case True
  define cs1 where "cs1 = (if csHighestCommit cs < qeSeqNo q then cs\<lparr>csHighestCommit := qeSeqNo q\<rparr> else cs)"
  have inv1: "csInv ci cs1" using inv by (simp add: cs1_def csInv_def)
  have f1: "csLastAppliedCommit cs1 = csLastAppliedCommit cs" "csLowWatermark cs1 = csLowWatermark cs"
    "recorded cs1 = recorded cs" "csTransferring cs1 = csTransferring cs" by (auto simp: cs1_def recorded_def)
  have "cs' = cs1 \<or> cs' = setSlot ci (qeSeqNo q) q cs1"
    using c commit_eq [OF inv commit_window(1,2) [OF inv c True] True commit_window(3) [OF inv c True]]
    by (auto simp: Let_def cs1_def split: option.splits if_splits)
  moreover have "csInv ci (setSlot ci (qeSeqNo q) q cs1)"
    using setSlot_inv [OF inv1 refl] True f1 by auto
  moreover have "csLastAppliedCommit (setSlot ci s q cs1) = csLastAppliedCommit cs1"
    "csLowWatermark (setSlot ci s q cs1) = csLowWatermark cs1"
    "csTransferring (setSlot ci s q cs1) = csTransferring cs1" for s
    by (simp_all add: setSlot_def Let_def)
  ultimately show ?thesis using inv1 f1 setSlot_recorded [of ci "qeSeqNo q" q cs1] by auto
qed

section \<open>Runs of the commit state\<close>

lemma result_inv:
  assumes inv: "csInv ci cs" and r: "cs_applyCheckpointResult ec r cs p = Some (cs', p', acts)"
    and nt: "\<not> csTransferring cs" and pending: "csCheckpointPending cs"
    and same: "checkpointInterval (nsConfig (crNetworkState r)) = ci"
    and room: "unat (csLowWatermark cs) + 3 * unat ci < 2 ^ 64"
  shows "csInv ci cs' \<and> recorded cs' \<subseteq> recorded cs \<and> csLastAppliedCommit cs' = csLastAppliedCommit cs \<and>
    csLowWatermark cs' = csLowWatermark cs + ci \<and> csTransferring cs' = csTransferring cs \<and> commits_of acts = []"
proof -
  obtain active where active: "csActiveState cs = Some active" "checkpointInterval (nsConfig active) = ci"
    using inv by (auto simp: csInv_def)
  have ci: "0 < ci" "ci < 2 ^ 63" using inv by (simp_all add: csInv_def word_less_nat_alt)
  let ?lw = "csLowWatermark cs"
  define stop where "stop = (if length (nsPending (crNetworkState r)) = 0 then ?lw + ci + 2 * ci else csStopAtSeqNo cs)"
  have cs': "cs' = cs\<lparr>csStopAtSeqNo := stop, csActiveState := Some (crNetworkState r),
      csLowerHalfCommits := csUpperHalfCommits cs, csUpperHalfCommits := replicate (unat ci) None,
      csLowWatermark := ?lw + ci, csCheckpointPending := False\<rparr>"
    and acts: "commits_of acts = []"
    using r nt by (auto simp: cs_applyCheckpointResult_def active Let_def bind_eq_Some_conv makeHalf_def
        appendLogEntry_Some stop_def split: if_splits)
  note w = csInv_window [OF inv]
  have w3: "unat (?lw + ci + 2 * ci) = unat ?lw + 3 * unat ci"
  proof -
    have "unat (2 * ci) = 2 * unat ci" using room by (simp add: unat_word_ariths)
    then show ?thesis using room w(2) by (subst unat_add_no_wrap) auto
  qed
  have la: "?lw + ci \<le> csLastAppliedCommit cs" "csLastAppliedCommit cs \<le> ?lw + ci + 2 * ci"
    using inv pending w w3 by (auto simp: csInv_def word_le_nat_alt)
  moreover have "stop \<le> ?lw + ci + 2 * ci"
    using inv w w3 by (auto simp: csInv_def word_le_nat_alt stop_def)
  moreover have "unat (?lw + ci) + 2 * unat ci < 2 ^ 64" using room w by simp
  moreover have "slotsOk x (replicate n None)" for x n by (simp add: slotsOk_def)
  ultimately have "csInv ci cs'" using inv ci same unfolding cs' by (simp add: csInv_def word_less_nat_alt)
  then show ?thesis using acts unfolding cs' by (auto simp: recorded_def)
qed

text \<open>
  A run: sequences are committed, the commits are drained, and the results of the checkpoints that
  were requested come back, in any order. \<open>qs\<close> are the entries committed, \<open>acts\<close> the actions returned.
  The checkpoint interval stays the same, and sequence numbers stay below the 64-bit limit.
\<close>

inductive csRun :: "u64 \<Rightarrow> commitState \<Rightarrow> persisted \<Rightarrow> QEntry list \<Rightarrow> ActionList \<Rightarrow> commitState \<Rightarrow> persisted \<Rightarrow> bool"
  for ci :: u64 and cs0 :: commitState and p0 :: persisted where
  start: "csRun ci cs0 p0 [] [] cs0 p0"
| committed: "csRun ci cs0 p0 qs acts cs p \<Longrightarrow> commit q cs = Some cs' \<Longrightarrow> csRun ci cs0 p0 (qs @ [q]) acts cs' p"
| drained: "csRun ci cs0 p0 qs acts cs p \<Longrightarrow> drain cs = Some (cs', out) \<Longrightarrow> csRun ci cs0 p0 qs (acts @ out) cs' p"
| result: "csRun ci cs0 p0 qs acts cs p \<Longrightarrow> cs_applyCheckpointResult ec r cs p = Some (cs', p', out) \<Longrightarrow>
    csCheckpointPending cs \<Longrightarrow> checkpointInterval (nsConfig (crNetworkState r)) = ci \<Longrightarrow>
    unat (csLowWatermark cs) + 3 * unat ci < 2 ^ 64 \<Longrightarrow> csRun ci cs0 p0 qs (acts @ out) cs' p'"

definition consecutive :: "u64 \<Rightarrow> nat \<Rightarrow> u64 list" where
  "consecutive a n = map (\<lambda>i. a + of_nat (Suc i)) [0..<n]"

lemma consecutive_append: "consecutive a m @ consecutive (a + of_nat m) n = consecutive a (m + n)"
proof -
  have "[0..<m + n] = [0..<m] @ map (\<lambda>i. i + m) [0..<n]"
    using upt_add_eq_append [of 0 m n] map_add_upt [of m n] by (simp add: add.commute)
  then show ?thesis by (simp add: consecutive_def algebra_simps)
qed

lemma drain_run:
  assumes inv: "csInv ci cs" and d: "drain cs = Some (cs', out)"
  shows "drained ci cs cs' out \<and> csInv ci cs'"
proof -
  obtain active where "csActiveState cs = Some active" "checkpointInterval (nsConfig active) = ci"
    using inv by (auto simp: csInv_def)
  then show ?thesis using drainLoop_drained [OF inv] d by (simp add: drain_def)
qed

lemma drained_commits:
  assumes inv: "csInv ci cs" and d: "drained ci cs cs' out"
  shows "map qeSeqNo (commits_of out) = consecutive (csLastAppliedCommit cs)
      (unat (csLastAppliedCommit cs') - unat (csLastAppliedCommit cs))" "set (commits_of out) \<subseteq> recorded cs"
    "recorded cs' = recorded cs" "csTransferring cs' = csTransferring cs"
proof -
  let ?n = "unat (csLastAppliedCommit cs') - unat (csLastAppliedCommit cs)"
  have eq: "map Some (commits_of out) = map (\<lambda>i. slot ci cs (csLastAppliedCommit cs + of_nat (Suc i))) [0..<?n]"
    using d by (simp add: drained_def)
  then have len: "length (commits_of out) = ?n" by (metis length_map length_upt minus_nat.diff_0)
  have slots: "slot ci cs (csLastAppliedCommit cs + of_nat (Suc i)) = Some (commits_of out ! i)" if "i < ?n" for i
    using arg_cong [OF eq, of "\<lambda>l. l ! i"] that len by simp
  show "map qeSeqNo (commits_of out) = consecutive (csLastAppliedCommit cs) ?n"
    by (rule nth_equalityI) (use slot_seqNo [OF inv slots] len in \<open>simp_all add: consecutive_def\<close>)
  show "set (commits_of out) \<subseteq> recorded cs"
    using slot_recorded [OF inv slots] len by (auto simp: in_set_conv_nth)
  show "recorded cs' = recorded cs" "csTransferring cs' = csTransferring cs"
    using d by (auto simp: drained_def recorded_def)
qed

lemma csRun_inv:
  assumes "csRun ci cs0 p0 qs acts cs p" and "csInv ci cs0" and "\<not> csTransferring cs0"
  shows "csInv ci cs \<and> \<not> csTransferring cs \<and> csLastAppliedCommit cs0 \<le> csLastAppliedCommit cs \<and>
    map qeSeqNo (commits_of acts) = consecutive (csLastAppliedCommit cs0)
      (unat (csLastAppliedCommit cs) - unat (csLastAppliedCommit cs0)) \<and>
    set (commits_of acts) \<union> recorded cs \<subseteq> set qs \<union> recorded cs0"
  using assms
proof (induction rule: csRun.induct)
  case start
  then show ?case by (simp add: consecutive_def)
next
  case (committed qs acts cs p q cs')
  then show ?case using commit_inv [of ci cs q cs'] by auto
next
  case (drained qs acts cs p cs' out)
  then have inv: "csInv ci cs" by simp
  from drain_run [OF inv drained(2)] have d: "drained ci cs cs' out" "csInv ci cs'" by simp_all
  note dc = drained_commits [OF inv d(1)]
  let ?a = "csLastAppliedCommit cs0" and ?b = "csLastAppliedCommit cs" and ?c = "csLastAppliedCommit cs'"
  have le: "unat ?a \<le> unat ?b" "unat ?b \<le> unat ?c"
    using drained d(1) by (auto simp: drained_def word_le_nat_alt)
  have "?a + of_nat (unat ?b - unat ?a) = ?b" using le by (simp add: of_nat_diff)
  then have "consecutive ?a (unat ?b - unat ?a) @ consecutive ?b (unat ?c - unat ?b) = consecutive ?a (unat ?c - unat ?a)"
    using consecutive_append [of ?a "unat ?b - unat ?a" "unat ?c - unat ?b"] le by simp
  then show ?case using drained dc d le by (auto simp: word_le_nat_alt)
next
  case (result qs acts cs p ec r cs' p' out)
  then show ?case using result_inv [OF _ result(2) _ result(3,4,5)] by auto
qed

section \<open>Properties\<close>

definition sampleState :: NetworkState where
  "sampleState = \<lparr>nsConfig = sampleNet, nsClients =
     [\<lparr>clId = 9, clWidth = 8, clWidthConsumed = 0, clLowWatermark = 0, clCommittedMask = None\<rparr>],
     nsPending = [], nsReconfigured = False\<rparr>"

definition sampleCLog :: persisted where
  "sampleCLog = \<lparr>pNextIndex = 1, pLog =
     [(0, Persistent_CEntry \<lparr>ceSeqNo = 20, ceCheckpointValue = Some [7], ceNetworkState = sampleState\<rparr>)]\<rparr>"

definition sampleCS :: commitState where
  "sampleCS = fst (the (cs_reinitialize sampleCLog newCommitState))"

definition sampleQ :: "u64 \<Rightarrow> QEntry" where
  "sampleQ s = \<lparr>qeSeqNo = s, qeDigest = Some [1], qeRequests = []\<rparr>"

lemma sampleCS_fields:
  "csLowWatermark sampleCS = 20" "csLastAppliedCommit sampleCS = 20" "csStopAtSeqNo sampleCS = 30"
  "csHighestCommit sampleCS = 20" "csTransferring sampleCS = False" "csCheckpointPending sampleCS = False"
  "csActiveState sampleCS = Some sampleState" "csLowerHalfCommits sampleCS = replicate 5 None"
  "csUpperHalfCommits sampleCS = replicate 5 None"
  by code_simp+

lemma sampleCS_inv: "csInv 5 sampleCS"
  by (simp add: csInv_def sampleCS_fields slotsOk_def checkpointInterval_def sampleState_def sampleNet_def)

text \<open>C6. The application is handed every committed sequence exactly once, in order and without a gap: over
  any run of commits, drains and checkpoint results, the sequence numbers handed out are the
  consecutive ones after the starting point, and every entry handed out was committed.\<close>

theorem commits_in_order:
  assumes run: "csRun ci cs0 p0 qs acts cs p" and inv: "csInv ci cs0" and nt: "\<not> csTransferring cs0"
    and empty: "recorded cs0 = {}"
  shows "map qeSeqNo (commits_of acts) = consecutive (csLastAppliedCommit cs0)
      (unat (csLastAppliedCommit cs) - unat (csLastAppliedCommit cs0)) \<and>
    set (commits_of acts) \<subseteq> set qs"
  using csRun_inv [OF run inv nt] empty by auto

definition sampleDrain :: "(commitState \<times> commitState \<times> commitState \<times> ActionList) option" where
  "sampleDrain = do {
     cs1 \<leftarrow> commit (sampleQ 21) sampleCS;
     cs2 \<leftarrow> commit (sampleQ 22) cs1;
     (cs3, acts) \<leftarrow> drain cs2;
     Some (cs1, cs2, cs3, acts)
   }"

lemma sampleDrain_ok: "sampleDrain \<noteq> None"
  by code_simp

theorem commits_in_order_witness:
  "\<exists>cs acts. csRun 5 sampleCS sampleCLog [sampleQ 21, sampleQ 22] acts cs sampleCLog \<and>
    map qeSeqNo (commits_of acts) = consecutive 20 (unat (csLastAppliedCommit cs) - 20) \<and>
    set (commits_of acts) \<subseteq> {sampleQ 21, sampleQ 22}"
proof -
  obtain cs1 cs2 cs3 acts where "commit (sampleQ 21) sampleCS = Some cs1" "commit (sampleQ 22) cs1 = Some cs2"
      "drain cs2 = Some (cs3, acts)"
    using sampleDrain_ok by (auto simp: sampleDrain_def bind_eq_None_conv)
  then have run: "csRun 5 sampleCS sampleCLog [sampleQ 21, sampleQ 22] acts cs3 sampleCLog"
    using csRun.drained [OF csRun.committed [OF csRun.committed [OF csRun.start]]] by fastforce
  have "recorded sampleCS = {}" by (simp add: recorded_def sampleCS_fields)
  from commits_in_order [OF run sampleCS_inv _ this] run show ?thesis
    by (auto simp: sampleCS_fields)
qed

text \<open>Draining stops only for a reason and asks for a checkpoint at the right place: the commits handed
  out are the recorded ones after the last applied sequence, up to the first one missing or the end
  of the window; a checkpoint is requested exactly when the middle of the window is reached and none
  is pending, once; watermarks and records stay as they were.\<close>

theorem drain_hands_out_prefix:
  assumes inv: "csInv ci cs" and d: "drain cs = Some (cs', acts)"
  shows "map Some (commits_of acts) = map (\<lambda>i. slot ci cs (csLastAppliedCommit cs + of_nat (Suc i)))
       [0..<unat (csLastAppliedCommit cs') - unat (csLastAppliedCommit cs)] \<and>
    (csLastAppliedCommit cs' = csLowWatermark cs + 2 * ci \<or> slot ci cs (csLastAppliedCommit cs' + 1) = None) \<and>
    checkpoints_of acts =
       (if \<not> csCheckpointPending cs \<and> csLastAppliedCommit cs \<le> csLowWatermark cs + ci \<and>
           csLowWatermark cs + ci \<le> csLastAppliedCommit cs' then [csLowWatermark cs + ci] else []) \<and>
    csLowWatermark cs' = csLowWatermark cs \<and> slot ci cs' = slot ci cs \<and> csInv ci cs'"
proof -
  have "drained ci cs cs' acts" "csInv ci cs'" using drain_run [OF inv d] by simp_all
  moreover from this have "slot ci cs' = slot ci cs" by (intro slot_cong) (simp_all add: drained_def)
  ultimately show ?thesis by (simp add: drained_def)
qed

theorem drain_hands_out_prefix_witness:
  "\<exists>cs' acts. drain sampleCS = Some (cs', acts) \<and> csLowWatermark cs' = 20 \<and> slot 5 cs' = slot 5 sampleCS"
proof -
  have "drain sampleCS \<noteq> None" by code_simp
  then obtain cs' acts where d: "drain sampleCS = Some (cs', acts)" by auto
  from drain_hands_out_prefix [OF sampleCS_inv d] d show ?thesis by (simp add: sampleCS_fields)
qed

text \<open>A sequence number is never committed with two digests: within the window, committing an entry
  records it if the slot is free, changes nothing if the same digest is already there, and panics if
  a different one is.\<close>

theorem commit_records_once:
  assumes inv: "csInv ci cs" and ok: "\<not> csTransferring cs" "qeSeqNo q \<le> csStopAtSeqNo cs"
      "csLowWatermark cs < qeSeqNo q" "qeSeqNo q \<le> csHighestCommit cs \<or> qeSeqNo q = csHighestCommit cs + 1"
  shows "case slot ci cs (qeSeqNo q) of
      None \<Rightarrow> \<exists>cs'. commit q cs = Some cs' \<and> slot ci cs' = (slot ci cs)(qeSeqNo q \<mapsto> q)
    | Some q' \<Rightarrow> if bytes_equal (qeDigest q') (qeDigest q)
                then \<exists>cs'. commit q cs = Some cs' \<and> slot ci cs' = slot ci cs
                else commit q cs = None"
proof -
  define cs1 where "cs1 = (if csHighestCommit cs < qeSeqNo q then cs\<lparr>csHighestCommit := qeSeqNo q\<rparr> else cs)"
  have inv1: "csInv ci cs1" and lw1: "csLowWatermark cs1 = csLowWatermark cs"
    using inv by (simp_all add: cs1_def csInv_def)
  have sl: "slot ci cs1 = slot ci cs" by (rule slot_cong) (simp_all add: cs1_def)
  have "unat (qeSeqNo q) \<le> unat (csLowWatermark cs) + 2 * unat ci"
    using ok(2) inv csInv_window [OF inv] by (simp add: csInv_def word_le_nat_alt)
  then have "unat (qeSeqNo q - csLowWatermark cs1) \<le> 2 * unat ci" "qeSeqNo q \<noteq> csLowWatermark cs1"
    using ok(3) by (auto simp: lw1 unat_diff_le)
  from setSlot_slot [OF inv1 this(2,1), of q] show ?thesis
    using commit_eq [OF inv ok] by (auto simp: cs1_def [symmetric] Let_def sl split: option.split)
qed

theorem commit_records_once_witness:
  "slot 5 sampleCS 21 = None \<and> (\<exists>cs'. commit (sampleQ 21) sampleCS = Some cs' \<and>
     slot 5 cs' = (slot 5 sampleCS)(21 \<mapsto> sampleQ 21))"
proof -
  have s: "slot 5 sampleCS 21 = None" by (simp add: slot_def sampleCS_fields)
  have q: "qeSeqNo (sampleQ 21) = 21" by (simp add: sampleQ_def)
  from commit_records_once [OF sampleCS_inv, of "sampleQ 21"] s show ?thesis by (simp add: q sampleCS_fields)
qed

end
