(* ===== verification/Mir_ClientWindow.thy ===== *)
theory Mir_ClientWindow
  imports Mir_CommitState
begin

text \<open>
  The request window of one client across a checkpoint: what \<open>createCheckpointState\<close> of
  \<open>commitstate.go\<close> writes into the client's state is exactly the set of requests committed, as
  \<open>isCommitted\<close> reads it, and \<open>newCommittingClient\<close> reads back the same window.
\<close>

section \<open>Scanning the window\<close>

definition firstFree :: "u64 option list \<Rightarrow> nat" where
  "firstFree cs = length (takeWhile (\<lambda>c. c \<noteq> None) cs)"

fun lastUsed :: "u64 option list \<Rightarrow> nat" where
  "lastUsed [] = 0"
| "lastUsed (c # cs) = (if \<forall>x\<in>set cs. x = None then 0 else Suc (lastUsed cs))"

lemma scan_first:
  "fst (scanCommitted b cs (fu, lc)) =
     (case fu of Some x \<Rightarrow> Some x
      | None \<Rightarrow> if firstFree cs < length cs then Some (b + of_nat (firstFree cs)) else None)"
  by (induction cs arbitrary: b fu lc) (auto simp: firstFree_def algebra_simps split: option.splits)

lemma scan_last:
  "snd (scanCommitted b cs (fu, lc)) =
     (if \<forall>x\<in>set cs. x = None then lc else Some (b + of_nat (lastUsed cs)))"
  by (induction cs arbitrary: b fu lc) (auto simp: algebra_simps)

lemma firstFree_used: "i < firstFree cs \<Longrightarrow> cs ! i \<noteq> None"
proof -
  assume i: "i < firstFree cs"
  then have "takeWhile (\<lambda>c. c \<noteq> None) cs ! i \<in> set (takeWhile (\<lambda>c. c \<noteq> None) cs)"
    by (simp add: firstFree_def)
  then show ?thesis using i by (auto simp: firstFree_def takeWhile_nth dest: set_takeWhileD)
qed

lemma firstFree_free: "firstFree cs < length cs \<Longrightarrow> cs ! firstFree cs = None"
  using nth_length_takeWhile [of "\<lambda>c. c \<noteq> None" cs] by (simp add: firstFree_def)

lemma firstFree_exists: "cs ! i = None \<Longrightarrow> firstFree cs \<le> i"
  using firstFree_used [of i cs] by (meson not_le_imp_less)

lemma lastUsed_nth:
  assumes "\<not> (\<forall>x\<in>set cs. x = None)"
  shows "lastUsed cs < length cs \<and> cs ! lastUsed cs \<noteq> None \<and> (\<forall>j < length cs. cs ! j \<noteq> None \<longrightarrow> j \<le> lastUsed cs)"
  using assms
proof (induction cs)
  case (Cons c cs)
  show ?case
  proof (cases "\<forall>x\<in>set cs. x = None")
    case True
    then have "\<forall>j < length (c # cs). (c # cs) ! j \<noteq> None \<longrightarrow> j = 0"
      by (auto simp: nth_Cons' all_set_conv_all_nth)
    then show ?thesis using True Cons.prems by auto
  next
    case False
    then show ?thesis using Cons.IH by (auto simp: nth_Cons split: nat.splits)
  qed
qed simp

section \<open>The mask\<close>

lemma ofold_filter:
  "ofold (\<lambda>i s. if P i then f i s else Some s) xs s = ofold f (filter P xs) s"
  by (induction xs arbitrary: s) (auto split: option.splits)

lemma ofold_cong: "(\<And>i s. i \<in> set xs \<Longrightarrow> f i s = g i s) \<Longrightarrow> ofold f xs s = ofold g xs s"
  by (induction xs arbitrary: s) (auto split: option.splits)

lemma checkpointMask_bits:
  assumes "N < length committed" and "committed ! 0 = None"
  shows "\<exists>m. checkpointMask committed (int N) = Some m \<and> (\<forall>j. bitAt m j \<longleftrightarrow> j \<le> N \<and> committed ! j \<noteq> None)"
proof -
  let ?P = "\<lambda>i. committed ! i \<noteq> None"
  let ?n = "N div 8 + 1"
  have body: "do { c \<leftarrow> slice_get committed (int i);
        case c of None \<Rightarrow> Some m | Some _ \<Rightarrow> do { assert (i \<noteq> 0); setBit m (int i) } } =
      (if ?P i then setBit m (int i) else Some m)" if "i \<in> set [0..<Suc N]" for i m
    using that assms by (cases "i = 0") (auto simp: slice_get_def split: option.splits)
  have len: "nat (int N + 1) = Suc N" "nat (int N sdiv 8 + 1) = ?n" by simp_all
  have "checkpointMask committed (int N) =
      ofold (\<lambda>i m. if ?P i then setBit m (int i) else Some m) [0..<Suc N] (bitmask_blank ?n)"
    unfolding checkpointMask_def bitmask_blank_def len by (rule ofold_cong) (rule body)
  also have "\<dots> = bm.put_all (filter ?P [0..<Suc N]) (bitmask_blank ?n)"
    unfolding ofold_filter bm.put_all_def ..
  finally have mask: "checkpointMask committed (int N) = bm.put_all (filter ?P [0..<Suc N]) (bitmask_blank ?n)" .
  have "N < 8 * ?n" by presburger
  then have lt: "\<And>i. i \<in> set (filter ?P [0..<Suc N]) \<Longrightarrow> i < 8 * ?n"
    by (simp only: set_filter set_upt mem_Collect_eq atLeastLessThan_iff less_Suc_eq_le) (metis le_less_trans)
  obtain m where "bm.put_all (filter ?P [0..<Suc N]) (bitmask_blank ?n) = Some m"
      and "\<forall>j. bitAt m j \<longleftrightarrow> j \<in> set (filter ?P [0..<Suc N])"
    using bm.put_all_blank [of "filter ?P [0..<Suc N]" ?n] lt by blast
  then show ?thesis using mask by auto
qed

lemma checkpointMask_empty: "checkpointMask committed (- 1) = Some [0]"
proof -
  have "nat (- 1 sdiv 8 + 1) = 1" by code_simp
  then show ?thesis by (simp add: checkpointMask_def)
qed

section \<open>A checkpoint of one client\<close>

definition windowFits :: "committingClient \<Rightarrow> bool" where
  "windowFits cc \<longleftrightarrow>
     unat (clLowWatermark (ccLastState cc)) + length (ccCommitted cc) + unat (clWidth (ccLastState cc)) < 2 ^ 63 \<and>
     (\<forall>i < length (ccCommitted cc). ccCommitted cc ! i \<noteq> None \<longrightarrow> i < unat (clWidth (ccLastState cc)))"

lemma u64_offset: "n < 2 ^ 63 \<Longrightarrow> unat (of_nat n :: u64) = n" "n < 2 ^ 63 \<Longrightarrow> sint (of_nat n :: u64) = int n"
proof -
  assume n: "n < 2 ^ 63"
  then show u: "unat (of_nat n :: u64) = n" by (simp add: unat_of_nat)
  show "sint (of_nat n :: u64) = int n" using sint_small [of "of_nat n"] n u by (metis of_nat_unat)
qed

lemma unat_offset: "unat (lw :: u64) + n < 2 ^ 63 \<Longrightarrow> unat (lw + of_nat n) = unat lw + n"
  using u64_offset(1) [of n] by (subst unat_add_no_wrap) auto

text \<open>The state written when some requests are committed and some are not.\<close>

lemma createCheckpointState_some:
  assumes fits: "windowFits cc" and free: "firstFree (ccCommitted cc) < length (ccCommitted cc)"
    and used: "\<not> (\<forall>x\<in>set (ccCommitted cc). x = None)"
    and f: "f = firstFree (ccCommitted cc)" and old: "old = ccLastState cc"
  shows "\<exists>m. createCheckpointState cc =
      Some (\<lparr>clId = clId old, clWidth = clWidth old, clWidthConsumed = of_nat f,
             clLowWatermark = clLowWatermark old + of_nat f, clCommittedMask = Some m\<rparr>,
            cc\<lparr>ccLastState := \<lparr>clId = clId old, clWidth = clWidth old, clWidthConsumed = of_nat f,
                 clLowWatermark = clLowWatermark old + of_nat f, clCommittedMask = Some m\<rparr>,
               ccCommitted := drop f (ccCommitted cc) @ replicate (unat (clWidth old) - f) None\<rparr>) \<and>
      (\<forall>j. bitAt m j \<longleftrightarrow> f + j < length (ccCommitted cc) \<and> ccCommitted cc ! (f + j) \<noteq> None)"
proof -
  let ?cs = "ccCommitted cc" and ?l = "lastUsed (ccCommitted cc)" and ?lw = "clLowWatermark old"
  let ?w = "unat (clWidth old)"
  define committed where "committed = drop f ?cs @ replicate (?w - f) None"
  have l: "?l < length ?cs" "?cs ! ?l \<noteq> None" "\<forall>j < length ?cs. ?cs ! j \<noteq> None \<longrightarrow> j \<le> ?l"
    using lastUsed_nth [OF used] by auto
  have len: "length ?cs < 2 ^ 63" using fits by (simp add: windowFits_def)
  have fl: "f < length ?cs" using free f by simp
  have "f \<noteq> ?l" using firstFree_free [OF free] l(2) f by auto
  have fw: "f \<le> ?w"
  proof (cases f)
    case (Suc k)
    then have "?cs ! k \<noteq> None" using firstFree_used [of k ?cs] f by simp
    moreover have "k < length ?cs" using Suc fl by simp
    ultimately have "k < ?w" using fits unfolding windowFits_def old by blast
    then show ?thesis using Suc by simp
  qed simp
  have first: "fst (scanCommitted ?lw ?cs (None, None)) = Some (?lw + of_nat f)"
    using scan_first [of ?lw ?cs None None] free f by simp
  have snd: "snd (scanCommitted ?lw ?cs (None, None)) = Some (?lw + of_nat ?l)"
    using scan_last [of ?lw ?cs None None] used by simp
  have wc: "sint (of_nat f :: u64) = int f" using u64_offset(2) [of f] fl len by simp
  have ne: "(of_nat ?l :: u64) \<noteq> of_nat f"
    using u64_offset(1) [of f] u64_offset(1) [of ?l] fl l(1) len \<open>f \<noteq> ?l\<close> by (metis less_trans)
  have c0: "committed ! 0 = None" "f < ?l \<Longrightarrow> ?l - f < length committed"
    using firstFree_free [OF free] f fl l(1) by (simp_all add: committed_def nth_append)
  have "\<exists>m. checkpointMask committed (sint (of_nat ?l - of_nat f :: u64)) = Some m \<and>
      (\<forall>j. bitAt m j \<longleftrightarrow> f + j < length ?cs \<and> ?cs ! (f + j) \<noteq> None)"
  proof (cases "f < ?l")
    case True
    then have "of_nat ?l - of_nat f = (of_nat (?l - f) :: u64)" by (simp add: of_nat_diff)
    then have n: "sint (of_nat ?l - of_nat f :: u64) = int (?l - f)"
      using u64_offset(2) [of "?l - f"] l(1) len by simp
    have eq: "j \<le> ?l - f \<and> committed ! j \<noteq> None \<longleftrightarrow> f + j < length ?cs \<and> ?cs ! (f + j) \<noteq> None" for j
      using l True by (auto simp: committed_def nth_append split: if_splits)
    obtain m where "checkpointMask committed (int (?l - f)) = Some m"
        "\<forall>j. bitAt m j \<longleftrightarrow> j \<le> ?l - f \<and> committed ! j \<noteq> None"
      using checkpointMask_bits [OF c0(2) [OF True] c0(1)] by (elim exE conjE)
    then show ?thesis unfolding n eq by simp
  next
    case False
    then have lf: "?l < f" using \<open>f \<noteq> ?l\<close> by simp
    have "f - 1 \<le> ?l" using firstFree_used [of "f - 1" ?cs] l(3) f fl lf by auto
    then have fl1: "f = Suc ?l" using lf by simp
    then have n: "sint (of_nat ?l - of_nat f :: u64) = - 1" by simp
    have "\<not> (f + j < length ?cs \<and> ?cs ! (f + j) \<noteq> None)" for j using l(3) fl1 by fastforce
    moreover have "\<not> bitAt [0] j" for j by (cases "j div 8 = 0") (auto simp: bitAt_def)
    ultimately show ?thesis unfolding n checkpointMask_empty by auto
  qed
  then obtain m where m: "checkpointMask committed (sint (of_nat ?l - of_nat f :: u64)) = Some m"
      and bits: "\<forall>j. bitAt m j \<longleftrightarrow> f + j < length ?cs \<and> ?cs ! (f + j) \<noteq> None" by blast
  have scan: "scanCommitted (clLowWatermark (ccLastState cc)) ?cs (None, None) =
      (Some (?lw + of_nat f), Some (?lw + of_nat ?l))"
    using first snd old by (simp add: prod_eq_iff)
  have uw: "uint (clWidth old) = int ?w" by simp
  have "nat (uint (clWidth old) - int f) = ?w - f" unfolding uw by linarith
  moreover have "int f \<le> uint (clWidth old)"  using fw unfolding uw by linarith
  ultimately show ?thesis
    using bits m fl unfolding createCheckpointState_def Let_def scan
    by (simp add: old [symmetric] wc ne committed_def)
qed

lemma createCheckpointState_none:
  assumes "\<forall>x\<in>set (ccCommitted cc). x = None"
  shows "createCheckpointState cc =
    (let old = ccLastState cc;
         st = \<lparr>clId = clId old, clWidth = clWidth old, clWidthConsumed = 0, clLowWatermark = clLowWatermark old,
               clCommittedMask = None\<rparr>
     in Some (st, cc\<lparr>ccLastState := st\<rparr>))"
proof -
  obtain fu where "scanCommitted (clLowWatermark (ccLastState cc)) (ccCommitted cc) (None, None) = (fu, None)"
    using scan_last [of "clLowWatermark (ccLastState cc)" "ccCommitted cc" None None] assms
    by (auto simp: prod_eq_iff)
  then show ?thesis by (simp add: createCheckpointState_def Let_def)
qed

text \<open>Both cases at once: the watermark moves over the committed prefix, and the bits of the mask are the
  committed requests from there on.\<close>

lemma createCheckpointState_shape:
  assumes fits: "windowFits cc" and free: "firstFree (ccCommitted cc) < length (ccCommitted cc)"
  shows "\<exists>st cc'. createCheckpointState cc = Some (st, cc') \<and> ccLastState cc' = st \<and>
    clWidth st = clWidth (ccLastState cc) \<and>
    clLowWatermark st = clLowWatermark (ccLastState cc) + of_nat (firstFree (ccCommitted cc)) \<and>
    (\<forall>j. bitAt (bstr (clCommittedMask st)) j \<longleftrightarrow> firstFree (ccCommitted cc) + j < length (ccCommitted cc) \<and>
       ccCommitted cc ! (firstFree (ccCommitted cc) + j) \<noteq> None) \<and>
    (\<exists>k. ccCommitted cc' = drop (firstFree (ccCommitted cc)) (ccCommitted cc) @ replicate k None)"
proof (cases "\<forall>x\<in>set (ccCommitted cc). x = None")
  case True
  then have "ccCommitted cc ! 0 = None" using free nth_mem [of 0 "ccCommitted cc"] by (cases "ccCommitted cc") auto
  then have "firstFree (ccCommitted cc) = 0" using firstFree_exists [of "ccCommitted cc" 0] by simp
  moreover have "ccCommitted cc ! j = None" if "j < length (ccCommitted cc)" for j using True that by auto
  ultimately show ?thesis
    using createCheckpointState_none [OF True]
    by (auto simp: Let_def bitAt_def intro: exI [of _ 0])
next
  case False
  from createCheckpointState_some [OF fits free False refl refl] show ?thesis by auto
qed

lemma isCommitted_window:
  assumes fits: "windowFits cc" and free: "firstFree (ccCommitted cc) < length (ccCommitted cc)"
    and st: "createCheckpointState cc = Some (st, cc')"
    and lw: "lw = clLowWatermark (ccLastState cc)" and r: "r < lw + of_nat (length (ccCommitted cc))"
  shows "isCommitted r st = Some (r < lw \<or> ccCommitted cc ! unat (r - lw) \<noteq> None)"
proof -
  let ?cs = "ccCommitted cc" and ?f = "firstFree (ccCommitted cc)"
  have lw': "clLowWatermark st = lw + of_nat ?f" and w: "clWidth st = clWidth (ccLastState cc)"
    and bits: "\<forall>j. bitAt (bstr (clCommittedMask st)) j \<longleftrightarrow> ?f + j < length ?cs \<and> ?cs ! (?f + j) \<noteq> None"
    using createCheckpointState_shape [OF fits free] st lw by auto
  have room: "unat lw + length ?cs + unat (clWidth st) < 2 ^ 63" using fits w lw by (simp add: windowFits_def)
  then have u: "unat (lw + of_nat ?f) = unat lw + ?f" "unat (lw + of_nat (length ?cs)) = unat lw + length ?cs"
    using free by (intro unat_offset, linarith)+
  have ur: "unat r < unat lw + length ?cs" using r u by (simp add: word_less_nat_alt)
  show ?thesis
  proof (cases "r < lw + of_nat ?f")
    case True
    moreover have "?cs ! unat (r - lw) \<noteq> None" if "\<not> r < lw"
      using that True u by (intro firstFree_used) (simp add: word_less_nat_alt unat_diff_le word_le_nat_alt)
    ultimately show ?thesis by (auto simp: isCommitted_eq lw')
  next
    case False
    define j where "j = unat r - unat lw - ?f"
    have le: "unat lw + ?f \<le> unat r" using False u by (simp add: word_less_nat_alt)
    then have d: "unat (r - (lw + of_nat ?f)) = j" "unat (r - lw) = ?f + j" "\<not> r < lw"
      using u by (simp_all add: j_def unat_diff_le word_le_nat_alt word_less_nat_alt)
    have fj: "?f + j < length ?cs" using ur le by (simp add: j_def)
    have "r \<le> lw + of_nat ?f + ucast (clWidth st)" if "?cs ! (?f + j) \<noteq> None"
    proof -
      have "?f + j < unat (clWidth st)" using that fits fj unfolding windowFits_def w by blast
      moreover have "unat (lw + of_nat ?f + ucast (clWidth st)) = unat lw + ?f + unat (clWidth st)"
        using room free u by (subst unat_add_no_wrap) auto
      ultimately show ?thesis using le by (simp add: word_le_nat_alt j_def)
    qed
    then show ?thesis using bits fj False d by (auto simp: isCommitted_eq lw')
  qed
qed

section \<open>Reading the window back\<close>

lemma newCommittingClient_scan:
  assumes "\<forall>i. bitAt m i \<longrightarrow> i < w"
  shows "\<exists>c. ofold (\<lambda>i committed. do {
        b \<leftarrow> isBitSet m (int i);
        if \<not> b then Some committed else slice_set committed (int i) (Some seqNo) })
      [0..<n] (replicate w None) = Some c \<and> length c = w \<and>
    (\<forall>i < w. c ! i = (if i < n \<and> bitAt m i then Some seqNo else None))"
proof (induction n)
  case 0
  then show ?case by simp
next
  case (Suc n)
  then obtain c where c: "ofold (\<lambda>i committed. do {
        b \<leftarrow> isBitSet m (int i);
        if \<not> b then Some committed else slice_set committed (int i) (Some seqNo) })
      [0..<n] (replicate w None) = Some c" "length c = w"
      "\<forall>i < w. c ! i = (if i < n \<and> bitAt m i then Some seqNo else None)" by blast
  show ?case
  proof (cases "bitAt m n")
    case True
    then show ?thesis using c assms
      by (simp add: ofold_append isBitSet_bitAt nth_list_update less_Suc_eq)
  next
    case False
    then have "\<forall>i < w. c ! i = (if i < Suc n \<and> bitAt m i then Some seqNo else None)"
      using c(3) by (auto simp: less_Suc_eq)
    then show ?thesis using c False by (simp add: ofold_append isBitSet_bitAt)
  qed
qed

lemma newCommittingClient_reads:
  assumes "\<forall>i. bitAt (bstr (clCommittedMask st)) i \<longrightarrow> i < unat (clWidth st)"
  shows "\<exists>cc. newCommittingClient seqNo st = Some cc \<and> ccLastState cc = st \<and>
    length (ccCommitted cc) = unat (clWidth st) \<and>
    (\<forall>i < unat (clWidth st). ccCommitted cc ! i \<noteq> None \<longleftrightarrow> bitAt (bstr (clCommittedMask st)) i)"
proof -
  let ?m = "bstr (clCommittedMask st)"
  have "nat (bits ?m) = 8 * length ?m" by (simp add: bits_def)
  then show ?thesis
    using newCommittingClient_scan [OF assms, of seqNo "8 * length ?m"] bitAt_less [of ?m]
    by (auto simp: newCommittingClient_def Let_def)
qed

section \<open>Properties\<close>

text \<open>A client of width four with requests 10 and 12 committed.\<close>

definition sampleClient :: committingClient where
  "sampleClient = \<lparr>ccLastState = \<lparr>clId = 9, clWidth = 4, clWidthConsumed = 0, clLowWatermark = 10, clCommittedMask = None\<rparr>,
     ccCommitted = [Some 3, None, Some 4, None]\<rparr>"

lemma sampleClient_fits: "windowFits sampleClient"
proof -
  have "list_all (\<lambda>i. ccCommitted sampleClient ! i \<noteq> None \<longrightarrow> i < unat (clWidth (ccLastState sampleClient)))
      [0..<length (ccCommitted sampleClient)]" by code_simp
  then have "\<forall>i < length (ccCommitted sampleClient).
      ccCommitted sampleClient ! i \<noteq> None \<longrightarrow> i < unat (clWidth (ccLastState sampleClient))"
    by (simp add: list_all_iff)
  moreover have "unat (clLowWatermark (ccLastState sampleClient)) + length (ccCommitted sampleClient) +
      unat (clWidth (ccLastState sampleClient)) < 2 ^ 63" by (simp add: sampleClient_def)
  ultimately show ?thesis by (simp add: windowFits_def)
qed

text \<open>C25. A checkpoint remembers exactly the committed requests of a client: with a request of the window
  still uncommitted, \<open>createCheckpointState\<close> returns, and for every request number up to the end of the
  window the new client state says it is committed exactly when it was below the old low watermark
  or marked committed since.\<close>

theorem checkpoint_remembers_commits:
  assumes fits: "windowFits cc" and free: "i < length (ccCommitted cc)" "ccCommitted cc ! i = None"
    and lw: "lw = clLowWatermark (ccLastState cc)"
  shows "\<exists>st cc'. createCheckpointState cc = Some (st, cc') \<and>
    (\<forall>r. r < lw + of_nat (length (ccCommitted cc)) \<longrightarrow>
       isCommitted r st = Some (r < lw \<or> ccCommitted cc ! unat (r - lw) \<noteq> None))"
proof -
  have f: "firstFree (ccCommitted cc) < length (ccCommitted cc)"
    using firstFree_exists [OF free(2)] free(1) by simp
  obtain st cc' where st: "createCheckpointState cc = Some (st, cc')"
    using createCheckpointState_shape [OF fits f] by blast
  with isCommitted_window [OF fits f st lw] show ?thesis by blast
qed

theorem checkpoint_remembers_commits_witness:
  "\<exists>st cc'. createCheckpointState sampleClient = Some (st, cc') \<and>
    (\<forall>r. r < 10 + of_nat (length (ccCommitted sampleClient)) \<longrightarrow>
       isCommitted r st = Some (r < 10 \<or> ccCommitted sampleClient ! unat (r - 10) \<noteq> None))"
  by (rule checkpoint_remembers_commits [where i = 1, OF sampleClient_fits]) (simp_all add: sampleClient_def)

text \<open>C26. Restarting from a checkpoint loses no commit of a client: the window \<open>newCommittingClient\<close> rebuilds
  from the client state of a checkpoint marks the same requests as the window kept in memory.\<close>

theorem checkpoint_client_roundtrip:
  assumes fits: "windowFits cc" and free: "i < length (ccCommitted cc)" "ccCommitted cc ! i = None"
  shows "\<exists>st kept restored. createCheckpointState cc = Some (st, kept) \<and>
    newCommittingClient seqNo st = Some restored \<and> ccLastState restored = ccLastState kept \<and>
    (\<forall>j. j < length (ccCommitted kept) \<and> ccCommitted kept ! j \<noteq> None \<longleftrightarrow>
         j < length (ccCommitted restored) \<and> ccCommitted restored ! j \<noteq> None)"
proof -
  let ?f = "firstFree (ccCommitted cc)"
  have f: "?f < length (ccCommitted cc)" using firstFree_exists [OF free(2)] free(1) by simp
  obtain st kept k where st: "createCheckpointState cc = Some (st, kept)" "ccLastState kept = st"
      "clWidth st = clWidth (ccLastState cc)"
      "\<forall>j. bitAt (bstr (clCommittedMask st)) j \<longleftrightarrow> ?f + j < length (ccCommitted cc) \<and> ccCommitted cc ! (?f + j) \<noteq> None"
      "ccCommitted kept = drop ?f (ccCommitted cc) @ replicate k None"
    using createCheckpointState_shape [OF fits f] by auto
  have "\<forall>j. bitAt (bstr (clCommittedMask st)) j \<longrightarrow> j < unat (clWidth st)"
    using st(3,4) fits by (fastforce simp: windowFits_def)
  then obtain restored where r: "newCommittingClient seqNo st = Some restored" "ccLastState restored = st"
      "length (ccCommitted restored) = unat (clWidth st)"
      "\<forall>j < unat (clWidth st). ccCommitted restored ! j \<noteq> None \<longleftrightarrow> bitAt (bstr (clCommittedMask st)) j"
    using newCommittingClient_reads by blast
  have k1: "j < length (ccCommitted kept) \<and> ccCommitted kept ! j \<noteq> None \<longleftrightarrow> bitAt (bstr (clCommittedMask st)) j" for j
    using f by (auto simp: st(4,5) nth_append split: if_splits)
  have k2: "j < length (ccCommitted restored) \<and> ccCommitted restored ! j \<noteq> None \<longleftrightarrow> bitAt (bstr (clCommittedMask st)) j" for j
    using r \<open>\<forall>j. _ \<longrightarrow> j < unat (clWidth st)\<close> by auto
  show ?thesis
    by (intro exI [of _ st] exI [of _ kept] exI [of _ restored]) (simp only: st(1,2) r(1,2) k1 k2 simp_thms)
qed

theorem checkpoint_client_roundtrip_witness:
  "\<exists>st kept restored. createCheckpointState sampleClient = Some (st, kept) \<and>
    newCommittingClient 5 st = Some restored \<and> ccLastState restored = ccLastState kept \<and>
    (\<forall>j. j < length (ccCommitted kept) \<and> ccCommitted kept ! j \<noteq> None \<longleftrightarrow>
         j < length (ccCommitted restored) \<and> ccCommitted restored ! j \<noteq> None)"
  by (rule checkpoint_client_roundtrip [where i = 1, OF sampleClient_fits]) (simp_all add: sampleClient_def)

text \<open>A client that commits its whole window loses it: the checkpoint leaves no slot to mark, the next
  checkpoint opens the full width again in the client's state, and marking the first request of that
  window panics.\<close>

theorem full_window_loses_client:
  "case createCheckpointState \<lparr>ccLastState = \<lparr>clId = 9, clWidth = 2, clWidthConsumed = 0, clLowWatermark = 10,
       clCommittedMask = None\<rparr>, ccCommitted = [Some 3, Some 4]\<rparr> of
     None \<Rightarrow> False
   | Some (_, cc) \<Rightarrow>
       (case createCheckpointState cc of
          None \<Rightarrow> False
        | Some (st, cc') \<Rightarrow> clLowWatermark st = 12 \<and> clWidth st = 2 \<and> clWidthConsumed st = 0 \<and>
            markCommitted 20 12 cc' = None)"
  by code_simp

end
