(* ===== verification/Mir_Format.thy ===== *)
theory Mir_Format
  imports Mir_Prelude
begin

text \<open>
  The verbs \<open>%d\<close> and \<open>%x\<close> of Go's \<open>fmt.Sprintf\<close>, as used in names of buffers and in keys of the request store: the printed
  text determines what was printed.
\<close>

fun decimal :: "nat \<Rightarrow> string" where
  "decimal n = (if n < 10 then [char_of (n + 48)] else decimal (n div 10) @ [char_of (n mod 10 + 48)])"

declare decimal.simps [simp del]

definition hexDigit :: "nat \<Rightarrow> char" where
  "hexDigit n = (if n < 10 then char_of (n + 48) else char_of (n + 87))"

definition hex :: "byte list \<Rightarrow> string" where
  "hex bs = concat (map (\<lambda>b. [hexDigit (unat b div 16), hexDigit (unat b mod 16)]) bs)"

section \<open>Reading back\<close>

definition digit :: "char \<Rightarrow> bool" where
  "digit c \<longleftrightarrow> 48 \<le> (of_char c :: nat) \<and> (of_char c :: nat) < 58"

definition undecimal :: "string \<Rightarrow> nat" where
  "undecimal s = foldl (\<lambda>a c. a * 10 + (of_char c - 48)) 0 s"

lemma decimal_undecimal: "undecimal (decimal n) = n"
proof (induction n rule: decimal.induct)
  case (1 n)
  have "(of_char (char_of (k + 48) :: char) :: nat) = k + 48" if "k < 10" for k :: nat using that by simp
  moreover from this have "(of_char (char_of (n mod 10 + 48) :: char) :: nat) = n mod 10 + 48" by simp
  ultimately show ?case using 1 by (subst decimal.simps) (simp add: undecimal_def)
qed

lemma decimal_inject [simp]: "decimal m = decimal n \<longleftrightarrow> m = n"
  by (metis decimal_undecimal)

lemma decimal_digits: "c \<in> set (decimal n) \<Longrightarrow> digit c"
proof (induction n rule: decimal.induct)
  case (1 n)
  have "digit (char_of (k + 48))" if "k < 10" for k :: nat using that by (simp add: digit_def)
  with 1 show ?case by (subst (asm) decimal.simps) (auto split: if_splits)
qed

text \<open>A number followed by a separator that is no digit.\<close>

lemma decimal_append_inject:
  assumes "\<not> digit c"
  shows "decimal m @ c # xs = decimal n @ c # ys \<longleftrightarrow> m = n \<and> xs = ys"
proof
  assume e: "decimal m @ c # xs = decimal n @ c # ys"
  have "takeWhile digit (decimal k @ c # zs) = decimal k" for k zs
    using assms by (simp add: takeWhile_append2 decimal_digits)
  with e have "decimal m = decimal n" by metis
  with e show "m = n \<and> xs = ys" by simp
qed simp

lemma hexDigit_inject: "m < 16 \<Longrightarrow> n < 16 \<Longrightarrow> hexDigit m = hexDigit n \<longleftrightarrow> m = n"
  by (auto simp: hexDigit_def split: if_splits dest!: arg_cong [where f = "of_char :: char \<Rightarrow> nat"])

lemma hex_inject [simp]: "hex xs = hex ys \<longleftrightarrow> xs = ys"
proof (induction xs arbitrary: ys)
  case (Cons x xs)
  have "x = y" if "unat x div 16 = unat y div 16" "unat x mod 16 = unat y mod 16" for y
    using that by (metis div_mult_mod_eq unsigned_word_eqI)
  moreover have "unat b div 16 < 16" for b :: byte using unsigned_less [of b, where 'a = nat] by simp
  ultimately show ?case
    using Cons by (cases ys) (auto simp: hex_def hexDigit_inject)
qed (cases ys, auto simp: hex_def)

end
