(* ===== verification/Mir_ClientTracker.thy ===== *)
theory Mir_ClientTracker
  imports Mir_Sequence
begin

text \<open>
  \<open>pkg/statemachine/client_tracker.go\<close>: the lists of requests that are available or ready to be proposed,
  each with one iterator that may be reset. The objects the lists and the other components share are
  kept in a store: \<open>clientHeap\<close> holds the \<open>clientReqNo\<close> and \<open>clientRequest\<close> objects of
  \<open>client_hash_disseminator.go\<close> by reference, a new object gets the next free reference. The lists of the
  tracker are nil (\<open>None\<close>) until it is reinitialized.

  An \<open>appendList\<close> refines a list with a cursor.
\<close>

section \<open>Shared objects\<close>

record clientReqNo =
  crnMyConfig :: InitialParameters
  crnNetworkConfig :: NetworkConfig
  crnClientID :: u64
  crnReqNo :: u64
  crnValidAfterSeqNo :: u64
  crnNonNullVoters :: "u64 list"
  crnRequests :: "(byte list, cr_ref) gomap"
  crnWeakRequests :: "(byte list, cr_ref) gomap"
  crnStrongRequests :: "(byte list, cr_ref) gomap"
  crnMyRequests :: "(byte list, cr_ref) gomap"
  crnCommitted :: bool
  crnAcksSent :: u64
  crnTicksSinceAck :: u64

type_synonym crn_ref = nat

record clientHeap =
  hpCr :: cr_store
  hpNextCr :: cr_ref
  hpCrn :: "crn_ref \<rightharpoonup> clientReqNo"
  hpNextCrn :: crn_ref

definition putCr :: "cr_ref \<Rightarrow> clientRequest \<Rightarrow> clientHeap \<Rightarrow> clientHeap" where
  [go_defs]: "putCr r cr h = h\<lparr>hpCr := (hpCr h)(r \<mapsto> cr)\<rparr>"

definition putCrn :: "crn_ref \<Rightarrow> clientReqNo \<Rightarrow> clientHeap \<Rightarrow> clientHeap" where
  [go_defs]: "putCrn r crn h = h\<lparr>hpCrn := (hpCrn h)(r \<mapsto> crn)\<rparr>"

definition newCr :: "clientRequest \<Rightarrow> clientHeap \<Rightarrow> cr_ref \<times> clientHeap" where
  [go_defs]: "newCr cr h = (hpNextCr h, h\<lparr>hpCr := (hpCr h)(hpNextCr h \<mapsto> cr), hpNextCr := hpNextCr h + 1\<rparr>)"

definition newCrn :: "clientReqNo \<Rightarrow> clientHeap \<Rightarrow> crn_ref \<times> clientHeap" where
  [go_defs]: "newCrn crn h = (hpNextCrn h, h\<lparr>hpCrn := (hpCrn h)(hpNextCrn h \<mapsto> crn), hpNextCrn := hpNextCrn h + 1\<rparr>)"

section \<open>Lists with one iterator\<close>

record 'a appendList =
  alConsumed :: "'a list"
  alPending :: "'a list"

definition newAppendList :: "'a appendList" where
  [go_defs]: "newAppendList = \<lparr>alConsumed = [], alPending = []\<rparr>"

definition al_resetIterator :: "'a appendList \<Rightarrow> 'a appendList" where
  [go_defs]: "al_resetIterator al = \<lparr>alConsumed = [], alPending = alConsumed al @ alPending al\<rparr>"

definition al_hasNext :: "'a appendList \<Rightarrow> bool" where
  [go_defs]: "al_hasNext al \<longleftrightarrow> length (alPending al) > 0"

definition al_next :: "'a appendList \<Rightarrow> ('a \<times> 'a appendList) option" where
  [go_defs]: "al_next al =
     (case alPending al of
        [] \<Rightarrow> None
      | v # rest \<Rightarrow> Some (v, \<lparr>alConsumed = alConsumed al @ [v], alPending = rest\<rparr>))"

definition al_pushBack :: "'a \<Rightarrow> 'a appendList \<Rightarrow> 'a appendList" where
  [go_defs]: "al_pushBack v al = al\<lparr>alPending := alPending al @ [v]\<rparr>"

text \<open>The loop that removes the elements \<open>gcFunc\<close> selects; \<open>gcFunc\<close> may panic.\<close>

fun gcList :: "('a \<Rightarrow> bool option) \<Rightarrow> 'a list \<Rightarrow> 'a list option" where
  "gcList gcFunc [] = Some []"
| "gcList gcFunc (v # vs) =
     (case gcFunc v of
        None \<Rightarrow> None
      | Some b \<Rightarrow> map_option (\<lambda>rest. if b then rest else v # rest) (gcList gcFunc vs))"

definition al_garbageCollect :: "('a \<Rightarrow> bool option) \<Rightarrow> 'a appendList \<Rightarrow> 'a appendList option" where
  [go_defs]: "al_garbageCollect gcFunc al =
     do {
       consumed \<leftarrow> gcList gcFunc (alConsumed al);
       pending \<leftarrow> gcList gcFunc (alPending al);
       Some \<lparr>alConsumed = consumed, alPending = pending\<rparr>
     }"

type_synonym readyList = "crn_ref appendList"
type_synonym availableList = "RequestAck appendList"
type_synonym stateMap = "u64 \<rightharpoonup> ClientState"

definition rl_garbageCollect :: "clientHeap \<Rightarrow> stateMap \<Rightarrow> readyList \<Rightarrow> readyList option" where
  [go_defs]: "rl_garbageCollect h clientStates rl =
     al_garbageCollect
       (\<lambda>r. do {
          crn \<leftarrow> hpCrn h r;
          st \<leftarrow> clientStates (crnClientID crn);
          isCommitted (crnReqNo crn) st
        }) rl"

definition avl_garbageCollect :: "stateMap \<Rightarrow> availableList \<Rightarrow> availableList option" where
  [go_defs]: "avl_garbageCollect states al =
     al_garbageCollect
       (\<lambda>ack. do {
          st \<leftarrow> states (ackClientId ack);
          isCommitted (ackReqNo ack) st
        }) al"

section \<open>The client tracker\<close>

record clientTracker =
  ctkMyConfig :: InitialParameters
  ctkNetworkConfig :: "NetworkConfig option"
  ctkReadyList :: "readyList option"
  ctkAvailableList :: "availableList option"
  ctkClientStates :: "ClientState list"

definition newClientTracker :: "InitialParameters \<Rightarrow> clientTracker" where
  [go_defs]: "newClientTracker myConfig =
     \<lparr>ctkMyConfig = myConfig, ctkNetworkConfig = None, ctkReadyList = None, ctkAvailableList = None, ctkClientStates = []\<rparr>"

definition ctk_reinitialize :: "NetworkState \<Rightarrow> clientTracker \<Rightarrow> clientTracker" where
  [go_defs]: "ctk_reinitialize networkState ct =
     ct\<lparr>ctkNetworkConfig := Some (nsConfig networkState), ctkClientStates := nsClients networkState,
        ctkAvailableList := Some newAppendList, ctkReadyList := Some newAppendList\<rparr>"

definition addReady :: "crn_ref \<Rightarrow> clientTracker \<Rightarrow> clientTracker option" where
  [go_defs]: "addReady crn ct =
     do { rl \<leftarrow> ctkReadyList ct; Some (ct\<lparr>ctkReadyList := Some (al_pushBack crn rl)\<rparr>) }"

definition addAvailable :: "RequestAck \<Rightarrow> clientTracker \<Rightarrow> clientTracker option" where
  [go_defs]: "addAvailable req ct =
     do { al \<leftarrow> ctkAvailableList ct; Some (ct\<lparr>ctkAvailableList := Some (al_pushBack req al)\<rparr>) }"

definition ctk_allocate :: "clientHeap \<Rightarrow> u64 \<Rightarrow> NetworkState \<Rightarrow> clientTracker \<Rightarrow> clientTracker option" where
  [go_defs]: "ctk_allocate h seqNo st ct =
     do {
       let stateMap = fold (\<lambda>client m. m(clId client \<mapsto> client)) (nsClients st) Map.empty;
       al \<leftarrow> ctkAvailableList ct;
       al \<leftarrow> avl_garbageCollect stateMap al;
       rl \<leftarrow> ctkReadyList ct;
       rl \<leftarrow> rl_garbageCollect h stateMap rl;
       Some (ct\<lparr>ctkAvailableList := Some al, ctkReadyList := Some rl\<rparr>)
     }"

section \<open>A list with a cursor\<close>

text \<open>The contract of an \<open>appendList\<close>: the elements in the order they were added, and how many were handed out.\<close>

type_synonym 'a cursor = "'a list \<times> nat"

definition c_push :: "'a \<Rightarrow> 'a cursor \<Rightarrow> 'a cursor" where
  "c_push v c = (fst c @ [v], snd c)"

definition c_next :: "'a cursor \<Rightarrow> ('a \<times> 'a cursor) option" where
  "c_next c = (if snd c < length (fst c) then Some (fst c ! snd c, fst c, Suc (snd c)) else None)"

definition c_gc :: "('a \<Rightarrow> bool) \<Rightarrow> 'a cursor \<Rightarrow> 'a cursor" where
  "c_gc sel c = (filter (\<lambda>v. \<not> sel v) (fst c), length (filter (\<lambda>v. \<not> sel v) (take (snd c) (fst c))))"

definition absAL :: "'a appendList \<Rightarrow> 'a cursor" where
  "absAL al = (alConsumed al @ alPending al, length (alConsumed al))"

lemma gcList_Some:
  "gcList gcFunc vs = Some ws \<longleftrightarrow> (\<forall>v \<in> set vs. gcFunc v \<noteq> None) \<and> ws = filter (\<lambda>v. gcFunc v = Some False) vs"
  by (induction vs arbitrary: ws) (auto split: option.splits)

lemma gcList_total: "gcList gcFunc vs = None \<longleftrightarrow> (\<exists>v \<in> set vs. gcFunc v = None)"
  by (induction vs) (auto split: option.splits)

section \<open>Properties\<close>

text \<open>C30. An append list behaves as a list with a cursor: pushing appends, resetting moves the cursor to the
  front, the next element is the one under the cursor and there is one exactly when the cursor is
  inside the list, and collecting removes the selected elements and keeps the cursor between the
  elements it was between.\<close>

theorem appendList_refines_cursor:
  "absAL (newAppendList :: 'a appendList) = ([], 0) \<and>
   absAL (al_pushBack v al) = c_push v (absAL al) \<and>
   absAL (al_resetIterator al) = (fst (absAL al), 0) \<and>
   (al_hasNext al \<longleftrightarrow> snd (absAL al) < length (fst (absAL al))) \<and>
   map_option (\<lambda>(w, al'). (w, absAL al')) (al_next al) = c_next (absAL al) \<and>
   map_option absAL (al_garbageCollect (\<lambda>w. Some (sel w)) al) = Some (c_gc sel (absAL al)) \<and>
   (al_garbageCollect gcFunc al = None \<longleftrightarrow> (\<exists>w \<in> set (fst (absAL al)). gcFunc w = None))"
proof -
  have gc: "gcList (\<lambda>w. Some (sel w)) vs = Some (filter (\<lambda>v. \<not> sel v) vs)" for vs by (induction vs) auto
  have "al_garbageCollect gcFunc al = None \<longleftrightarrow> (\<exists>w \<in> set (fst (absAL al)). gcFunc w = None)"
    by (auto simp: al_garbageCollect_def bind_eq_None_conv gcList_total absAL_def) (metis gcList_total not_None_eq)
  then show ?thesis
    by (auto simp: absAL_def newAppendList_def al_pushBack_def c_push_def al_resetIterator_def al_hasNext_def al_next_def
        c_next_def al_garbageCollect_def gc c_gc_def split: list.split)
qed

end
