(* ===== verification/Mir_Proposer.thy ===== *)
theory Mir_Proposer
  imports Mir_ClientTracker
begin

text \<open>
  \<open>pkg/statemachine/proposer.go\<close>: the requests this node proposes in the buckets it leads. The requests
  are references into the store; the iterator is the ready list of the client tracker, which the
  operations take and return. The buckets' owners are a map with the bucket numbers as keys.
\<close>

section \<open>Data\<close>

record proposalBucket =
  pbRequestCount :: u32
  pbPending :: "cr_ref list"
  pbBucketID :: u64
  pbCheckpointInterval :: u64
  pbCurrentCheckpoint :: u64
  pbReadyList :: "cr_ref list"
  pbNextReadyList :: "cr_ref list"

record proposer =
  prMyConfig :: InitialParameters
  prProposalBuckets :: "u64 \<rightharpoonup> proposalBucket"
  prTotalBuckets :: nat

section \<open>Operations\<close>

definition newProposer ::
  "u64 \<Rightarrow> u64 \<Rightarrow> InitialParameters \<Rightarrow> clientTracker \<Rightarrow> (u64, u64) gomap \<Rightarrow> (proposer \<times> clientTracker) option" where
  [go_defs]: "newProposer baseCheckpoint checkpointInterval myConfig ct buckets =
     do {
       let pbs = fold
         (\<lambda>(bucketID, i) pbs.
            if i \<noteq> ipId myConfig then pbs
            else pbs(bucketID \<mapsto>
              \<lparr>pbRequestCount = ipBatchSize myConfig, pbPending = [], pbBucketID = bucketID,
               pbCheckpointInterval = checkpointInterval, pbCurrentCheckpoint = baseCheckpoint, pbReadyList = [],
               pbNextReadyList = []\<rparr>))
         buckets Map.empty;
       rl \<leftarrow> ctkReadyList ct;
       Some (\<lparr>prMyConfig = myConfig, prProposalBuckets = pbs, prTotalBuckets = length buckets\<rparr>,
             ct\<lparr>ctkReadyList := Some (al_resetIterator rl)\<rparr>)
     }"

definition queueRequest :: "u64 \<Rightarrow> cr_ref \<Rightarrow> proposalBucket \<Rightarrow> proposalBucket option" where
  [go_defs]: "queueRequest validAfterSeqNo cr prb =
     (if pbCurrentCheckpoint prb \<ge> validAfterSeqNo then Some (prb\<lparr>pbReadyList := pbReadyList prb @ [cr]\<rparr>)
      else do {
        assert (validAfterSeqNo = pbCurrentCheckpoint prb + pbCheckpointInterval prb);
        Some (prb\<lparr>pbNextReadyList := pbNextReadyList prb @ [cr]\<rparr>)
      })"

text \<open>The loop of \<open>advance\<close> that fills the pending requests from the ready list.\<close>

fun fillPending :: "u32 \<Rightarrow> cr_ref list \<Rightarrow> cr_ref list \<Rightarrow> cr_ref list \<times> cr_ref list" where
  "fillPending requestCount pending [] = (pending, [])"
| "fillPending requestCount pending (r # ready) =
     (if of_nat (length pending) < requestCount then fillPending requestCount (pending @ [r]) ready
      else (pending, r # ready))"

definition pb_advance :: "u64 \<Rightarrow> proposalBucket \<Rightarrow> proposalBucket" where
  [go_defs]: "pb_advance toSeqNo prb =
     (let prb = (if toSeqNo \<ge> pbCurrentCheckpoint prb + pbCheckpointInterval prb
                 then prb\<lparr>pbCurrentCheckpoint := pbCurrentCheckpoint prb + pbCheckpointInterval prb,
                          pbReadyList := pbReadyList prb @ pbNextReadyList prb, pbNextReadyList := []\<rparr>
                 else prb);
          (pending, ready) = fillPending (pbRequestCount prb) (pbPending prb) (pbReadyList prb)
      in prb\<lparr>pbPending := pending, pbReadyList := ready\<rparr>)"

definition hasOutstanding :: "u64 \<Rightarrow> proposalBucket \<Rightarrow> bool \<times> proposalBucket" where
  [go_defs]: "hasOutstanding forSeqNo prb =
     (let prb = pb_advance forSeqNo prb in ((of_nat (length (pbPending prb)) :: u32) > 0, prb))"

definition hasPending :: "u64 \<Rightarrow> proposalBucket \<Rightarrow> bool \<times> proposalBucket" where
  [go_defs]: "hasPending forSeqNo prb =
     (let prb = pb_advance forSeqNo prb
      in (length (pbPending prb) > 0 \<and> of_nat (length (pbPending prb)) = pbRequestCount prb, prb))"

definition pb_next :: "proposalBucket \<Rightarrow> cr_ref list \<times> proposalBucket" where
  [go_defs]: "pb_next prb = (pbPending prb, prb\<lparr>pbPending := []\<rparr>)"

text \<open>The body of the loop of \<open>proposer.advance\<close>, for one ready request number.\<close>

definition proposeOne :: "u64 \<Rightarrow> clientHeap \<Rightarrow> crn_ref \<Rightarrow> proposer \<Rightarrow> proposer option" where
  [go_defs]: "proposeOne toSeqNo h n p =
     do {
       crn \<leftarrow> hpCrn h n;
       if crnCommitted crn then Some p
       else do {
         assert (prTotalBuckets p \<noteq> 0);
         let bucketID = (crnReqNo crn + crnClientID crn) mod of_nat (prTotalBuckets p);
         case prProposalBuckets p bucketID of
           None \<Rightarrow> Some p
         | Some prb \<Rightarrow> do {
             let prb = pb_advance toSeqNo prb;
             cr \<leftarrow> (if length (crnStrongRequests crn) > 1 then gm_lookup (crnStrongRequests crn) []
                   else (case crnStrongRequests crn of [(_, r)] \<Rightarrow> Some r | _ \<Rightarrow> None));
             prb \<leftarrow> queueRequest (crnValidAfterSeqNo crn) cr prb;
             Some (p\<lparr>prProposalBuckets := (prProposalBuckets p)(bucketID \<mapsto> prb)\<rparr>)
           }
       }
     }"

function proposeLoop :: "u64 \<Rightarrow> clientHeap \<Rightarrow> readyList \<Rightarrow> proposer \<Rightarrow> (readyList \<times> proposer) option" where
  "proposeLoop toSeqNo h rl p =
     (if \<not> al_hasNext rl then Some (rl, p)
      else case al_next rl of
        None \<Rightarrow> None
      | Some (n, rl') \<Rightarrow>
          (case proposeOne toSeqNo h n p of None \<Rightarrow> None | Some p' \<Rightarrow> proposeLoop toSeqNo h rl' p'))"
  by pat_completeness auto
termination
  by (relation "measure (\<lambda>(_, _, rl, _). length (alPending rl))") (auto simp: al_next_def split: list.splits)

declare proposeLoop.simps [simp del]

definition proposer_advance :: "u64 \<Rightarrow> clientHeap \<Rightarrow> clientTracker \<Rightarrow> proposer \<Rightarrow> (clientTracker \<times> proposer) option" where
  [go_defs]: "proposer_advance toSeqNo h ct p =
     do {
       rl \<leftarrow> ctkReadyList ct;
       (rl, p) \<leftarrow> proposeLoop toSeqNo h rl p;
       Some (ct\<lparr>ctkReadyList := Some rl\<rparr>, p)
     }"

end
