(* ===== verification/Mir_Outstanding.thy ===== *)
theory Mir_Outstanding
  imports Mir_ClientTracker
begin

text \<open>
  \<open>pkg/statemachine/outstanding.go\<close>: which request of each client may come next in a bucket, which
  requests are available and which sequences wait for one. The sequences are kept by sequence number
  in a store that the operations take and return, with the log their methods append to; the iterator is
  the available list of the client tracker. The errors of \<open>applyAcks\<close> are values of \<open>ackError\<close>.
\<close>

section \<open>Data\<close>

record clientOutstandingReqs =
  coNextReqNo :: u64
  coNumBuckets :: u64
  coClient :: ClientState

record bucketOutstandingReqs =
  boClients :: "u64 \<rightharpoonup> clientOutstandingReqs"

type_synonym seq_store = "u64 \<rightharpoonup> sequence"

record allOutstandingReqs =
  aoBuckets :: "u64 \<rightharpoonup> bucketOutstandingReqs"
  aoCorrectRequests :: "byte list \<rightharpoonup> RequestAck"
  aoOutstandingRequests :: "byte list \<rightharpoonup> u64"

datatype ackError = NoSuchClient | UnexpectedReqNo u64 u64 u64 u64

section \<open>Operations\<close>

partial_function (option) skipPreviouslyCommitted :: "clientOutstandingReqs \<Rightarrow> clientOutstandingReqs option" where
  "skipPreviouslyCommitted cors =
     do {
       committed \<leftarrow> isCommitted (coNextReqNo cors) (coClient cors);
       if \<not> committed then Some cors
       else skipPreviouslyCommitted (cors\<lparr>coNextReqNo := coNextReqNo cors + coNumBuckets cors\<rparr>)
     }"

text \<open>The state the methods change besides the requests themselves: the available list, the sequences and the log.\<close>

record seqWorld =
  swAvailable :: availableList
  swSequences :: seq_store
  swPersisted :: persisted

text \<open>The body of the loop of \<open>advanceRequests\<close>.\<close>

definition advanceRequest ::
  "clientHeap \<Rightarrow> RequestAck \<Rightarrow> allOutstandingReqs \<Rightarrow> seqWorld \<Rightarrow> (allOutstandingReqs \<times> seqWorld \<times> ActionList) option" where
  [go_defs]: "advanceRequest h ack ao w =
     (let key = bstr (ackDigest ack) in
      case aoOutstandingRequests ao key of
        Some sn \<Rightarrow> do {
          let ao = ao\<lparr>aoOutstandingRequests := (aoOutstandingRequests ao)(key := None)\<rparr>;
          seq \<leftarrow> swSequences w sn;
          (seq, p, out) \<leftarrow> satisfyOutstanding (hpCr h) ack seq (swPersisted w);
          Some (ao, w\<lparr>swSequences := (swSequences w)(sn \<mapsto> seq), swPersisted := p\<rparr>, out)
        }
      | None \<Rightarrow> Some (ao\<lparr>aoCorrectRequests := (aoCorrectRequests ao)(key \<mapsto> ack)\<rparr>, w, []))"

lemma advanceRequest_available:
  "advanceRequest h ack ao w = Some (ao', w', out) \<Longrightarrow> swAvailable w' = swAvailable w"
  by (auto simp: advanceRequest_def Let_def bind_eq_Some_conv split: option.splits)

function advanceRequests ::
  "clientHeap \<Rightarrow> allOutstandingReqs \<Rightarrow> seqWorld \<Rightarrow> (allOutstandingReqs \<times> seqWorld \<times> ActionList) option" where
  "advanceRequests h ao w =
     (if \<not> al_hasNext (swAvailable w) then Some (ao, w, [])
      else case al_next (swAvailable w) of
        None \<Rightarrow> None
      | Some (ack, al) \<Rightarrow>
          (case advanceRequest h ack ao (w\<lparr>swAvailable := al\<rparr>) of
             None \<Rightarrow> None
           | Some (ao', w', out) \<Rightarrow>
               (case advanceRequests h ao' w' of
                  None \<Rightarrow> None
                | Some (ao'', w'', out') \<Rightarrow> Some (ao'', w'', ActionList_concat out out'))))"
  by pat_completeness auto
termination
  by (relation "measure (\<lambda>(_, _, w). length (alPending (swAvailable w)))")
    (auto simp: al_next_def split: list.splits dest!: advanceRequest_available)

declare advanceRequests.simps [simp del]

text \<open>The request a client starts with in a bucket: the first of \<open>numBuckets\<close> numbers that falls into it.\<close>

fun firstInBucket :: "u64 \<Rightarrow> ClientState \<Rightarrow> NetworkConfig \<Rightarrow> nat list \<Rightarrow> u64 option" where
  "firstInBucket i c nc [] = Some 0"
| "firstInBucket i c nc (j # js) =
     do {
       let reqNo = clLowWatermark c + of_nat j;
       b \<leftarrow> clientReqToBucket (clId c) reqNo nc;
       if b = i then Some reqNo else firstInBucket i c nc js
     }"

definition newOutstandingReqs ::
  "clientHeap \<Rightarrow> NetworkState \<Rightarrow> seqWorld \<Rightarrow> (allOutstandingReqs \<times> seqWorld) option" where
  [go_defs]: "newOutstandingReqs h networkState w =
     do {
       let w = w\<lparr>swAvailable := al_resetIterator (swAvailable w)\<rparr>;
       let nc = nsConfig networkState;
       let numBuckets = sint (ncNumberOfBuckets nc);
       assert (0 \<le> numBuckets);
       buckets \<leftarrow> ofold
         (\<lambda>i buckets. do {
            clients \<leftarrow> ofold
              (\<lambda>client clients. do {
                 firstUncommitted \<leftarrow> firstInBucket (of_nat i) client nc [0..<nat numBuckets];
                 cors \<leftarrow> skipPreviouslyCommitted
                   \<lparr>coNextReqNo = firstUncommitted, coNumBuckets = scast (ncNumberOfBuckets nc), coClient = client\<rparr>;
                 Some (clients(clId client \<mapsto> cors))
               })
              (nsClients networkState) Map.empty;
            Some (buckets(of_nat i \<mapsto> \<lparr>boClients = clients\<rparr>))
          })
         [0..<nat numBuckets] Map.empty;
       (ao, w, _) \<leftarrow> advanceRequests h \<lparr>aoBuckets = buckets, aoCorrectRequests = Map.empty, aoOutstandingRequests = Map.empty\<rparr> w;
       Some (ao, w)
     }"

text \<open>The body of the loop of \<open>applyAcks\<close>: the request must be the next one of its client in the bucket.\<close>

fun applyAckLoop ::
  "u64 \<Rightarrow> u64 \<Rightarrow> RequestAck list \<Rightarrow> bucketOutstandingReqs \<Rightarrow> allOutstandingReqs \<Rightarrow> byte list list \<Rightarrow>
   (ackError + bucketOutstandingReqs \<times> allOutstandingReqs \<times> byte list list) option" where
  "applyAckLoop bucket sn [] bo ao outstanding = Some (Inr (bo, ao, outstanding))"
| "applyAckLoop bucket sn (req # reqs) bo ao outstanding =
     (case boClients bo (ackClientId req) of
        None \<Rightarrow> Some (Inl NoSuchClient)
      | Some co \<Rightarrow>
          if coNextReqNo co \<noteq> ackReqNo req
          then Some (Inl (UnexpectedReqNo (ackClientId req) bucket (coNextReqNo co) (ackReqNo req)))
          else do {
            let key = bstr (ackDigest req);
            let (ao, outstanding) = (case aoCorrectRequests ao key of
                Some _ \<Rightarrow> (ao\<lparr>aoCorrectRequests := (aoCorrectRequests ao)(key := None)\<rparr>, outstanding)
              | None \<Rightarrow> (ao\<lparr>aoOutstandingRequests := (aoOutstandingRequests ao)(key \<mapsto> sn)\<rparr>, ls_insert key outstanding));
            co \<leftarrow> skipPreviouslyCommitted (co\<lparr>coNextReqNo := coNextReqNo co + coNumBuckets co\<rparr>);
            applyAckLoop bucket sn reqs (bo\<lparr>boClients := (boClients bo)(ackClientId req \<mapsto> co)\<rparr>) ao outstanding
          })"

definition applyAcks ::
  "clientHeap \<Rightarrow> u64 \<Rightarrow> u64 \<Rightarrow> RequestAck list \<Rightarrow> allOutstandingReqs \<Rightarrow> seqWorld \<Rightarrow>
   (ackError + allOutstandingReqs \<times> seqWorld \<times> ActionList) option" where
  [go_defs]: "applyAcks h bucket sn batch ao w =
     do {
       bo \<leftarrow> aoBuckets ao bucket;
       r \<leftarrow> applyAckLoop bucket sn batch bo ao [];
       case r of
         Inl e \<Rightarrow> Some (Inl e)
       | Inr (bo, ao, outstanding) \<Rightarrow> do {
           seq \<leftarrow> swSequences w sn;
           (seq, p, actions) \<leftarrow> allocate (hpCr h) batch outstanding seq (swPersisted w);
           Some (Inr (ao\<lparr>aoBuckets := (aoBuckets ao)(bucket \<mapsto> bo)\<rparr>,
                      w\<lparr>swSequences := (swSequences w)(sn \<mapsto> seq), swPersisted := p\<rparr>, actions))
         }
     }"

end
