(* ===== verification/Mir_MsgBuffers.thy ===== *)
theory Mir_MsgBuffers
  imports Mir_Actions "HOL-Library.Sublist"
begin

text \<open>
  \<open>pkg/statemachine/msgbuffers.go\<close>: the buffers of messages that cannot be applied yet. The encoded
  size of a message (\<open>proto.Size\<close>) is the parameter \<open>psize\<close>. \<open>nodeBuffers.nodeBuffer\<close> looks a node up
  in a map nothing is ever stored in, so every message buffer gets a node buffer of its own, which is
  a field of the message buffer here; \<open>msgBufs\<close>, the set of message buffers registered with a node
  buffer, can only hold that one and is a flag.

  The interface \<open>lossy_fifo\<close> is what the components that store messages rely on.
\<close>

section \<open>Data\<close>

datatype applyable = past | current | future | invalid

record nodeBuffer =
  nbId :: u64
  nbMyConfig :: InitialParameters
  nbTotalSize :: int
  nbRegistered :: bool

record nodeBuffers =
  nbsMyConfig :: InitialParameters
  nbsNodeMap :: "u64 \<rightharpoonup> nodeBuffer"

record msgBuffer =
  mbComponent :: string
  mbBuffer :: "Msg list"
  mbNodeBuffer :: nodeBuffer

section \<open>Operations\<close>

definition newNodeBuffers :: "InitialParameters \<Rightarrow> nodeBuffers" where
  [go_defs]: "newNodeBuffers myConfig = \<lparr>nbsMyConfig = myConfig, nbsNodeMap = Map.empty\<rparr>"

definition nodeBuffers_nodeBuffer :: "u64 \<Rightarrow> nodeBuffers \<Rightarrow> nodeBuffer" where
  [go_defs]: "nodeBuffers_nodeBuffer source nbs =
     (case nbsNodeMap nbs source of
        Some nb \<Rightarrow> nb
      | None \<Rightarrow> \<lparr>nbId = source, nbMyConfig = nbsMyConfig nbs, nbTotalSize = 0, nbRegistered = False\<rparr>)"

definition msgRemoved :: "(Msg \<Rightarrow> nat) \<Rightarrow> Msg \<Rightarrow> nodeBuffer \<Rightarrow> nodeBuffer" where
  [go_defs]: "msgRemoved psize msg nb = nb\<lparr>nbTotalSize := nbTotalSize nb - int (psize msg)\<rparr>"

definition msgStored :: "(Msg \<Rightarrow> nat) \<Rightarrow> Msg \<Rightarrow> nodeBuffer \<Rightarrow> nodeBuffer" where
  [go_defs]: "msgStored psize msg nb = nb\<lparr>nbTotalSize := nbTotalSize nb + int (psize msg)\<rparr>"

definition overCapacity :: "nodeBuffer \<Rightarrow> bool" where
  [go_defs]: "overCapacity nb \<longleftrightarrow> nbTotalSize nb > uint (ipBufferSize (nbMyConfig nb))"

definition addMsgBuffer :: "nodeBuffer \<Rightarrow> nodeBuffer" where
  [go_defs]: "addMsgBuffer nb = nb\<lparr>nbRegistered := True\<rparr>"

definition removeMsgBuffer :: "nodeBuffer \<Rightarrow> nodeBuffer" where
  [go_defs]: "removeMsgBuffer nb = nb\<lparr>nbRegistered := False\<rparr>"

definition newMsgBuffer :: "string \<Rightarrow> nodeBuffer \<Rightarrow> msgBuffer" where
  [go_defs]: "newMsgBuffer component nb = \<lparr>mbComponent = component, mbBuffer = [], mbNodeBuffer = nb\<rparr>"

text \<open>\<open>remove\<close> of the element at position \<open>length kept\<close> of \<open>kept @ msg # after\<close>.\<close>

definition mb_remove :: "(Msg \<Rightarrow> nat) \<Rightarrow> Msg list \<Rightarrow> Msg \<Rightarrow> Msg list \<Rightarrow> msgBuffer \<Rightarrow> msgBuffer" where
  [go_defs]: "mb_remove psize kept msg after mb =
     (let buffer = kept @ after;
          nb = msgRemoved psize msg (mbNodeBuffer mb);
          nb = (if length buffer = 0 then removeMsgBuffer nb else nb)
      in mb\<lparr>mbBuffer := buffer, mbNodeBuffer := nb\<rparr>)"

text \<open>The loop of \<open>store\<close> that drops messages from the front; the argument is the buffer's content.\<close>

fun flush :: "(Msg \<Rightarrow> nat) \<Rightarrow> Msg list \<Rightarrow> msgBuffer \<Rightarrow> msgBuffer" where
  "flush psize [] mb = mb"
| "flush psize (e # es) mb =
     (if overCapacity (mbNodeBuffer mb) then flush psize es (mb_remove psize [] e es mb) else mb)"

definition store :: "(Msg \<Rightarrow> nat) \<Rightarrow> Msg \<Rightarrow> msgBuffer \<Rightarrow> msgBuffer" where
  [go_defs]: "store psize msg mb =
     (let mb = flush psize (mbBuffer mb) mb;
          mb = mb\<lparr>mbBuffer := mbBuffer mb @ [msg], mbNodeBuffer := msgStored psize msg (mbNodeBuffer mb)\<rparr>
      in if length (mbBuffer mb) = 1 then mb\<lparr>mbNodeBuffer := addMsgBuffer (mbNodeBuffer mb)\<rparr> else mb)"

text \<open>
  The loops of \<open>next\<close> and \<open>iterate\<close> hold the elements already passed and kept (\<open>kept\<close>) and those from
  the current element on. \<open>iterate\<close> threads the state its callbacks read and change; a callback may
  panic. The callbacks do not touch the buffer that is iterated.
\<close>

fun nextLoop ::
  "(Msg \<Rightarrow> nat) \<Rightarrow> (u64 \<Rightarrow> Msg \<Rightarrow> applyable option) \<Rightarrow> Msg list \<Rightarrow> Msg list \<Rightarrow> msgBuffer \<Rightarrow>
   (Msg option \<times> msgBuffer) option" where
  "nextLoop psize flt kept [] mb = Some (None, mb)"
| "nextLoop psize flt kept (msg # es) mb =
     (case flt (nbId (mbNodeBuffer mb)) msg of
        None \<Rightarrow> None
      | Some past \<Rightarrow> nextLoop psize flt kept es (mb_remove psize kept msg es mb)
      | Some current \<Rightarrow> Some (Some msg, mb_remove psize kept msg es mb)
      | Some future \<Rightarrow> nextLoop psize flt (kept @ [msg]) es mb
      | Some invalid \<Rightarrow> nextLoop psize flt kept es (mb_remove psize kept msg es mb))"

definition mb_next ::
  "(Msg \<Rightarrow> nat) \<Rightarrow> (u64 \<Rightarrow> Msg \<Rightarrow> applyable option) \<Rightarrow> msgBuffer \<Rightarrow> (Msg option \<times> msgBuffer) option" where
  [go_defs]: "mb_next psize flt mb = nextLoop psize flt [] (mbBuffer mb) mb"

fun iterateLoop ::
  "(Msg \<Rightarrow> nat) \<Rightarrow> ('s \<Rightarrow> u64 \<Rightarrow> Msg \<Rightarrow> applyable option) \<Rightarrow> (u64 \<Rightarrow> Msg \<Rightarrow> 's \<Rightarrow> 's option) \<Rightarrow>
   Msg list \<Rightarrow> Msg list \<Rightarrow> msgBuffer \<Rightarrow> 's \<Rightarrow> (msgBuffer \<times> 's) option" where
  "iterateLoop psize flt app kept [] mb s = Some (mb, s)"
| "iterateLoop psize flt app kept (msg # es) mb s =
     (case flt s (nbId (mbNodeBuffer mb)) msg of
        None \<Rightarrow> None
      | Some past \<Rightarrow> iterateLoop psize flt app kept es (mb_remove psize kept msg es mb) s
      | Some current \<Rightarrow>
          (case app (nbId (mbNodeBuffer mb)) msg s of
             None \<Rightarrow> None
           | Some s' \<Rightarrow> iterateLoop psize flt app kept es (mb_remove psize kept msg es mb) s')
      | Some future \<Rightarrow> iterateLoop psize flt app (kept @ [msg]) es mb s
      | Some invalid \<Rightarrow> iterateLoop psize flt app kept es (mb_remove psize kept msg es mb) s)"

definition mb_iterate ::
  "(Msg \<Rightarrow> nat) \<Rightarrow> ('s \<Rightarrow> u64 \<Rightarrow> Msg \<Rightarrow> applyable option) \<Rightarrow> (u64 \<Rightarrow> Msg \<Rightarrow> 's \<Rightarrow> 's option) \<Rightarrow>
   msgBuffer \<Rightarrow> 's \<Rightarrow> (msgBuffer \<times> 's) option" where
  [go_defs]: "mb_iterate psize flt app mb s = iterateLoop psize flt app [] (mbBuffer mb) mb s"

section \<open>Accounting\<close>

text \<open>The recorded size is the size of the messages held, and a buffer is registered when it holds any.\<close>

definition bufSize :: "(Msg \<Rightarrow> nat) \<Rightarrow> Msg list \<Rightarrow> int" where
  "bufSize psize ms = int (sum_list (map psize ms))"

definition mbInv :: "(Msg \<Rightarrow> nat) \<Rightarrow> msgBuffer \<Rightarrow> bool" where
  "mbInv psize mb \<longleftrightarrow> nbTotalSize (mbNodeBuffer mb) = bufSize psize (mbBuffer mb) \<and>
     (nbRegistered (mbNodeBuffer mb) \<longleftrightarrow> mbBuffer mb \<noteq> [])"

definition capacity :: "msgBuffer \<Rightarrow> int" where
  "capacity mb = uint (ipBufferSize (nbMyConfig (mbNodeBuffer mb)))"

lemma bufSize_simps [simp]:
  "bufSize psize [] = 0" "bufSize psize (m # ms) = int (psize m) + bufSize psize ms"
  "bufSize psize (ms @ ns) = bufSize psize ms + bufSize psize ns"
  by (simp_all add: bufSize_def)

lemma bufSize_nonneg [simp]: "0 \<le> bufSize psize ms"
  by (simp add: bufSize_def)

lemma mb_remove_simps [simp]:
  "mbBuffer (mb_remove psize kept msg after mb) = kept @ after"
  "nbId (mbNodeBuffer (mb_remove psize kept msg after mb)) = nbId (mbNodeBuffer mb)"
  "mbComponent (mb_remove psize kept msg after mb) = mbComponent mb"
  "nbMyConfig (mbNodeBuffer (mb_remove psize kept msg after mb)) = nbMyConfig (mbNodeBuffer mb)"
  "capacity (mb_remove psize kept msg after mb) = capacity mb"
  by (simp_all add: mb_remove_def Let_def msgRemoved_def removeMsgBuffer_def capacity_def)

lemma mb_remove_inv:
  assumes "mbInv psize mb" and "mbBuffer mb = kept @ msg # after"
  shows "mbInv psize (mb_remove psize kept msg after mb)"
  using assms by (auto simp: mbInv_def mb_remove_def Let_def msgRemoved_def removeMsgBuffer_def)

text \<open>Flushing drops as few messages as needed from the front.\<close>

fun fitting :: "(Msg \<Rightarrow> nat) \<Rightarrow> int \<Rightarrow> Msg list \<Rightarrow> Msg list" where
  "fitting psize cap [] = []"
| "fitting psize cap (m # ms) = (if bufSize psize (m # ms) > cap then fitting psize cap ms else m # ms)"

lemma fitting_suffix: "suffix (fitting psize cap ms) ms"
  by (induction ms) (auto intro: suffix_ConsI)

lemma fitting_bound: "bufSize psize (fitting psize cap ms) \<le> max cap 0"
  by (induction ms) auto

lemma flush_spec:
  assumes "mbInv psize mb" and "mbBuffer mb = ms"
  shows "mbInv psize (flush psize ms mb) \<and> mbBuffer (flush psize ms mb) = fitting psize (capacity mb) ms \<and>
    capacity (flush psize ms mb) = capacity mb \<and>
    nbId (mbNodeBuffer (flush psize ms mb)) = nbId (mbNodeBuffer mb)"
  using assms
proof (induction ms arbitrary: mb)
  case Nil
  then show ?case by simp
next
  case (Cons m ms)
  have "mbInv psize (mb_remove psize [] m ms mb)" by (rule mb_remove_inv) (use Cons.prems in simp_all)
  moreover have "overCapacity (mbNodeBuffer mb) \<longleftrightarrow> bufSize psize (m # ms) > capacity mb"
    using Cons.prems by (simp add: overCapacity_def capacity_def mbInv_def)
  ultimately show ?case using Cons.prems Cons.IH [of "mb_remove psize [] m ms mb"] by simp
qed

lemma store_spec:
  assumes "mbInv psize mb"
  shows "mbInv psize (store psize msg mb) \<and>
    mbBuffer (store psize msg mb) = fitting psize (capacity mb) (mbBuffer mb) @ [msg] \<and>
    capacity (store psize msg mb) = capacity mb \<and>
    nbId (mbNodeBuffer (store psize msg mb)) = nbId (mbNodeBuffer mb)"
  using flush_spec [OF assms refl]
  by (auto simp: store_def Let_def mbInv_def msgStored_def addMsgBuffer_def capacity_def)

section \<open>The interface of a message store\<close>

locale lossy_fifo =
  fixes items :: "'b \<Rightarrow> 'm list"
    and put :: "'m \<Rightarrow> 'b \<Rightarrow> 'b"
    and ok :: "'b \<Rightarrow> bool"
  assumes put_ok: "ok b \<Longrightarrow> ok (put m b)"
    and put_items: "ok b \<Longrightarrow> \<exists>ys. items (put m b) = ys @ [m] \<and> suffix ys (items b)"
begin

lemma put_all_items:
  assumes "ok b"
  shows "ok (fold put ms b) \<and> suffix (items (fold put ms b)) (items b @ ms) \<and>
    (ms \<noteq> [] \<longrightarrow> items (fold put ms b) \<noteq> [] \<and> last (items (fold put ms b)) = last ms)"
  using assms
proof (induction ms arbitrary: b)
  case Nil
  then show ?case by simp
next
  case (Cons m ms)
  obtain ys where ys: "items (put m b) = ys @ [m]" "suffix ys (items b)"
    using put_items [OF Cons.prems] by blast
  have IH: "ok (fold put ms (put m b))" "suffix (items (fold put ms (put m b))) (items (put m b) @ ms)"
    "ms \<noteq> [] \<longrightarrow> items (fold put ms (put m b)) \<noteq> [] \<and> last (items (fold put ms (put m b))) = last ms"
    using Cons.IH [OF put_ok [OF Cons.prems]] by auto
  have "suffix (items (put m b) @ ms) (items b @ m # ms)"
    using ys by (auto simp: suffix_def)
  then show ?case using IH ys by (cases "ms = []") (auto intro: suffix_order.trans)
qed

end

interpretation mbuf: lossy_fifo mbBuffer "store psize" "mbInv psize" for psize
proof
  fix b m assume "mbInv psize b"
  from store_spec [OF this, of m] show "mbInv psize (store psize m b)"
    and "\<exists>ys. mbBuffer (store psize m b) = ys @ [m] \<and> suffix ys (mbBuffer b)"
    using fitting_suffix by auto
qed

section \<open>Reading a buffer\<close>

lemma nextLoop_spec:
  assumes "mbInv psize mb" and "mbBuffer mb = kept @ es" and "f = flt (nbId (mbNodeBuffer mb))"
  shows "\<exists>mb'. nextLoop psize (\<lambda>src m. Some (flt src m)) kept es mb =
      Some (case dropWhile (\<lambda>m. f m \<noteq> current) es of [] \<Rightarrow> None | m # _ \<Rightarrow> Some m, mb') \<and> mbInv psize mb' \<and>
    mbBuffer mb' = kept @ filter (\<lambda>m. f m = future) (takeWhile (\<lambda>m. f m \<noteq> current) es) @
      tl (dropWhile (\<lambda>m. f m \<noteq> current) es)"
  using assms
proof (induction es arbitrary: kept mb)
  case Nil
  then show ?case by simp
next
  case (Cons m es)
  have rem: "mbInv psize (mb_remove psize kept m es mb)" by (rule mb_remove_inv [OF Cons.prems(1,2)])
  show ?case
  proof (cases "f m")
    case future
    then show ?thesis using Cons.IH [of mb "kept @ [m]"] Cons.prems by auto
  qed (use Cons.IH [OF rem, of kept] rem Cons.prems in auto)
qed

lemma iterateLoop_inv:
  assumes "mbInv psize mb" and "mbBuffer mb = kept @ es" and "iterateLoop psize flt app kept es mb s = Some (mb', s')"
  shows "mbInv psize mb' \<and> nbId (mbNodeBuffer mb') = nbId (mbNodeBuffer mb) \<and>
    (\<exists>ks. mbBuffer mb' = kept @ ks \<and> subseq ks es)"
  using assms
proof (induction es arbitrary: kept mb s)
  case Nil
  then show ?case by auto
next
  case (Cons m es)
  have rem: "mbInv psize (mb_remove psize kept m es mb)" by (rule mb_remove_inv [OF Cons.prems(1,2)])
  have skip: ?case if "iterateLoop psize flt app kept es (mb_remove psize kept m es mb) t = Some (mb', s')" for t
    using Cons.IH [OF rem _ that] by auto
  from Cons.prems(3) obtain a where a: "flt s (nbId (mbNodeBuffer mb)) m = Some a" by (auto split: option.splits)
  show ?case
  proof (cases a)
    case future
    then have "iterateLoop psize flt app (kept @ [m]) es mb s = Some (mb', s')" using Cons.prems(3) a by simp
    from Cons.IH [OF Cons.prems(1) _ this] Cons.prems(2) show ?thesis by auto
  qed (use Cons.prems(3) a skip in \<open>auto split: option.splits\<close>)
qed

lemma iterateLoop_rel:
  assumes "iterateLoop psize flt app kept es mb s = Some (mb', s')"
    and app: "\<And>src m s s'. app src m s = Some s' \<Longrightarrow> R s s'"
    and R: "\<And>s. R s s" "\<And>a b c. R a b \<Longrightarrow> R b c \<Longrightarrow> R a c"
  shows "R s s'"
  using assms(1)
proof (induction es arbitrary: kept mb s)
  case (Cons m es)
  then show ?case by (auto split: option.splits applyable.splits intro: R(2) [OF app])
qed (auto intro: R)

text \<open>With a filter that does not look at the state, the current messages are applied in order.\<close>

lemma iterateLoop_spec:
  assumes "mbInv psize mb" and "mbBuffer mb = kept @ es" and "f = flt (nbId (mbNodeBuffer mb))"
  shows "map_option (\<lambda>(mb', s'). (mbBuffer mb', s')) (iterateLoop psize (\<lambda>_ src m. Some (flt src m)) app kept es mb s) =
    map_option (\<lambda>s'. (kept @ filter (\<lambda>m. f m = future) es, s'))
      (ofold (app (nbId (mbNodeBuffer mb))) (filter (\<lambda>m. f m = current) es) s)"
  using assms
proof (induction es arbitrary: kept mb s)
  case Nil
  then show ?case by simp
next
  case (Cons m es)
  have rem: "mbInv psize (mb_remove psize kept m es mb)" by (rule mb_remove_inv [OF Cons.prems(1,2)])
  show ?case
  proof (cases "f m")
    case future
    then show ?thesis using Cons.IH [of mb "kept @ [m]"] Cons.prems by simp
  qed (use Cons.IH [OF rem, of kept] Cons.prems in \<open>simp_all split: option.split\<close>)
qed

section \<open>Properties\<close>

definition sampleBuffer :: msgBuffer where
  "sampleBuffer = newMsgBuffer ''checkpoints'' (nodeBuffers_nodeBuffer 2 (newNodeBuffers
     \<lparr>ipId = 0, ipBatchSize = 1, ipHeartbeatTicks = 1, ipSuspectTicks = 1, ipNewEpochTimeoutTicks = 1,
      ipBufferSize = 100\<rparr>))"

lemma sampleBuffer_inv: "mbInv psize sampleBuffer"
  by (simp add: mbInv_def sampleBuffer_def newMsgBuffer_def nodeBuffers_nodeBuffer_def newNodeBuffers_def)

text \<open>C28. Storing a message keeps the newest messages that fit: the oldest ones are dropped until the rest is
  within the configured size (or nothing is left), then the message is appended; the recorded size is
  the sum of the sizes held and never exceeds the configured size by more than that message.\<close>

theorem store_bounded:
  assumes "mbInv psize mb"
  shows "mbInv psize (store psize msg mb) \<and>
    (\<exists>dropped kept. mbBuffer mb = dropped @ kept \<and> mbBuffer (store psize msg mb) = kept @ [msg] \<and>
       (dropped \<noteq> [] \<longrightarrow> bufSize psize (last dropped # kept) > capacity mb)) \<and>
    nbTotalSize (mbNodeBuffer (store psize msg mb)) \<le> capacity mb + int (psize msg)"
proof -
  have fit: "\<exists>dropped. ms = dropped @ fitting psize cap ms \<and>
      (dropped \<noteq> [] \<longrightarrow> bufSize psize (last dropped # fitting psize cap ms) > cap)" for cap ms
  proof (induction ms)
    case (Cons m ms)
    then obtain d where d: "ms = d @ fitting psize cap ms"
      "d \<noteq> [] \<longrightarrow> bufSize psize (last d # fitting psize cap ms) > cap" by blast
    show ?case
    proof (cases "bufSize psize (m # ms) > cap")
      case True
      then have "m # ms = (m # d) @ fitting psize cap (m # ms)" using d(1) by simp
      moreover have "bufSize psize (last (m # d) # fitting psize cap (m # ms)) > cap"
        using True d by (cases "d = []") auto
      ultimately show ?thesis by blast
    qed auto
  qed simp
  have "0 \<le> capacity mb" by (simp add: capacity_def)
  then have "bufSize psize (fitting psize (capacity mb) (mbBuffer mb)) \<le> capacity mb"
    using fitting_bound [of psize "capacity mb" "mbBuffer mb"] by simp
  then show ?thesis using store_spec [OF assms, of msg] fit [of "mbBuffer mb" "capacity mb"] by (auto simp: mbInv_def)
qed

theorem store_bounded_witness:
  "let mb = store (\<lambda>_. 60) (Msg_Suspect 1) sampleBuffer; mb = store (\<lambda>_. 60) (Msg_Suspect 2) mb
   in mbInv (\<lambda>_. 60) (store (\<lambda>_. 60) (Msg_Suspect 3) mb) \<and>
     nbTotalSize (mbNodeBuffer (store (\<lambda>_. 60) (Msg_Suspect 3) mb)) \<le> capacity mb + 60"
proof -
  let ?mb = "store (\<lambda>_. 60) (Msg_Suspect 2) (store (\<lambda>_. 60) (Msg_Suspect 1) sampleBuffer)"
  have "mbInv (\<lambda>_. 60) ?mb" using store_spec sampleBuffer_inv by blast
  from store_bounded [OF this, of "Msg_Suspect 3"] show ?thesis by (simp add: Let_def)
qed

text \<open>Asking a buffer for the next message returns the first one the filter calls current; the past and
  invalid ones before it are removed, the future ones before it and everything after it stay in
  order, and the accounting stays correct.\<close>

theorem next_returns_first_current:
  assumes inv: "mbInv psize mb" and f: "f = flt (nbId (mbNodeBuffer mb))"
  shows "\<exists>mb'. mbInv psize mb' \<and>
    (case dropWhile (\<lambda>m. f m \<noteq> current) (mbBuffer mb) of
       [] \<Rightarrow> mb_next psize (\<lambda>src m. Some (flt src m)) mb = Some (None, mb') \<and> mbBuffer mb' = filter (\<lambda>m. f m = future) (mbBuffer mb)
     | m # rest \<Rightarrow> mb_next psize (\<lambda>src m. Some (flt src m)) mb = Some (Some m, mb') \<and>
         mbBuffer mb' = filter (\<lambda>m. f m = future) (takeWhile (\<lambda>m. f m \<noteq> current) (mbBuffer mb)) @ rest)"
proof -
  let ?d = "dropWhile (\<lambda>m. f m \<noteq> current) (mbBuffer mb)" and ?t = "takeWhile (\<lambda>m. f m \<noteq> current) (mbBuffer mb)"
  obtain mb' where mb': "mb_next psize (\<lambda>src m. Some (flt src m)) mb = Some (case ?d of [] \<Rightarrow> None | m # _ \<Rightarrow> Some m, mb')" "mbInv psize mb'"
      "mbBuffer mb' = filter (\<lambda>m. f m = future) ?t @ tl ?d"
    using nextLoop_spec [of psize mb "[]" "mbBuffer mb" f flt] inv f by (auto simp: mb_next_def)
  have "?t @ ?d = mbBuffer mb" by simp
  then have "?d = [] \<Longrightarrow> ?t = mbBuffer mb" by (metis append_Nil2)
  then show ?thesis using mb' by (intro exI [of _ mb']) (cases ?d; simp only: list.case list.sel append_Nil2 simp_thms)
qed

theorem next_returns_first_current_witness:
  "let mb = store (\<lambda>_. 1) (Msg_Suspect 7) (store (\<lambda>_. 1) (Msg_Suspect 5) sampleBuffer);
       flt = \<lambda>_ m. if m = Msg_Suspect 7 then current else future
   in map_option fst (mb_next (\<lambda>_. 1) (\<lambda>src m. Some (flt src m)) mb) = Some (Some (Msg_Suspect 7))"
proof -
  let ?mb = "store (\<lambda>_. 1) (Msg_Suspect 7) (store (\<lambda>_. 1) (Msg_Suspect 5) sampleBuffer)"
  let ?flt = "\<lambda>_ m. if m = Msg_Suspect 7 then current else future"
  have "mbInv (\<lambda>_. 1) ?mb" using store_spec sampleBuffer_inv by blast
  moreover have "mbBuffer ?mb = [Msg_Suspect 5, Msg_Suspect 7]" by code_simp
  ultimately show ?thesis
    using next_returns_first_current [of "\<lambda>_. 1" ?mb "?flt 0" ?flt] by (auto simp: Let_def)
qed

text \<open>Iterating over a buffer with a filter that does not change meanwhile applies exactly the current
  messages, each once and in the order they arrived, and keeps exactly the future ones.\<close>

theorem iterate_applies_current:
  assumes inv: "mbInv psize mb" and f: "f = flt (nbId (mbNodeBuffer mb))"
  shows "map_option (\<lambda>(mb', s'). (mbBuffer mb', s')) (mb_iterate psize (\<lambda>_ src m. Some (flt src m)) app mb s) =
    map_option (\<lambda>s'. (filter (\<lambda>m. f m = future) (mbBuffer mb), s'))
      (ofold (app (nbId (mbNodeBuffer mb))) (filter (\<lambda>m. f m = current) (mbBuffer mb)) s)"
  using iterateLoop_spec [of psize mb "[]" "mbBuffer mb" f flt] inv f by (simp add: mb_iterate_def)

theorem iterate_applies_current_witness:
  "let mb = store (\<lambda>_. 1) (Msg_Suspect 7) (store (\<lambda>_. 1) (Msg_Suspect 5) sampleBuffer)
   in map_option (\<lambda>(mb', s'). (mbBuffer mb', s'))
        (mb_iterate (\<lambda>_. 1) (\<lambda>_ _ m. Some (if m = Msg_Suspect 7 then current else future)) (\<lambda>_ m s. Some (s @ [m])) mb []) =
      Some ([Msg_Suspect 5], [Msg_Suspect 7])"
proof -
  let ?mb = "store (\<lambda>_. 1) (Msg_Suspect 7) (store (\<lambda>_. 1) (Msg_Suspect 5) sampleBuffer)"
  have "mbInv (\<lambda>_. 1) ?mb" using store_spec sampleBuffer_inv by blast
  moreover have "mbBuffer ?mb = [Msg_Suspect 5, Msg_Suspect 7]" by code_simp
  ultimately show ?thesis
    using iterate_applies_current [of "\<lambda>_. 1" ?mb "\<lambda>m. if m = Msg_Suspect 7 then current else future"
        "\<lambda>_ m. if m = Msg_Suspect 7 then current else future" "\<lambda>_ m s. Some (s @ [m])" "[]"] by (simp add: Let_def)
qed

end
