(* ===== verification/Mir_EpochActive.thy ===== *)
theory Mir_EpochActive
  imports Mir_Format Mir_Proposer Mir_Outstanding Mir_CommitState Mir_MsgBuffers
begin

text \<open>
  \<open>pkg/statemachine/epoch_active.go\<close>: the sequences of the epoch in progress, who proposes in which
  bucket, and the messages that are too early. What the active epoch shares with other components (the
  log, the commit state, the client tracker and the store of client objects) is the record \<open>epochWorld\<close>,
  which its operations take and return. A sequence object belongs to one sequence number of the epoch,
  so \<open>sequences\<close> holds the numbers and the objects are in a store by number; one that left the window may
  still be reached by a request it waits for.
\<close>

section \<open>Data\<close>

record preprepareBuffer =
  ppbNextSeqNo :: u64
  ppbBuffer :: msgBuffer

record activeEpoch =
  aeEpochConfig :: EpochConfig
  aeNetworkConfig :: NetworkConfig
  aeMyConfig :: InitialParameters
  aeOutstandingReqs :: allOutstandingReqs
  aeProposer :: proposer
  aeBuckets :: "(u64, u64) gomap"
  aeSequences :: "u64 list list"
  aeSeqStore :: seq_store
  aePreprepareBuffers :: "preprepareBuffer list"
  aeOtherBuffers :: "u64 \<rightharpoonup> msgBuffer"
  aeLowestUncommitted :: u64
  aeLowestUnallocated :: "u64 list"
  aeLastCommittedAtTick :: u64
  aeTicksSinceProgress :: u32

record epochWorld =
  ewPersisted :: persisted
  ewCommitState :: commitState
  ewTracker :: clientTracker
  ewHeap :: clientHeap

type_synonym aeState = "activeEpoch \<times> epochWorld"
type_synonym aeResult = "(aeState \<times> ActionList) option"

text \<open>\<open>fmt.Sprintf\<close> of the name of a buffer.\<close>

definition bufferName :: "u64 \<Rightarrow> string \<Rightarrow> string" where
  [go_defs]: "bufferName epoch kind = ''epoch-'' @ decimal (unat epoch) @ ''-'' @ kind"

section \<open>Watermarks and sequences\<close>

text \<open>A bucket that is not in the map has owner 0.\<close>

definition bucketOwner :: "u64 \<Rightarrow> activeEpoch \<Rightarrow> u64" where
  [go_defs]: "bucketOwner b e = (case gm_lookup (aeBuckets e) b of None \<Rightarrow> 0 | Some i \<Rightarrow> i)"

definition ae_seqToBucket :: "u64 \<Rightarrow> activeEpoch \<Rightarrow> u64 option" where
  [go_defs]: "ae_seqToBucket seqNo e = seqToBucket seqNo (aeNetworkConfig e)"

definition ae_lowWatermark :: "activeEpoch \<Rightarrow> u64 option" where
  [go_defs]: "ae_lowWatermark e =
     (case aeSequences e of
        (sn # _) # _ \<Rightarrow> map_option sqSeqNo (aeSeqStore e sn)
      | _ \<Rightarrow> None)"

definition ae_highWatermark :: "aeState \<Rightarrow> u64 option" where
  [go_defs]: "ae_highWatermark ew =
     (case ew of (e, w) \<Rightarrow>
        if length (aeSequences e) = 0 then Some (csLowWatermark (ewCommitState w))
        else let interval = last (aeSequences e) in
          if interval = [] then None else map_option sqSeqNo (aeSeqStore e (last interval)))"

definition ae_sequence :: "u64 \<Rightarrow> activeEpoch \<Rightarrow> sequence option" where
  [go_defs]: "ae_sequence seqNo e =
     do {
       let ci = sint (ncCheckpointInterval (aeNetworkConfig e));
       low \<leftarrow> ae_lowWatermark e;
       assert (ci \<noteq> 0);
       let ciIndex = sint (seqNo - low) sdiv ci;
       let ciOffset = sint (seqNo - low) smod ci;
       assert (\<not> (ciIndex \<ge> int (length (aeSequences e)) \<or> ciIndex < 0 \<or> ciOffset < 0));
       interval \<leftarrow> slice_get (aeSequences e) ciIndex;
       sn \<leftarrow> slice_get interval ciOffset;
       seq \<leftarrow> aeSeqStore e sn;
       assert (sqSeqNo seq = seqNo);
       Some seq
     }"

definition ae_inWatermarks :: "u64 \<Rightarrow> aeState \<Rightarrow> bool option" where
  [go_defs]: "ae_inWatermarks seqNo ew =
     do {
       low \<leftarrow> ae_lowWatermark (fst ew);
       if \<not> seqNo \<ge> low then Some False
       else do { high \<leftarrow> ae_highWatermark ew; Some (seqNo \<le> high) }
     }"

text \<open>Calling a method of a sequence: the changed sequence and log are written back.\<close>

definition onSequence ::
  "(cr_store \<Rightarrow> sequence \<Rightarrow> persisted \<Rightarrow> seqResult) \<Rightarrow> sequence \<Rightarrow> aeState \<Rightarrow> aeResult" where
  [go_defs]: "onSequence f seq ew =
     (case ew of (e, w) \<Rightarrow> do {
        (seq', p, out) \<leftarrow> f (hpCr (ewHeap w)) seq (ewPersisted w);
        Some ((e\<lparr>aeSeqStore := (aeSeqStore e)(sqSeqNo seq \<mapsto> seq')\<rparr>, w\<lparr>ewPersisted := p\<rparr>), out)
      })"

section \<open>Starting an epoch\<close>

text \<open>The owner of every bucket: the leaders in rotation, the leaders in turn for the other nodes' buckets.\<close>

fun assignBuckets :: "NetworkConfig \<Rightarrow> EpochConfig \<Rightarrow> nat list \<Rightarrow> nat \<Rightarrow> (u64, u64) gomap \<Rightarrow> (u64, u64) gomap option" where
  "assignBuckets nc ec [] overflowIndex buckets = Some buckets"
| "assignBuckets nc ec (i # is) overflowIndex buckets =
     do {
       assert (ncNodes nc \<noteq> []);
       leader \<leftarrow> slice_get (ncNodes nc) (sint ((of_nat i + epNumber ec) mod of_nat (length (ncNodes nc))));
       if leader \<notin> set (epLeaders ec)
       then do {
         assert (epLeaders ec \<noteq> []);
         assignBuckets nc ec is (overflowIndex + 1)
           (gm_update (of_nat i) (epLeaders ec ! (overflowIndex mod length (epLeaders ec))) buckets)
       }
       else assignBuckets nc ec is overflowIndex (gm_update (of_nat i) leader buckets)
     }"

definition initUnallocated :: "NetworkConfig \<Rightarrow> u64 \<Rightarrow> nat \<Rightarrow> u64 list option" where
  [go_defs]: "initUnallocated nc startingSeqNo n =
     ofold (\<lambda>i lus. do {
              let firstSeqNo = startingSeqNo + of_nat (i + 1);
              b \<leftarrow> seqToBucket firstSeqNo nc;
              slice_set lus (sint b) firstSeqNo
            }) [0..<n] (replicate n 0)"

definition newActiveEpoch :: "EpochConfig \<Rightarrow> nodeBuffers \<Rightarrow> InitialParameters \<Rightarrow> epochWorld \<Rightarrow> aeState option" where
  [go_defs]: "newActiveEpoch epochConfig nbs myConfig w =
     do {
       active \<leftarrow> csActiveState (ewCommitState w);
       let nc = nsConfig active;
       let startingSeqNo = csHighestCommit (ewCommitState w);
       al \<leftarrow> ctkAvailableList (ewTracker w);
       (ao, sw) \<leftarrow> newOutstandingReqs (ewHeap w) active
         \<lparr>swAvailable = al, swSequences = Map.empty, swPersisted = ewPersisted w\<rparr>;
       let ct = (ewTracker w)\<lparr>ctkAvailableList := Some (swAvailable sw)\<rparr>;
       buckets \<leftarrow> assignBuckets nc epochConfig [0..<nat (sint (ncNumberOfBuckets nc))] 0 [];
       lus \<leftarrow> initUnallocated nc startingSeqNo (length buckets);
       (pr, ct) \<leftarrow> newProposer startingSeqNo (scast (ncCheckpointInterval nc)) myConfig ct buckets;
       let ppbs = map
         (\<lambda>(i, lu). \<lparr>ppbNextSeqNo = lu,
                     ppbBuffer = newMsgBuffer (bufferName (epNumber epochConfig) ''preprepare'')
                       (nodeBuffers_nodeBuffer (case gm_lookup buckets (of_nat i) of None \<Rightarrow> 0 | Some n \<Rightarrow> n) nbs)\<rparr>)
         (zip [0..<length lus] lus);
       let others = fold
         (\<lambda>n bufs. bufs(n \<mapsto> newMsgBuffer (bufferName (epNumber epochConfig) ''other'') (nodeBuffers_nodeBuffer n nbs)))
         (ncNodes nc) Map.empty;
       Some (\<lparr>aeEpochConfig = epochConfig, aeNetworkConfig = nc, aeMyConfig = myConfig, aeOutstandingReqs = ao,
              aeProposer = pr, aeBuckets = buckets, aeSequences = [], aeSeqStore = Map.empty,
              aePreprepareBuffers = ppbs, aeOtherBuffers = others, aeLowestUncommitted = startingSeqNo + 1,
              aeLowestUnallocated = lus, aeLastCommittedAtTick = 0, aeTicksSinceProgress = 0\<rparr>,
             w\<lparr>ewTracker := ct, ewPersisted := swPersisted sw\<rparr>)
     }"

section \<open>Messages\<close>

definition windowFilter :: "u64 \<Rightarrow> aeState \<Rightarrow> applyable option" where
  [go_defs]: "windowFilter seqNo ew =
     do {
       low \<leftarrow> ae_lowWatermark (fst ew);
       if seqNo < low then Some past
       else do { high \<leftarrow> ae_highWatermark ew; Some (if seqNo > high then future else current) }
     }"

definition ae_filter :: "aeState \<Rightarrow> u64 \<Rightarrow> Msg \<Rightarrow> applyable option" where
  [go_defs]: "ae_filter ew source msg =
     (let ae = fst ew in
      case msg of
        Msg_Preprepare seqNo _ _ \<Rightarrow>
          do {
            b \<leftarrow> ae_seqToBucket seqNo ae;
            if bucketOwner b ae \<noteq> source then Some invalid
            else if seqNo > epPlannedExpiration (aeEpochConfig ae) then Some invalid
            else do {
              high \<leftarrow> ae_highWatermark ew;
              if seqNo > high then Some future
              else do {
                low \<leftarrow> ae_lowWatermark ae;
                if seqNo < low then Some past
                else do {
                  ppb \<leftarrow> slice_get (aePreprepareBuffers ae) (sint b);
                  Some (if seqNo < ppbNextSeqNo ppb then past
                        else if seqNo > ppbNextSeqNo ppb then future else current)
                }
              }
            }
          }
      | Msg_Prepare seqNo _ _ \<Rightarrow>
          do {
            b \<leftarrow> ae_seqToBucket seqNo ae;
            if bucketOwner b ae = source then Some invalid
            else if seqNo > epPlannedExpiration (aeEpochConfig ae) then Some invalid
            else windowFilter seqNo ew
          }
      | Msg_Commit seqNo _ _ \<Rightarrow>
          if seqNo > epPlannedExpiration (aeEpochConfig ae) then Some invalid else windowFilter seqNo ew
      | _ \<Rightarrow> None)"

text \<open>\<open>outstandingReqs\<close> with the parts of the epoch its methods use.\<close>

definition seqWorldOf :: "aeState \<Rightarrow> seqWorld option" where
  [go_defs]: "seqWorldOf ew =
     (case ew of (e, w) \<Rightarrow> do {
        al \<leftarrow> ctkAvailableList (ewTracker w);
        Some \<lparr>swAvailable = al, swSequences = aeSeqStore e, swPersisted = ewPersisted w\<rparr>
      })"

definition putSeqWorld :: "allOutstandingReqs \<Rightarrow> seqWorld \<Rightarrow> aeState \<Rightarrow> aeState" where
  [go_defs]: "putSeqWorld ao sw ew =
     (case ew of (e, w) \<Rightarrow>
        (e\<lparr>aeOutstandingReqs := ao, aeSeqStore := swSequences sw\<rparr>,
         w\<lparr>ewPersisted := swPersisted sw, ewTracker := (ewTracker w)\<lparr>ctkAvailableList := Some (swAvailable sw)\<rparr>\<rparr>))"

definition ae_applyPreprepareMsg :: "u64 \<Rightarrow> u64 \<Rightarrow> RequestAck list \<Rightarrow> aeState \<Rightarrow> aeResult" where
  [go_defs]: "ae_applyPreprepareMsg source seqNo batch ew =
     (case ew of (e, w) \<Rightarrow> do {
        seq \<leftarrow> ae_sequence seqNo e;
        if sqOwner seq = ipId (aeMyConfig e)
        then onSequence (\<lambda>h s. applyPrepareMsg h source (sqDigest s) s) seq ew
        else do {
          b \<leftarrow> ae_seqToBucket seqNo e;
          lu \<leftarrow> slice_get (aeLowestUnallocated e) (sint b);
          assert (seqNo = lu);
          lus \<leftarrow> slice_set (aeLowestUnallocated e) (sint b) (lu + of_nat (length (aeBuckets e)));
          let ew = (e\<lparr>aeLowestUnallocated := lus\<rparr>, w);
          sw \<leftarrow> seqWorldOf ew;
          r \<leftarrow> applyAcks (ewHeap w) b (sqSeqNo seq) batch (aeOutstandingReqs e) sw;
          case r of
            Inl _ \<Rightarrow> None
          | Inr (ao, sw, actions) \<Rightarrow> Some (putSeqWorld ao sw ew, actions)
        }
      })"

definition ae_applyPrepareMsg :: "u64 \<Rightarrow> u64 \<Rightarrow> bytes \<Rightarrow> aeState \<Rightarrow> aeResult" where
  [go_defs]: "ae_applyPrepareMsg source seqNo digest ew =
     do { seq \<leftarrow> ae_sequence seqNo (fst ew); onSequence (\<lambda>h. applyPrepareMsg h source digest) seq ew }"

text \<open>The loop of \<open>applyCommitMsg\<close> that hands the committed sequences to the commit state in order.\<close>

partial_function (option) commitLoop :: "aeState \<Rightarrow> aeState option" where
  "commitLoop ew =
     do {
       high \<leftarrow> ae_highWatermark ew;
       if \<not> aeLowestUncommitted (fst ew) \<le> high then Some ew
       else do {
         seq \<leftarrow> ae_sequence (aeLowestUncommitted (fst ew)) (fst ew);
         if sqState seq \<noteq> sequenceCommitted then Some ew
         else do {
           q \<leftarrow> sqQEntry seq;
           cs \<leftarrow> commit q (ewCommitState (snd ew));
           commitLoop ((fst ew)\<lparr>aeLowestUncommitted := aeLowestUncommitted (fst ew) + 1\<rparr>, (snd ew)\<lparr>ewCommitState := cs\<rparr>)
         }
       }
     }"

text \<open>The actions of the sequence's \<open>applyCommitMsg\<close> are dropped by the caller.\<close>

definition ae_applyCommitMsg :: "u64 \<Rightarrow> u64 \<Rightarrow> bytes \<Rightarrow> aeState \<Rightarrow> aeResult" where
  [go_defs]: "ae_applyCommitMsg source seqNo digest ew =
     do {
       seq \<leftarrow> ae_sequence seqNo (fst ew);
       (ew, _) \<leftarrow> onSequence (\<lambda>h. applyCommitMsg h source digest) seq ew;
       seq \<leftarrow> aeSeqStore (fst ew) (sqSeqNo seq);
       if sqState seq \<noteq> sequenceCommitted \<or> seqNo \<noteq> aeLowestUncommitted (fst ew) then Some (ew, [])
       else do { ew \<leftarrow> commitLoop ew; Some (ew, []) }
     }"

text \<open>The loop over the preprepares of a bucket that have become current.\<close>

partial_function (option) preprepareLoop :: "(Msg \<Rightarrow> nat) \<Rightarrow> u64 \<Rightarrow> u64 \<Rightarrow> Msg \<Rightarrow> aeState \<Rightarrow> aeResult" where
  "preprepareLoop psize source bucket nextMsg ew =
     (case nextMsg of
        Msg_Preprepare seqNo _ batch \<Rightarrow> do {
          (ew, out) \<leftarrow> ae_applyPreprepareMsg source seqNo batch ew;
          ppb \<leftarrow> slice_get (aePreprepareBuffers (fst ew)) (sint bucket);
          let ppb = ppb\<lparr>ppbNextSeqNo := ppbNextSeqNo ppb + of_nat (length (aeBuckets (fst ew)))\<rparr>;
          ppbs \<leftarrow> slice_set (aePreprepareBuffers (fst ew)) (sint bucket) ppb;
          let ew = ((fst ew)\<lparr>aePreprepareBuffers := ppbs\<rparr>, snd ew);
          (next, buffer) \<leftarrow> mb_next psize (ae_filter ew) (ppbBuffer ppb);
          ppbs \<leftarrow> slice_set (aePreprepareBuffers (fst ew)) (sint bucket) (ppb\<lparr>ppbBuffer := buffer\<rparr>);
          let ew = ((fst ew)\<lparr>aePreprepareBuffers := ppbs\<rparr>, snd ew);
          case next of
            None \<Rightarrow> Some (ew, out)
          | Some msg \<Rightarrow> do {
              (ew, out') \<leftarrow> preprepareLoop psize source bucket msg ew;
              Some (ew, ActionList_concat out out')
            }
        }
      | _ \<Rightarrow> None)"

definition ae_apply :: "(Msg \<Rightarrow> nat) \<Rightarrow> u64 \<Rightarrow> Msg \<Rightarrow> aeState \<Rightarrow> aeResult" where
  [go_defs]: "ae_apply psize source msg ew =
     (case msg of
        Msg_Preprepare seqNo _ _ \<Rightarrow> do {
          b \<leftarrow> ae_seqToBucket seqNo (fst ew);
          preprepareLoop psize source b msg ew
        }
      | Msg_Prepare seqNo _ digest \<Rightarrow> ae_applyPrepareMsg source seqNo digest ew
      | Msg_Commit seqNo _ digest \<Rightarrow> ae_applyCommitMsg source seqNo digest ew
      | _ \<Rightarrow> None)"

definition ae_store :: "(Msg \<Rightarrow> nat) \<Rightarrow> u64 \<Rightarrow> Msg \<Rightarrow> activeEpoch \<Rightarrow> activeEpoch option" where
  [go_defs]: "ae_store psize source msg e =
     (case msg of
        Msg_Preprepare seqNo _ _ \<Rightarrow> do {
          b \<leftarrow> ae_seqToBucket seqNo e;
          ppb \<leftarrow> slice_get (aePreprepareBuffers e) (sint b);
          ppbs \<leftarrow> slice_set (aePreprepareBuffers e) (sint b) (ppb\<lparr>ppbBuffer := store psize msg (ppbBuffer ppb)\<rparr>);
          Some (e\<lparr>aePreprepareBuffers := ppbs\<rparr>)
        }
      | _ \<Rightarrow> do {
          b \<leftarrow> aeOtherBuffers e source;
          Some (e\<lparr>aeOtherBuffers := (aeOtherBuffers e)(source \<mapsto> store psize msg b)\<rparr>)
        })"

definition ae_step :: "(Msg \<Rightarrow> nat) \<Rightarrow> u64 \<Rightarrow> Msg \<Rightarrow> aeState \<Rightarrow> aeResult" where
  [go_defs]: "ae_step psize source msg ew =
     do {
       a \<leftarrow> ae_filter ew source msg;
       case a of
         past \<Rightarrow> Some (ew, [])
       | future \<Rightarrow> do { e \<leftarrow> ae_store psize source msg (fst ew); Some ((e, snd ew), []) }
       | invalid \<Rightarrow> Some (ew, [])
       | current \<Rightarrow> ae_apply psize source msg ew
     }"

section \<open>Advancing\<close>

definition drainBucket :: "(Msg \<Rightarrow> nat) \<Rightarrow> nat \<Rightarrow> aeState \<times> ActionList \<Rightarrow> aeResult" where
  [go_defs]: "drainBucket psize i s =
     (case s of (ew, actions) \<Rightarrow> do {
        ppb \<leftarrow> slice_get (aePreprepareBuffers (fst ew)) (int i);
        let source = bucketOwner (of_nat i) (fst ew);
        (next, buffer) \<leftarrow> mb_next psize (ae_filter ew) (ppbBuffer ppb);
        ppbs \<leftarrow> slice_set (aePreprepareBuffers (fst ew)) (int i) (ppb\<lparr>ppbBuffer := buffer\<rparr>);
        let ew = ((fst ew)\<lparr>aePreprepareBuffers := ppbs\<rparr>, snd ew);
        case next of
          None \<Rightarrow> Some (ew, actions)
        | Some msg \<Rightarrow> do {
            (ew, out) \<leftarrow> ae_apply psize source msg ew;
            Some (ew, ActionList_concat actions out)
          }
      })"

definition drainOther :: "(Msg \<Rightarrow> nat) \<Rightarrow> u64 \<Rightarrow> aeState \<times> ActionList \<Rightarrow> aeResult" where
  [go_defs]: "drainOther psize i s =
     do {
       b \<leftarrow> aeOtherBuffers (fst (fst s)) i;
       (b, (ew, actions)) \<leftarrow> mb_iterate psize (\<lambda>(ew, _). ae_filter ew)
         (\<lambda>source msg (ew, actions). do {
            (ew, out) \<leftarrow> ae_apply psize source msg ew;
            Some (ew, ActionList_concat actions out)
          }) b s;
       Some (((fst ew)\<lparr>aeOtherBuffers := (aeOtherBuffers (fst ew))(i \<mapsto> b)\<rparr>, snd ew), actions)
     }"

definition drainBuffers :: "(Msg \<Rightarrow> nat) \<Rightarrow> aeState \<Rightarrow> aeResult" where
  [go_defs]: "drainBuffers psize ew =
     do {
       s \<leftarrow> ofold (drainBucket psize) [0..<length (aeBuckets (fst ew))] (ew, []);
       ofold (drainOther psize) (ncNodes (aeNetworkConfig (fst ew))) s
     }"

text \<open>The loop of \<open>advance\<close> that adds intervals of sequences up to the end of the epoch or of the window.\<close>

definition newInterval :: "u64 \<Rightarrow> activeEpoch \<Rightarrow> nat \<Rightarrow> (activeEpoch \<times> u64 list) option" where
  [go_defs]: "newInterval high e ci =
     ofold
       (\<lambda>i (e, sns). do {
          let seqNo = high + 1 + of_nat i;
          b \<leftarrow> ae_seqToBucket seqNo e;
          let seq = newSequence (bucketOwner b e) (epNumber (aeEpochConfig e)) seqNo (aeNetworkConfig e) (aeMyConfig e);
          Some (e\<lparr>aeSeqStore := (aeSeqStore e)(seqNo \<mapsto> seq)\<rparr>, sns @ [seqNo])
        })
       [0..<ci] (e, [])"

partial_function (option) extendLoop :: "aeState \<Rightarrow> aeResult" where
  "extendLoop ew =
     do {
       high \<leftarrow> ae_highWatermark ew;
       if \<not> (high < epPlannedExpiration (aeEpochConfig (fst ew)) \<and> high < csStopAtSeqNo (ewCommitState (snd ew)))
       then Some (ew, [])
       else do {
         let ci = sint (ncCheckpointInterval (aeNetworkConfig (fst ew)));
         assert (0 \<le> ci);
         (p, out) \<leftarrow> addNEntry \<lparr>neSeqNo = high + 1, neEpochConfig = aeEpochConfig (fst ew)\<rparr> (ewPersisted (snd ew));
         (e, sns) \<leftarrow> newInterval high (fst ew) (nat ci);
         (ew, out') \<leftarrow> extendLoop (e\<lparr>aeSequences := aeSequences e @ [sns]\<rparr>, (snd ew)\<lparr>ewPersisted := p\<rparr>);
         Some (ew, ActionList_concat out out')
       }
     }"

partial_function (option) proposeBucket :: "u64 \<Rightarrow> aeState \<Rightarrow> aeResult" where
  "proposeBucket bid ew =
     do {
       seqNo \<leftarrow> slice_get (aeLowestUnallocated (fst ew)) (sint bid);
       high \<leftarrow> ae_highWatermark ew;
       if seqNo > high then Some (ew, [])
       else do {
         prb \<leftarrow> prProposalBuckets (aeProposer (fst ew)) bid;
         let (pending, prb) = hasPending seqNo prb;
         let putBucket = (\<lambda>prb e. e\<lparr>aeProposer := (aeProposer e)\<lparr>prProposalBuckets :=
                                      (prProposalBuckets (aeProposer e))(bid \<mapsto> prb)\<rparr>\<rparr>);
         if \<not> pending then Some ((putBucket prb (fst ew), snd ew), [])
         else do {
           seq \<leftarrow> ae_sequence seqNo (fst ew);
           let (crs, prb) = pb_next prb;
           (ew, out) \<leftarrow> onSequence (\<lambda>h. allocateAsOwner h crs) seq (putBucket prb (fst ew), snd ew);
           lus \<leftarrow> slice_set (aeLowestUnallocated (fst ew)) (sint bid) (seqNo + of_nat (length (aeBuckets (fst ew))));
           (ew, out') \<leftarrow> proposeBucket bid ((fst ew)\<lparr>aeLowestUnallocated := lus\<rparr>, snd ew);
           Some (ew, ActionList_concat out out')
         }
       }
     }"

definition ae_advance :: "(Msg \<Rightarrow> nat) \<Rightarrow> aeState \<Rightarrow> aeResult" where
  [go_defs]: "ae_advance psize ew =
     do {
       high \<leftarrow> ae_highWatermark ew;
       assert (epPlannedExpiration (aeEpochConfig (fst ew)) \<ge> high);
       assert (csStopAtSeqNo (ewCommitState (snd ew)) \<ge> high);
       (ew, a1) \<leftarrow> extendLoop ew;
       (ew, a2) \<leftarrow> drainBuffers psize ew;
       (ct, pr) \<leftarrow> proposer_advance (aeLowestUncommitted (fst ew)) (ewHeap (snd ew)) (ewTracker (snd ew)) (aeProposer (fst ew));
       let ew = ((fst ew)\<lparr>aeProposer := pr\<rparr>, (snd ew)\<lparr>ewTracker := ct\<rparr>);
       (ew, a3) \<leftarrow> ofold
         (\<lambda>i (ew, actions).
            if bucketOwner (of_nat i) (fst ew) \<noteq> ipId (aeMyConfig (fst ew)) then Some (ew, actions)
            else do {
              (ew, out) \<leftarrow> proposeBucket (of_nat i) ew;
              Some (ew, ActionList_concat actions out)
            })
         [0..<nat (sint (ncNumberOfBuckets (aeNetworkConfig (fst ew))))] (ew, []);
       Some (ew, ActionList_concat (ActionList_concat a1 a2) a3)
     }"

text \<open>The loop of \<open>moveLowWatermark\<close> over the intervals below the new watermark.\<close>

fun dropIntervals :: "u64 \<Rightarrow> seq_store \<Rightarrow> u64 list list \<Rightarrow> u64 list list option" where
  "dropIntervals seqNo h [] = None"
| "dropIntervals seqNo h (interval # rest) =
     do {
       sn \<leftarrow> (case interval of [] \<Rightarrow> None | sn # _ \<Rightarrow> Some sn);
       seq \<leftarrow> h sn;
       if seqNo > sqSeqNo seq then dropIntervals seqNo h rest else Some (interval # rest)
     }"

definition ae_moveLowWatermark :: "(Msg \<Rightarrow> nat) \<Rightarrow> u64 \<Rightarrow> aeState \<Rightarrow> (aeState \<times> ActionList \<times> bool) option" where
  [go_defs]: "ae_moveLowWatermark psize seqNo ew =
     (if seqNo = epPlannedExpiration (aeEpochConfig (fst ew)) then Some (ew, [], True)
      else if seqNo = csStopAtSeqNo (ewCommitState (snd ew)) then Some (ew, [], True)
      else do {
        (ew, actions) \<leftarrow> ae_advance psize ew;
        seqs \<leftarrow> dropIntervals seqNo (aeSeqStore (fst ew)) (aeSequences (fst ew));
        Some (((fst ew)\<lparr>aeSequences := seqs\<rparr>, snd ew), actions, False)
      })"

definition ae_applyBatchHashResult :: "u64 \<Rightarrow> bytes \<Rightarrow> aeState \<Rightarrow> aeResult" where
  [go_defs]: "ae_applyBatchHashResult seqNo digest ew =
     do {
       inw \<leftarrow> ae_inWatermarks seqNo ew;
       if \<not> inw then Some (ew, [])
       else do { seq \<leftarrow> ae_sequence seqNo (fst ew); onSequence (\<lambda>h. applyBatchHashResult h digest) seq ew }
     }"

text \<open>One bucket of the heartbeat: the next sequence gets what is pending, or a null batch.\<close>

definition heartbeat :: "nat \<Rightarrow> aeState \<times> ActionList \<Rightarrow> aeResult" where
  [go_defs]: "heartbeat i s =
     (case s of (ew, actions) \<Rightarrow> do {
        unallocatedSeqNo \<leftarrow> slice_get (aeLowestUnallocated (fst ew)) (int i);
        high \<leftarrow> ae_highWatermark ew;
        if unallocatedSeqNo > high then Some (ew, actions)
        else if bucketOwner (of_nat i) (fst ew) \<noteq> ipId (aeMyConfig (fst ew)) then Some (ew, actions)
        else do {
          seq \<leftarrow> ae_sequence unallocatedSeqNo (fst ew);
          prb \<leftarrow> prProposalBuckets (aeProposer (fst ew)) (of_nat i);
          let (outstanding, prb) = hasOutstanding unallocatedSeqNo prb;
          let (clientReqs, prb) = (if outstanding then pb_next prb else ([], prb));
          let e = (fst ew)\<lparr>aeProposer := (aeProposer (fst ew))\<lparr>prProposalBuckets :=
                            (prProposalBuckets (aeProposer (fst ew)))(of_nat i \<mapsto> prb)\<rparr>\<rparr>;
          (ew, out) \<leftarrow> onSequence (\<lambda>h. allocateAsOwner h clientReqs) seq (e, snd ew);
          lus \<leftarrow> slice_set (aeLowestUnallocated (fst ew)) (int i) (unallocatedSeqNo + of_nat (length (aeBuckets (fst ew))));
          Some (((fst ew)\<lparr>aeLowestUnallocated := lus\<rparr>, snd ew), ActionList_concat actions out)
        }
      })"

definition ae_tick :: "aeState \<Rightarrow> aeResult" where
  [go_defs]: "ae_tick ew =
     (case ew of (e, w) \<Rightarrow>
        if aeLastCommittedAtTick e < csHighestCommit (ewCommitState w)
        then Some ((e\<lparr>aeLastCommittedAtTick := csHighestCommit (ewCommitState w), aeTicksSinceProgress := 0\<rparr>, w), [])
        else do {
          let e = e\<lparr>aeTicksSinceProgress := aeTicksSinceProgress e + 1\<rparr>;
          let epoch = epNumber (aeEpochConfig e);
          (w, actions) \<leftarrow> (if aeTicksSinceProgress e > ipSuspectTicks (aeMyConfig e)
            then do {
              (p, out) \<leftarrow> addSuspect epoch (ewPersisted w);
              Some (w\<lparr>ewPersisted := p\<rparr>,
                    ActionList_concat (ActionList_Send [] (ncNodes (aeNetworkConfig e)) (Msg_Suspect epoch)) out)
            }
            else Some (w, []));
          if ipHeartbeatTicks (aeMyConfig e) = 0 \<or> aeTicksSinceProgress e mod ipHeartbeatTicks (aeMyConfig e) \<noteq> 0
          then Some ((e, w), actions)
          else ofold heartbeat [0..<length (aeLowestUnallocated e)] ((e, w), actions)
        })"

end
