(* ===== verification/Mir_ClientHash.thy ===== *)
theory Mir_ClientHash
  imports Mir_ClientTracker Mir_MsgBuffers "HOL-Library.List_Lexorder"
begin

text \<open>
  \<open>pkg/statemachine/client_hash_disseminator.go\<close>: the acks nodes send for the requests of a client, which
  requests are correct, available and ready, and the window of request numbers of each client. The
  objects are those of the store of \<open>Mir_ClientTracker\<close>. \<open>uint\<close> is 64 bits wide. The digests
  \<open>clientReqNo.reinitialize\<close> goes through are sorted with a comparison of their positions, so their order
  is some order of the map. A loop over request numbers that ends at the largest number never ends,
  which is \<open>None\<close> as well.
\<close>

section \<open>One request\<close>

definition cr_fetch :: "cr_ref \<Rightarrow> clientHeap \<Rightarrow> (clientHeap \<times> ActionList) option" where
  [go_defs]: "cr_fetch r h =
     do {
       cr \<leftarrow> hpCr h r;
       if creqFetching cr then Some (h, [])
       else do {
         let nodes = sort (creqAgreements cr);
         Some (putCr r (cr\<lparr>creqFetching := True, creqTicksFetching := 0\<rparr>) h,
               ActionList_Send [] nodes (Msg_FetchRequest (creqAck cr)))
       }
     }"

section \<open>One request number\<close>

definition newClientReqNo :: "InitialParameters \<Rightarrow> u64 \<Rightarrow> u64 \<Rightarrow> NetworkConfig \<Rightarrow> u64 \<Rightarrow> clientReqNo" where
  [go_defs]: "newClientReqNo myConfig clientID reqNo networkConfig validAfterSeqNo =
     \<lparr>crnMyConfig = myConfig, crnNetworkConfig = networkConfig, crnClientID = clientID, crnReqNo = reqNo,
      crnValidAfterSeqNo = validAfterSeqNo, crnNonNullVoters = [], crnRequests = [], crnWeakRequests = [],
      crnStrongRequests = [], crnMyRequests = [], crnCommitted = False, crnAcksSent = 0, crnTicksSinceAck = 0\<rparr>"

definition crn_clientReq :: "RequestAck \<Rightarrow> crn_ref \<Rightarrow> clientHeap \<Rightarrow> (cr_ref \<times> clientHeap) option" where
  [go_defs]: "crn_clientReq ack n h =
     do {
       crn \<leftarrow> hpCrn h n;
       let digestKey = bstr (ackDigest ack);
       case gm_lookup (crnRequests crn) digestKey of
         Some r \<Rightarrow> Some (r, h)
       | None \<Rightarrow> do {
           let (r, h) = newCr \<lparr>creqAck = ack, creqAgreements = [], creqStored = False, creqFetching = False,
                               creqTicksFetching = 0, creqTicksCorrect = 0\<rparr> h;
           Some (r, putCrn n (crn\<lparr>crnRequests := gm_update digestKey r (crnRequests crn)\<rparr>) h)
         }
     }"

text \<open>\<open>cr.agreements[source] = struct{}{}\<close>, returning the changed request.\<close>

definition addAgreement :: "u64 \<Rightarrow> cr_ref \<Rightarrow> clientHeap \<Rightarrow> (clientRequest \<times> clientHeap) option" where
  [go_defs]: "addAgreement source r h =
     do {
       cr \<leftarrow> hpCr h r;
       let cr = cr\<lparr>creqAgreements := ls_insert source (creqAgreements cr)\<rparr>;
       Some (cr, putCr r cr h)
     }"

definition updCrn :: "crn_ref \<Rightarrow> (clientReqNo \<Rightarrow> clientReqNo) \<Rightarrow> clientHeap \<Rightarrow> clientHeap option" where
  [go_defs]: "updCrn n f h = do { crn \<leftarrow> hpCrn h n; Some (putCrn n (f crn) h) }"

definition updCr :: "cr_ref \<Rightarrow> (clientRequest \<Rightarrow> clientRequest) \<Rightarrow> clientHeap \<Rightarrow> clientHeap option" where
  [go_defs]: "updCr r f h = do { cr \<leftarrow> hpCr h r; Some (putCr r (f cr) h) }"

definition applyRequestAck :: "u64 \<Rightarrow> RequestAck \<Rightarrow> bool \<Rightarrow> crn_ref \<Rightarrow> clientHeap \<Rightarrow> clientHeap option" where
  [go_defs]: "applyRequestAck source ack force n h =
     do {
       crn \<leftarrow> hpCrn h n;
       let nonNull = (length (bstr (ackDigest ack)) \<noteq> 0);
       if nonNull \<and> source \<notin> set (crnNonNullVoters crn) \<and> \<not> force then Some h
       else do {
         h \<leftarrow> (if nonNull then updCrn n (\<lambda>crn. crn\<lparr>crnNonNullVoters := ls_insert source (crnNonNullVoters crn)\<rparr>) h
              else Some h);
         (r, h) \<leftarrow> crn_clientReq ack n h;
         (cr, h) \<leftarrow> addAgreement source r h;
         if int (length (creqAgreements cr)) < someCorrectQuorum (crnNetworkConfig crn) then Some h
         else do {
           h \<leftarrow> updCrn n (\<lambda>crn. crn\<lparr>crnWeakRequests := gm_update (bstr (ackDigest ack)) r (crnWeakRequests crn)\<rparr>) h;
           if int (length (creqAgreements cr)) < intersectionQuorum (crnNetworkConfig crn) then Some h
           else updCrn n (\<lambda>crn. crn\<lparr>crnStrongRequests := gm_update (bstr (ackDigest ack)) r (crnStrongRequests crn)\<rparr>) h
         }
       }
     }"

definition crn_reinitialize :: "NetworkConfig \<Rightarrow> crn_ref \<Rightarrow> clientHeap \<Rightarrow> clientHeap option" where
  [go_defs]: "crn_reinitialize networkConfig n h =
     do {
       crn \<leftarrow> hpCrn h n;
       let oldRequests = crnRequests crn;
       h \<leftarrow> updCrn n (\<lambda>crn. crn\<lparr>crnNetworkConfig := networkConfig, crnNonNullVoters := [], crnRequests := [],
                               crnWeakRequests := [], crnStrongRequests := [], crnMyRequests := []\<rparr>) h;
       ofold
         (\<lambda>(digest, old) h. do {
            oldClientReq \<leftarrow> hpCr h old;
            h \<leftarrow> ofold
                  (\<lambda>i h. if i \<notin> set (creqAgreements oldClientReq) then Some h
                         else applyRequestAck i (creqAck oldClientReq) True n h)
                  (ncNodes networkConfig) h;
            if creqStored oldClientReq
            then do {
              (r, h) \<leftarrow> crn_clientReq (creqAck oldClientReq) n h;
              h \<leftarrow> updCr r (\<lambda>cr. cr\<lparr>creqStored := True\<rparr>) h;
              updCrn n (\<lambda>crn. crn\<lparr>crnMyRequests := gm_update digest r (crnMyRequests crn)\<rparr>) h
            }
            else Some h
          })
         oldRequests h
     }"

text \<open>Storing the null request and acking it, as \<open>applyNewRequest\<close> and \<open>tick\<close> do.\<close>

definition promoteNull :: "crn_ref \<Rightarrow> clientHeap \<Rightarrow> (RequestAck \<times> clientHeap) option" where
  [go_defs]: "promoteNull n h =
     do {
       crn \<leftarrow> hpCrn h n;
       let nullAck = \<lparr>ackClientId = crnClientID crn, ackReqNo = crnReqNo crn, ackDigest = None\<rparr>;
       (r, h) \<leftarrow> crn_clientReq nullAck n h;
       h \<leftarrow> updCr r (\<lambda>cr. cr\<lparr>creqStored := True\<rparr>) h;
       h \<leftarrow> updCrn n (\<lambda>crn. crn\<lparr>crnMyRequests := gm_update [] r (crnMyRequests crn), crnAcksSent := 1,
                               crnTicksSinceAck := 0\<rparr>) h;
       Some (nullAck, h)
     }"

definition crn_applyNewRequest :: "RequestAck \<Rightarrow> crn_ref \<Rightarrow> clientHeap \<Rightarrow> (clientHeap \<times> ActionList) option" where
  [go_defs]: "crn_applyNewRequest ack n h =
     do {
       crn \<leftarrow> hpCrn h n;
       let key = bstr (ackDigest ack);
       case gm_lookup (crnMyRequests crn) key of
         Some _ \<Rightarrow> Some (h, [])
       | None \<Rightarrow> do {
           (r, h) \<leftarrow> crn_clientReq ack n h;
           h \<leftarrow> updCr r (\<lambda>cr. cr\<lparr>creqStored := True\<rparr>) h;
           h \<leftarrow> updCrn n (\<lambda>crn. crn\<lparr>crnMyRequests := gm_update key r (crnMyRequests crn)\<rparr>) h;
           crn \<leftarrow> hpCrn h n;
           if length (crnMyRequests crn) = 1
           then Some (putCrn n (crn\<lparr>crnAcksSent := 1, crnTicksSinceAck := 0\<rparr>) h,
                      ActionList_Send [] (ncNodes (crnNetworkConfig crn)) (Msg_RequestAck ack))
           else case gm_lookup (crnMyRequests crn) [] of
             None \<Rightarrow> Some (h, [])
           | Some _ \<Rightarrow> do {
               (nullAck, h) \<leftarrow> promoteNull n h;
               Some (h, ActionList_Send [] (ncNodes (crnNetworkConfig crn)) (Msg_RequestAck nullAck))
             }
         }
     }"

text \<open>The four parts of \<open>clientReqNo.tick\<close>.\<close>

definition tickNull :: "crn_ref \<Rightarrow> clientHeap \<Rightarrow> (clientHeap \<times> ActionList) option" where
  [go_defs]: "tickNull n h =
     do {
       crn \<leftarrow> hpCrn h n;
       if gm_lookup (crnMyRequests crn) [] = None \<and> length (crnWeakRequests crn) > 1
       then do {
         (nullAck, h) \<leftarrow> promoteNull n h;
         Some (h, ActionList_CorrectRequest
                    (ActionList_Send [] (ncNodes (crnNetworkConfig crn)) (Msg_RequestAck nullAck)) nullAck)
       }
       else Some (h, [])
     }"

definition tickFetch :: "crn_ref \<Rightarrow> clientHeap \<Rightarrow> (clientHeap \<times> ActionList) option" where
  [go_defs]: "tickFetch n h =
     do {
       crn \<leftarrow> hpCrn h n;
       case crnWeakRequests crn of
         [(_, r)] \<Rightarrow> do {
           cr \<leftarrow> hpCr h r;
           if creqStored cr \<or> creqFetching cr then Some (h, [])
           else if creqTicksCorrect cr \<le> 4 then Some (putCr r (cr\<lparr>creqTicksCorrect := creqTicksCorrect cr + 1\<rparr>) h, [])
           else cr_fetch r h
         }
       | _ \<Rightarrow> Some (h, [])
     }"

fun timedOut :: "(byte list, cr_ref) gomap \<Rightarrow> clientHeap \<Rightarrow> (clientHeap \<times> cr_ref list) option" where
  "timedOut [] h = Some (h, [])"
| "timedOut ((_, r) # rs) h =
     do {
       cr \<leftarrow> hpCr h r;
       if \<not> creqFetching cr then timedOut rs h
       else if creqTicksFetching cr \<le> 4 then timedOut rs (putCr r (cr\<lparr>creqTicksFetching := creqTicksFetching cr + 1\<rparr>) h)
       else do {
         (h, toFetch) \<leftarrow> timedOut rs (putCr r (cr\<lparr>creqFetching := False\<rparr>) h);
         Some (h, r # toFetch)
       }
     }"

definition tickRefetch :: "crn_ref \<Rightarrow> clientHeap \<Rightarrow> (clientHeap \<times> ActionList) option" where
  [go_defs]: "tickRefetch n h =
     do {
       crn \<leftarrow> hpCrn h n;
       (h, toFetch) \<leftarrow> timedOut (crnWeakRequests crn) h;
       digests \<leftarrow> those (map (\<lambda>r. map_option (bstr \<circ> ackDigest \<circ> creqAck) (hpCr h r)) toFetch);
       let sorted = rev (map snd (sort_key fst (zip digests toFetch)));
       ofold (\<lambda>r (h, actions). do {
                (h, out) \<leftarrow> cr_fetch r h;
                Some (h, ActionList_concat actions out)
              }) sorted (h, [])
     }"

definition tickResend :: "crn_ref \<Rightarrow> clientHeap \<Rightarrow> (clientHeap \<times> ActionList) option" where
  [go_defs]: "tickResend n h =
     do {
       crn \<leftarrow> hpCrn h n;
       if crnAcksSent crn = 0 then Some (h, [])
       else if crnTicksSinceAck crn \<noteq> crnAcksSent crn * 20
       then Some (putCrn n (crn\<lparr>crnTicksSinceAck := crnTicksSinceAck crn + 1\<rparr>) h, [])
       else do {
         r \<leftarrow> (case crnMyRequests crn of
                [] \<Rightarrow> None
              | [(_, r)] \<Rightarrow> Some r
              | _ \<Rightarrow> gm_lookup (crnMyRequests crn) []);
         cr \<leftarrow> hpCr h r;
         Some (putCrn n (crn\<lparr>crnAcksSent := crnAcksSent crn + 1, crnTicksSinceAck := 0\<rparr>) h,
               ActionList_Send [] (ncNodes (crnNetworkConfig crn)) (Msg_RequestAck (creqAck cr)))
       }
     }"

definition crn_tick :: "crn_ref \<Rightarrow> clientHeap \<Rightarrow> (clientHeap \<times> ActionList) option" where
  [go_defs]: "crn_tick n h =
     do {
       crn \<leftarrow> hpCrn h n;
       if crnCommitted crn then Some (h, [])
       else do {
         (h, a1) \<leftarrow> tickNull n h;
         (h, a2) \<leftarrow> tickFetch n h;
         (h, a3) \<leftarrow> tickRefetch n h;
         (h, a4) \<leftarrow> tickResend n h;
         Some (h, ActionList_concat (ActionList_concat (ActionList_concat a1 a2) a3) a4)
       }
     }"

section \<open>One client\<close>

record client =
  cliMyConfig :: InitialParameters
  cliNetworkConfig :: "NetworkConfig option"
  cliClientState :: "ClientState option"
  cliHighWatermark :: u64
  cliNextReadyMark :: u64
  cliReqNoList :: "crn_ref list"
  cliReqNoMap :: "u64 \<rightharpoonup> crn_ref"

definition newClient :: "InitialParameters \<Rightarrow> client" where
  [go_defs]: "newClient myConfig =
     \<lparr>cliMyConfig = myConfig, cliNetworkConfig = None, cliClientState = None, cliHighWatermark = 0, cliNextReadyMark = 0,
      cliReqNoList = [], cliReqNoMap = Map.empty\<rparr>"

definition inWatermarks :: "u64 \<Rightarrow> client \<Rightarrow> bool option" where
  [go_defs]: "inWatermarks reqNo c =
     do { cs \<leftarrow> cliClientState c; Some (reqNo \<le> cliHighWatermark c \<and> reqNo \<ge> clLowWatermark cs) }"

text \<open>\<open>client.reqNo\<close>; the assertion there compares a typed nil with nil and never fails, the access after it does.\<close>

definition cli_reqNo :: "u64 \<Rightarrow> client \<Rightarrow> crn_ref option" where
  [go_defs]: "cli_reqNo reqNo c = cliReqNoMap c reqNo"

type_synonym clientState3 = "client \<times> clientTracker \<times> clientHeap"

partial_function (option) advanceReadyLoop :: "u64 \<Rightarrow> clientState3 \<Rightarrow> clientState3 option" where
  "advanceReadyLoop i cth =
     (case cth of (c, t, h) \<Rightarrow>
        if \<not> i \<le> cliHighWatermark c then Some (c, t, h)
        else if i \<noteq> cliNextReadyMark c then Some (c, t, h)
        else do {
          n \<leftarrow> cli_reqNo i c;
          crn \<leftarrow> hpCrn h n;
          if crnCommitted crn then advanceReadyLoop (i + 1) (c\<lparr>cliNextReadyMark := i + 1\<rparr>, t, h)
          else if list_ex (\<lambda>(digest, _). gm_lookup (crnMyRequests crn) digest \<noteq> None) (crnStrongRequests crn)
          then do {
            t \<leftarrow> addReady n t;
            advanceReadyLoop (i + 1) (c\<lparr>cliNextReadyMark := i + 1\<rparr>, t, h)
          }
          else advanceReadyLoop (i + 1) (c, t, h)
        })"

definition advanceReady :: "clientState3 \<Rightarrow> clientState3 option" where
  [go_defs]: "advanceReady cth = advanceReadyLoop (cliNextReadyMark (fst cth)) cth"

text \<open>The numbers a loop \<open>for reqNo := low; reqNo <= high; reqNo++\<close> goes through.\<close>

definition reqRange :: "u64 \<Rightarrow> u64 \<Rightarrow> u64 list option" where
  [go_defs]: "reqRange low high =
     (if low > high then Some []
      else if high = - 1 then None
      else Some (map (\<lambda>k. low + of_nat k) [0..<Suc (unat (high - low))]))"

definition cli_reinitialize ::
  "u64 \<Rightarrow> NetworkConfig \<Rightarrow> ClientState \<Rightarrow> bool \<Rightarrow> clientState3 \<Rightarrow> (clientState3 \<times> ActionList) option" where
  [go_defs]: "cli_reinitialize seqNo networkConfig clientState reconfiguring cth =
     (case cth of (c, t, h) \<Rightarrow>
      do {
        let oldReqNoMap = cliReqNoMap c;
        let intermediate = clLowWatermark clientState + ucast (clWidth clientState) - ucast (clWidthConsumed clientState);
        let c = c\<lparr>cliNetworkConfig := Some networkConfig, cliClientState := Some clientState,
                  cliHighWatermark := (if \<not> reconfiguring then clLowWatermark clientState + ucast (clWidth clientState)
                                       else intermediate),
                  cliNextReadyMark := clLowWatermark clientState, cliReqNoList := [], cliReqNoMap := Map.empty\<rparr>;
        reqNos \<leftarrow> reqRange (clLowWatermark clientState) (cliHighWatermark c);
        (c, h, actions) \<leftarrow> ofold
          (\<lambda>reqNo (c, h, actions). do {
             committed \<leftarrow> isCommitted reqNo clientState;
             let (n, h, actions) = (case oldReqNoMap reqNo of
                 Some n \<Rightarrow> (n, h, actions)
               | None \<Rightarrow>
                   let validAfterSeqNo = (if reqNo > intermediate then seqNo + scast (ncCheckpointInterval networkConfig) else seqNo);
                       (n, h) = newCrn (newClientReqNo (cliMyConfig c) (clId clientState) reqNo networkConfig validAfterSeqNo) h
                   in (n, h, ActionList_AllocateRequest actions (clId clientState) reqNo));
             h \<leftarrow> updCrn n (\<lambda>crn. crn\<lparr>crnCommitted := committed\<rparr>) h;
             h \<leftarrow> crn_reinitialize networkConfig n h;
             Some (c\<lparr>cliReqNoList := cliReqNoList c @ [n], cliReqNoMap := (cliReqNoMap c)(reqNo \<mapsto> n)\<rparr>, h, actions)
           })
          reqNos (c, h, []);
        cth \<leftarrow> advanceReady (c, t, h);
        Some (cth, actions)
      })"

text \<open>The loop of \<open>allocate\<close> that drops the request numbers before the new low watermark.\<close>

fun dropBelow :: "u64 \<Rightarrow> clientHeap \<Rightarrow> crn_ref list \<Rightarrow> (u64 \<rightharpoonup> crn_ref) \<Rightarrow> (crn_ref list \<times> (u64 \<rightharpoonup> crn_ref)) option" where
  "dropBelow low h [] m = Some ([], m)"
| "dropBelow low h (n # ns) m =
     do {
       crn \<leftarrow> hpCrn h n;
       if crnReqNo crn = low then Some (n # ns, m) else dropBelow low h ns (m(crnReqNo crn := None))
     }"

definition cli_allocate ::
  "u64 \<Rightarrow> ClientState \<Rightarrow> bool \<Rightarrow> clientState3 \<Rightarrow> (clientState3 \<times> ActionList) option" where
  [go_defs]: "cli_allocate seqNo state reconfiguring cth =
     (case cth of (c, t, h) \<Rightarrow>
      do {
        let intermediate = clLowWatermark state + ucast (clWidth state) - ucast (clWidthConsumed state);
        assert (intermediate = cliHighWatermark c);
        let newHigh = (if \<not> reconfiguring then clLowWatermark state + ucast (clWidth state) else intermediate);
        let c = (if clLowWatermark state > cliNextReadyMark c then c\<lparr>cliNextReadyMark := clLowWatermark state\<rparr> else c);
        (ns, m) \<leftarrow> dropBelow (clLowWatermark state) h (cliReqNoList c) (cliReqNoMap c);
        let c = c\<lparr>cliReqNoList := ns, cliReqNoMap := m\<rparr>;
        reqNos \<leftarrow> reqRange (clLowWatermark state) (cliHighWatermark c);
        h \<leftarrow> ofold
              (\<lambda>reqNo h. do {
                 committed \<leftarrow> isCommitted reqNo state;
                 if committed
                 then do { n \<leftarrow> cliReqNoMap c reqNo; updCrn n (\<lambda>crn. crn\<lparr>crnCommitted := True\<rparr>) h }
                 else Some h
               })
              reqNos h;
        let c = c\<lparr>cliClientState := Some state\<rparr>;
        nc \<leftarrow> cliNetworkConfig c;
        let validAfterSeqNo = seqNo + scast (ncCheckpointInterval nc);
        reqNos \<leftarrow> reqRange (intermediate + 1) newHigh;
        let (c, h, actions) = fold
              (\<lambda>reqNo (c, h, actions).
                 let (n, h) = newCrn (newClientReqNo (cliMyConfig c) (clId state) reqNo nc validAfterSeqNo) h
                 in (c\<lparr>cliReqNoList := cliReqNoList c @ [n], cliReqNoMap := (cliReqNoMap c)(reqNo \<mapsto> n)\<rparr>, h,
                     ActionList_AllocateRequest actions (clId state) reqNo))
              reqNos (c, h, []);
        cth \<leftarrow> advanceReady (c\<lparr>cliHighWatermark := newHigh\<rparr>, t, h);
        Some (cth, actions)
      })"

definition cli_ack :: "u64 \<Rightarrow> RequestAck \<Rightarrow> clientState3 \<Rightarrow> (clientState3 \<times> ActionList \<times> cr_ref) option" where
  [go_defs]: "cli_ack source ack cth =
     (case cth of (c, t, h) \<Rightarrow>
      do {
        n \<leftarrow> cliReqNoMap c (ackReqNo ack);
        (r, h) \<leftarrow> crn_clientReq ack n h;
        (cr, h) \<leftarrow> addAgreement source r h;
        nc \<leftarrow> cliNetworkConfig c;
        let agreements = int (length (creqAgreements cr));
        let newlyCorrect = (agreements = someCorrectQuorum nc);
        (h, actions) \<leftarrow> (if newlyCorrect
          then do {
            h \<leftarrow> updCrn n (\<lambda>crn. crn\<lparr>crnWeakRequests := gm_update (bstr (ackDigest ack)) r (crnWeakRequests crn)\<rparr>) h;
            Some (h, if \<not> creqStored cr then ActionList_CorrectRequest [] ack else [])
          }
          else Some (h, []));
        let correctAndMyAck = (agreements \<ge> someCorrectQuorum nc \<and> source = ipId (cliMyConfig c));
        t \<leftarrow> (if creqStored cr \<and> (newlyCorrect \<or> correctAndMyAck) then addAvailable ack t else Some t);
        (c, t, h) \<leftarrow> (if agreements = intersectionQuorum nc
          then do {
            h \<leftarrow> updCrn n (\<lambda>crn. crn\<lparr>crnStrongRequests := gm_update (bstr (ackDigest ack)) r (crnStrongRequests crn)\<rparr>) h;
            advanceReady (c, t, h)
          }
          else Some (c, t, h));
        Some ((c, t, h), actions, r)
      })"

definition cli_tick :: "client \<Rightarrow> clientHeap \<Rightarrow> (clientHeap \<times> ActionList) option" where
  [go_defs]: "cli_tick c h =
     ofold (\<lambda>n (h, actions). do {
              (h, out) \<leftarrow> crn_tick n h;
              Some (h, ActionList_concat actions out)
            }) (cliReqNoList c) (h, [])"

section \<open>The disseminator\<close>

record clientHashDisseminator =
  chdMyConfig :: InitialParameters
  chdNodeBuffers :: nodeBuffers
  chdAllocatedThrough :: u64
  chdNetworkConfig :: "NetworkConfig option"
  chdClientStates :: "ClientState list"
  chdMsgBuffers :: "u64 \<rightharpoonup> msgBuffer"
  chdClients :: "u64 \<rightharpoonup> client"

definition newClientHashDisseminator :: "nodeBuffers \<Rightarrow> InitialParameters \<Rightarrow> clientHashDisseminator" where
  [go_defs]: "newClientHashDisseminator nbs myConfig =
     \<lparr>chdMyConfig = myConfig, chdNodeBuffers = nbs, chdAllocatedThrough = 0, chdNetworkConfig = None,
      chdClientStates = [], chdMsgBuffers = Map.empty, chdClients = Map.empty\<rparr>"

text \<open>The disseminator with the tracker and the store its clients change.\<close>

record clientSide =
  cdHash :: clientHashDisseminator
  cdTracker :: clientTracker
  cdHeap :: clientHeap

text \<open>Running a method of one client and writing the client back.\<close>

definition putClient :: "u64 \<Rightarrow> clientState3 \<Rightarrow> clientSide \<Rightarrow> clientSide" where
  [go_defs]: "putClient cid cth cd =
     (case cth of (c, t, h) \<Rightarrow>
        cd\<lparr>cdHash := (cdHash cd)\<lparr>chdClients := (chdClients (cdHash cd))(cid \<mapsto> c)\<rparr>, cdTracker := t, cdHeap := h\<rparr>)"

definition chd_reinitialize :: "u64 \<Rightarrow> NetworkState \<Rightarrow> clientSide \<Rightarrow> (clientSide \<times> ActionList) option" where
  [go_defs]: "chd_reinitialize seqNo networkState cd =
     do {
       let reconfiguring = (length (nsPending networkState) > 0);
       let oldClients = chdClients (cdHash cd);
       let oldMsgBuffers = chdMsgBuffers (cdHash cd);
       let cd = cd\<lparr>cdHash := (cdHash cd)\<lparr>chdAllocatedThrough := seqNo, chdNetworkConfig := Some (nsConfig networkState),
                              chdClients := Map.empty, chdClientStates := nsClients networkState\<rparr>\<rparr>;
       (cd, actions) \<leftarrow> ofold
         (\<lambda>clientState (cd, actions). do {
            let c = (case oldClients (clId clientState) of Some c \<Rightarrow> c | None \<Rightarrow> newClient (chdMyConfig (cdHash cd)));
            (cth, out) \<leftarrow> cli_reinitialize seqNo (nsConfig networkState) clientState reconfiguring (c, cdTracker cd, cdHeap cd);
            Some (putClient (clId clientState) cth cd, ActionList_concat actions out)
          })
         (nsClients networkState) (cd, []);
       let bufs = fold
         (\<lambda>i bufs. bufs(i \<mapsto> (case oldMsgBuffers i of
             Some b \<Rightarrow> b
           | None \<Rightarrow> newMsgBuffer ''clients'' (nodeBuffers_nodeBuffer i (chdNodeBuffers (cdHash cd))))))
         (ncNodes (nsConfig networkState)) Map.empty;
       Some (cd\<lparr>cdHash := (cdHash cd)\<lparr>chdMsgBuffers := bufs\<rparr>\<rparr>, actions)
     }"

definition chd_tick :: "clientSide \<Rightarrow> (clientSide \<times> ActionList) option" where
  [go_defs]: "chd_tick cd =
     ofold (\<lambda>clientState (cd, actions). do {
              c \<leftarrow> chdClients (cdHash cd) (clId clientState);
              (h, out) \<leftarrow> cli_tick c (cdHeap cd);
              Some (cd\<lparr>cdHeap := h\<rparr>, ActionList_concat actions out)
            }) (chdClientStates (cdHash cd)) (cd, [])"

definition chd_filter :: "clientHashDisseminator \<Rightarrow> u64 \<Rightarrow> Msg \<Rightarrow> applyable option" where
  [go_defs]: "chd_filter ct source msg =
     (case msg of
        Msg_RequestAck ack \<Rightarrow>
          (case chdClients ct (ackClientId ack) of
             None \<Rightarrow> Some future
           | Some c \<Rightarrow> do {
               cs \<leftarrow> cliClientState c;
               Some (if clLowWatermark cs > ackReqNo ack then past
                     else if cliHighWatermark c < ackReqNo ack then future else current)
             })
      | Msg_FetchRequest _ \<Rightarrow> Some current
      | _ \<Rightarrow> None)"

definition replyFetchRequest :: "u64 \<Rightarrow> RequestAck \<Rightarrow> clientSide \<Rightarrow> ActionList option" where
  [go_defs]: "replyFetchRequest source msg cd =
     (case chdClients (cdHash cd) (ackClientId msg) of
        None \<Rightarrow> Some []
      | Some c \<Rightarrow> do {
          inw \<leftarrow> inWatermarks (ackReqNo msg) c;
          if \<not> inw then Some []
          else do {
            n \<leftarrow> cli_reqNo (ackReqNo msg) c;
            creq \<leftarrow> hpCrn (cdHeap cd) n;
            case gm_lookup (crnRequests creq) (bstr (ackDigest msg)) of
              None \<Rightarrow> Some []
            | Some r \<Rightarrow> do {
                cr \<leftarrow> hpCr (cdHeap cd) r;
                if ipId (chdMyConfig (cdHash cd)) \<notin> set (creqAgreements cr) then Some []
                else Some (ActionList_ForwardRequest [] [source]
                       \<lparr>ackClientId = ackClientId msg, ackReqNo = ackReqNo msg, ackDigest = ackDigest msg\<rparr>)
              }
          }
        })"

definition chd_ack :: "u64 \<Rightarrow> RequestAck \<Rightarrow> clientSide \<Rightarrow> (clientSide \<times> ActionList \<times> cr_ref) option" where
  [go_defs]: "chd_ack source ack cd =
     do {
       c \<leftarrow> chdClients (cdHash cd) (ackClientId ack);
       (cth, actions, r) \<leftarrow> cli_ack source ack (c, cdTracker cd, cdHeap cd);
       Some (putClient (ackClientId ack) cth cd, actions, r)
     }"

definition chd_applyMsg :: "u64 \<Rightarrow> Msg \<Rightarrow> clientSide \<Rightarrow> (clientSide \<times> ActionList) option" where
  [go_defs]: "chd_applyMsg source msg cd =
     (case msg of
        Msg_RequestAck ack \<Rightarrow> do { (cd, actions, _) \<leftarrow> chd_ack source ack cd; Some (cd, actions) }
      | Msg_FetchRequest req \<Rightarrow> do { actions \<leftarrow> replyFetchRequest source req cd; Some (cd, actions) }
      | _ \<Rightarrow> None)"

definition chd_step :: "(Msg \<Rightarrow> nat) \<Rightarrow> u64 \<Rightarrow> Msg \<Rightarrow> clientSide \<Rightarrow> (clientSide \<times> ActionList) option" where
  [go_defs]: "chd_step psize source msg cd =
     do {
       a \<leftarrow> chd_filter (cdHash cd) source msg;
       case a of
         past \<Rightarrow> Some (cd, [])
       | future \<Rightarrow> do {
           b \<leftarrow> chdMsgBuffers (cdHash cd) source;
           Some (cd\<lparr>cdHash := (cdHash cd)\<lparr>chdMsgBuffers := (chdMsgBuffers (cdHash cd))(source \<mapsto> store psize msg b)\<rparr>\<rparr>, [])
         }
       | _ \<Rightarrow> chd_applyMsg source msg cd
     }"

definition chd_applyNewRequest :: "RequestAck \<Rightarrow> clientSide \<Rightarrow> (clientSide \<times> ActionList) option" where
  [go_defs]: "chd_applyNewRequest ack cd =
     (case chdClients (cdHash cd) (ackClientId ack) of
        None \<Rightarrow> Some (cd, [])
      | Some c \<Rightarrow> do {
          inw \<leftarrow> inWatermarks (ackReqNo ack) c;
          if \<not> inw then Some (cd, [])
          else do {
            n \<leftarrow> cli_reqNo (ackReqNo ack) c;
            (h, actions) \<leftarrow> crn_applyNewRequest ack n (cdHeap cd);
            Some (cd\<lparr>cdHeap := h\<rparr>, actions)
          }
        })"

text \<open>One iteration of the loop over the buffers in \<open>allocate\<close>.\<close>

definition chd_iterate :: "(Msg \<Rightarrow> nat) \<Rightarrow> u64 \<Rightarrow> clientSide \<times> ActionList \<Rightarrow> (clientSide \<times> ActionList) option" where
  [go_defs]: "chd_iterate psize i s =
     do {
       b \<leftarrow> chdMsgBuffers (cdHash (fst s)) i;
       (b, (cd, actions)) \<leftarrow> mb_iterate psize (\<lambda>(cd, _). chd_filter (cdHash cd))
         (\<lambda>source msg (cd, actions). do {
            (cd, out) \<leftarrow> chd_applyMsg source msg cd;
            Some (cd, ActionList_concat actions out)
          }) b s;
       Some (cd\<lparr>cdHash := (cdHash cd)\<lparr>chdMsgBuffers := (chdMsgBuffers (cdHash cd))(i \<mapsto> b)\<rparr>\<rparr>, actions)
     }"

definition chd_allocate :: "(Msg \<Rightarrow> nat) \<Rightarrow> u64 \<Rightarrow> NetworkState \<Rightarrow> clientSide \<Rightarrow> (clientSide \<times> ActionList) option" where
  [go_defs]: "chd_allocate psize seqNo networkState cd =
     do {
       assert (seqNo = scast (ncCheckpointInterval (nsConfig networkState)) + chdAllocatedThrough (cdHash cd));
       let cd = cd\<lparr>cdHash := (cdHash cd)\<lparr>chdAllocatedThrough := seqNo\<rparr>\<rparr>;
       let reconfiguring = (length (nsPending networkState) > 0);
       (cd, actions) \<leftarrow> ofold
         (\<lambda>clientState (cd, actions). do {
            c \<leftarrow> chdClients (cdHash cd) (clId clientState);
            (cth, out) \<leftarrow> cli_allocate seqNo clientState reconfiguring (c, cdTracker cd, cdHeap cd);
            Some (putClient (clId clientState) cth cd, ActionList_concat actions out)
          })
         (nsClients networkState) (cd, []);
       nc \<leftarrow> chdNetworkConfig (cdHash cd);
       ofold (chd_iterate psize) (ncNodes nc) (cd, actions)
     }"

end
