(* ===== verification/Mir_EpochChange.thy ===== *)
theory Mir_EpochChange
  imports Mir_Stateless
begin

text \<open>
  \<open>pkg/statemachine/epoch_change.go\<close> and \<open>constructNewEpochConfig\<close> of \<open>pkg/statemachine/stateless.go\<close>: the
  epoch changes collected of one node, and the configuration of the new epoch computed from a set of
  them. An error of \<open>newParsedEpochChange\<close> is a value of \<open>parseError\<close>, one constructor per message. The
  maps \<open>pSet\<close> and the outer map of \<open>qSet\<close> are only looked up; the maps that are ranged over are lists in
  the order of one iteration, and the result does not depend on that order.
\<close>

section \<open>Parsing\<close>

record parsedEpochChange =
  peUnderlying :: EpochChangeMsg
  pePSet :: "u64 \<rightharpoonup> SetEntry"
  peQSet :: "u64 \<rightharpoonup> (u64, bytes) gomap"
  peLowWatermark :: u64
  peAcks :: "u64 list"

datatype parseError = NoCheckpoints | DuplicateCheckpoint u64 | DuplicatePEntry u64 | DuplicateQEntry u64 u64

text \<open>The loop over the checkpoints: the lowest one, and the map of seen ones, which is never written.\<close>

fun scanCheckpoints :: "(u64 \<rightharpoonup> CheckpointMsg) \<Rightarrow> CheckpointMsg list \<Rightarrow> u64 \<Rightarrow> parseError + u64" where
  "scanCheckpoints seen [] low = Inr low"
| "scanCheckpoints seen (c # cs) low =
     (let low = (if low > cpSeqNo c then cpSeqNo c else low) in
      case seen (cpSeqNo c) of
        Some _ \<Rightarrow> Inl (DuplicateCheckpoint (cpSeqNo c))
      | None \<Rightarrow> scanCheckpoints seen cs low)"

fun parsePSet :: "SetEntry list \<Rightarrow> (u64 \<rightharpoonup> SetEntry) \<Rightarrow> parseError + (u64 \<rightharpoonup> SetEntry)" where
  "parsePSet [] pSet = Inr pSet"
| "parsePSet (entry # es) pSet =
     (case pSet (seSeqNo entry) of
        Some _ \<Rightarrow> Inl (DuplicatePEntry (seSeqNo entry))
      | None \<Rightarrow> parsePSet es (pSet(seSeqNo entry \<mapsto> entry)))"

fun parseQSet :: "SetEntry list \<Rightarrow> (u64 \<rightharpoonup> (u64, bytes) gomap) \<Rightarrow> parseError + (u64 \<rightharpoonup> (u64, bytes) gomap)" where
  "parseQSet [] qSet = Inr qSet"
| "parseQSet (entry # es) qSet =
     (let views = (case qSet (seSeqNo entry) of None \<Rightarrow> [] | Some views \<Rightarrow> views) in
      case gm_lookup views (seEpoch entry) of
        Some _ \<Rightarrow> Inl (DuplicateQEntry (seSeqNo entry) (seEpoch entry))
      | None \<Rightarrow> parseQSet es (qSet(seSeqNo entry \<mapsto> gm_update (seEpoch entry) (seDigest entry) views)))"

definition newParsedEpochChange :: "EpochChangeMsg \<Rightarrow> parseError + parsedEpochChange" where
  [go_defs]: "newParsedEpochChange underlying =
     (case ecmCheckpoints underlying of
        [] \<Rightarrow> Inl NoCheckpoints
      | c # _ \<Rightarrow>
          (case scanCheckpoints Map.empty (ecmCheckpoints underlying) (cpSeqNo c) of
             Inl e \<Rightarrow> Inl e
           | Inr lowWatermark \<Rightarrow>
               (case parsePSet (ecmPSet underlying) Map.empty of
                  Inl e \<Rightarrow> Inl e
                | Inr pSet \<Rightarrow>
                    (case parseQSet (ecmQSet underlying) Map.empty of
                       Inl e \<Rightarrow> Inl e
                     | Inr qSet \<Rightarrow>
                         Inr \<lparr>peUnderlying = underlying, pePSet = pSet, peQSet = qSet,
                              peLowWatermark = lowWatermark, peAcks = []\<rparr>))))"

section \<open>The epoch changes of one node\<close>

record epochChange =
  ecNetworkConfig :: NetworkConfig
  ecParsedByDigest :: "(byte list, parsedEpochChange) gomap"
  ecStrongCert :: bytes

definition ec_addMsg :: "u64 \<Rightarrow> EpochChangeMsg \<Rightarrow> bytes \<Rightarrow> epochChange \<Rightarrow> epochChange" where
  [go_defs]: "ec_addMsg source msg digest ec =
     (case (case gm_lookup (ecParsedByDigest ec) (bstr digest) of
              Some parsed \<Rightarrow> Inr parsed
            | None \<Rightarrow> newParsedEpochChange msg) of
        Inl _ \<Rightarrow> ec
      | Inr parsed \<Rightarrow>
          let parsed = parsed\<lparr>peAcks := ls_insert source (peAcks parsed)\<rparr>;
              ec = ec\<lparr>ecParsedByDigest := gm_update (bstr digest) parsed (ecParsedByDigest ec)\<rparr>
          in if ecStrongCert ec \<noteq> None \<or> int (length (peAcks parsed)) < intersectionQuorum (ecNetworkConfig ec)
             then ec else ec\<lparr>ecStrongCert := digest\<rparr>)"

section \<open>The new epoch's configuration\<close>

type_synonym checkpointKey = "u64 \<times> byte list"

text \<open>The supporters of every reported checkpoint and the new epoch's number, in the order of the nodes.\<close>

definition collectCheckpoints ::
  "NetworkConfig \<Rightarrow> (u64, parsedEpochChange) gomap \<Rightarrow> (checkpointKey, u64 list) gomap \<times> u64" where
  [go_defs]: "collectCheckpoints config epochChanges =
     fold
       (\<lambda>i (checkpoints, newEpochNumber).
          case gm_lookup epochChanges i of
            None \<Rightarrow> (checkpoints, newEpochNumber)
          | Some ec \<Rightarrow>
              (fold
                 (\<lambda>c checkpoints.
                    let key = (cpSeqNo c, bstr (cpValue c));
                        supporters = (case gm_lookup checkpoints key of None \<Rightarrow> [] | Some ns \<Rightarrow> ns)
                    in gm_update key (supporters @ [i]) checkpoints)
                 (ecmCheckpoints (peUnderlying ec)) checkpoints,
               ecmNewEpoch (peUnderlying ec)))
       (ncNodes config) ([], 0)"

definition eligible :: "NetworkConfig \<Rightarrow> (u64, parsedEpochChange) gomap \<Rightarrow> checkpointKey \<times> u64 list \<Rightarrow> bool" where
  [go_defs]: "eligible config epochChanges ks =
     (case ks of ((seqNo, v), supporters) \<Rightarrow>
        \<not> int (length supporters) < someCorrectQuorum config \<and>
        \<not> int (length (filter (\<lambda>(_, ec). peLowWatermark ec \<le> seqNo) epochChanges)) < intersectionQuorum config)"

fun selectCheckpoint ::
  "NetworkConfig \<Rightarrow> (u64, parsedEpochChange) gomap \<Rightarrow> (checkpointKey, u64 list) gomap \<Rightarrow>
   checkpointKey option \<Rightarrow> checkpointKey option option" where
  "selectCheckpoint config epochChanges [] maxCheckpoint = Some maxCheckpoint"
| "selectCheckpoint config epochChanges ((key, supporters) # ks) maxCheckpoint =
     (if \<not> eligible config epochChanges (key, supporters) then selectCheckpoint config epochChanges ks maxCheckpoint
      else case maxCheckpoint of
        None \<Rightarrow> selectCheckpoint config epochChanges ks (Some key)
      | Some best \<Rightarrow>
          if fst best > fst key then selectCheckpoint config epochChanges ks maxCheckpoint
          else if fst best = fst key then None
          else selectCheckpoint config epochChanges ks (Some key))"

text \<open>Conditions A1, A2 and B of the selection for one sequence number: the nodes counted.\<close>

definition countsA1 :: "u64 \<Rightarrow> SetEntry \<Rightarrow> parsedEpochChange \<Rightarrow> bool" where
  [go_defs]: "countsA1 seqNo entry ec =
     (\<not> peLowWatermark ec \<ge> seqNo \<and>
      (case pePSet ec seqNo of
         None \<Rightarrow> True
       | Some iEntry \<Rightarrow>
           if seEpoch iEntry < seEpoch entry then True
           else if seEpoch iEntry > seEpoch entry then False
           else bytes_equal (seDigest entry) (seDigest iEntry)))"

definition countsA2 :: "u64 \<Rightarrow> SetEntry \<Rightarrow> parsedEpochChange \<Rightarrow> bool" where
  [go_defs]: "countsA2 seqNo entry ec =
     (case peQSet ec seqNo of
        None \<Rightarrow> False
      | Some epochEntries \<Rightarrow>
          list_ex (\<lambda>(epoch, digest). \<not> epoch < seEpoch entry \<and> bytes_equal (seDigest entry) digest) epochEntries)"

definition countsB :: "u64 \<Rightarrow> parsedEpochChange \<Rightarrow> bool" where
  [go_defs]: "countsB seqNo ec = (\<not> peLowWatermark ec \<ge> seqNo \<and> pePSet ec seqNo = None)"

definition countChanges :: "(parsedEpochChange \<Rightarrow> bool) \<Rightarrow> (u64, parsedEpochChange) gomap \<Rightarrow> int" where
  [go_defs]: "countChanges P epochChanges = int (length (filter (\<lambda>(_, ec). P ec) epochChanges))"

text \<open>The loop over the nodes that selects an entry for a sequence number.\<close>

fun selectEntry ::
  "NetworkConfig \<Rightarrow> (u64, parsedEpochChange) gomap \<Rightarrow> u64 \<Rightarrow> u64 list \<Rightarrow> SetEntry option" where
  "selectEntry config epochChanges seqNo [] = None"
| "selectEntry config epochChanges seqNo (i # is) =
     (case gm_lookup epochChanges i of
        None \<Rightarrow> selectEntry config epochChanges seqNo is
      | Some ec \<Rightarrow>
          (case pePSet ec seqNo of
             None \<Rightarrow> selectEntry config epochChanges seqNo is
           | Some entry \<Rightarrow>
               if countChanges (countsA1 seqNo entry) epochChanges < intersectionQuorum config
               then selectEntry config epochChanges seqNo is
               else if countChanges (countsA2 seqNo entry) epochChanges < someCorrectQuorum config
               then selectEntry config epochChanges seqNo is
               else Some entry))"

text \<open>
  The loop over the offsets of the final preprepares; \<open>None\<close> when some sequence number satisfies
  neither condition and the computation has to wait.
\<close>

fun selectPreprepares ::
  "NetworkConfig \<Rightarrow> (u64, parsedEpochChange) gomap \<Rightarrow> u64 list \<Rightarrow> bytes list \<times> bool \<Rightarrow> (bytes list \<times> bool) option" where
  "selectPreprepares config epochChanges [] acc = Some acc"
| "selectPreprepares config epochChanges (seqNo # seqNos) (digests, anySelected) =
     (case selectEntry config epochChanges seqNo (ncNodes config) of
        Some entry \<Rightarrow> selectPreprepares config epochChanges seqNos (digests @ [seDigest entry], True)
      | None \<Rightarrow>
          if countChanges (countsB seqNo) epochChanges < intersectionQuorum config then None
          else selectPreprepares config epochChanges seqNos (digests @ [None], anySelected))"

definition constructNewEpochConfig ::
  "NetworkConfig \<Rightarrow> u64 list \<Rightarrow> (u64, parsedEpochChange) gomap \<Rightarrow> NewEpochConfig option option" where
  [go_defs]: "constructNewEpochConfig config newLeaders epochChanges =
     do {
       let (checkpoints, newEpochNumber) = collectCheckpoints config epochChanges;
       maxCheckpoint \<leftarrow> selectCheckpoint config epochChanges checkpoints None;
       case maxCheckpoint of
         None \<Rightarrow> Some None
       | Some (seqNo, v) \<Rightarrow> do {
           let n = sint (2 * ncCheckpointInterval config);
           assert (0 \<le> n);
           Some (case selectPreprepares config epochChanges (map (\<lambda>k. of_nat k + seqNo + 1) [0..<nat n]) ([], False) of
                   None \<Rightarrow> None
                 | Some (digests, anySelected) \<Rightarrow>
                     Some \<lparr>necConfig = \<lparr>epNumber = newEpochNumber, epLeaders = newLeaders,
                                        epPlannedExpiration = seqNo + ncMaxEpochLength config\<rparr>,
                           necStartingCheckpoint = \<lparr>cpSeqNo = seqNo, cpValue = Some v\<rparr>,
                           necFinalPreprepares = (if anySelected then digests else [])\<rparr>)
         }
     }"

section \<open>Counting epoch changes\<close>

definition changesWith :: "(parsedEpochChange \<Rightarrow> bool) \<Rightarrow> (u64, parsedEpochChange) gomap \<Rightarrow> u64 set" where
  "changesWith P epochChanges = {i. \<exists>ec. gm_lookup epochChanges i = Some ec \<and> P ec}"

lemma changesWith_set:
  assumes "gm_distinct epochChanges"
  shows "changesWith P epochChanges = fst ` set (filter (\<lambda>(_, ec). P ec) epochChanges)"
proof -
  have "gm_lookup epochChanges i = Some ec \<longleftrightarrow> (i, ec) \<in> set epochChanges" for i ec
    using assms by (auto simp: gm_distinct_def map_of_is_SomeI dest: map_of_SomeD)
  then show ?thesis by (force simp: changesWith_def)
qed

lemma countChanges_card:
  assumes "gm_distinct epochChanges"
  shows "countChanges P epochChanges = int (card (changesWith P epochChanges))"
proof -
  let ?f = "filter (\<lambda>(_, ec). P ec) epochChanges"
  have "distinct (map fst ?f)" using assms by (simp add: gm_distinct_def distinct_map_filter)
  then have "length ?f = card (fst ` set ?f)" by (metis distinct_card length_map list.set_map)
  then show ?thesis by (simp add: countChanges_def changesWith_set [OF assms])
qed

lemma changesWith_nodes: "fst ` set epochChanges \<subseteq> N \<Longrightarrow> changesWith P epochChanges \<subseteq> N"
  by (force simp: changesWith_def dest: map_of_SomeD)

lemma finite_changesWith: "finite (changesWith P epochChanges)"
  by (rule finite_subset [OF changesWith_nodes [OF subset_refl]]) simp

lemma selectEntry_Some:
  "selectEntry config epochChanges seqNo is = Some entry \<Longrightarrow>
    intersectionQuorum config \<le> countChanges (countsA1 seqNo entry) epochChanges \<and>
    someCorrectQuorum config \<le> countChanges (countsA2 seqNo entry) epochChanges"
  by (induction "is") (auto split: option.splits if_splits)

text \<open>How the digest for a sequence number was found: a selected entry, or nothing with condition B.\<close>

definition decidedFor :: "NetworkConfig \<Rightarrow> (u64, parsedEpochChange) gomap \<Rightarrow> bool \<Rightarrow> u64 \<Rightarrow> bytes \<Rightarrow> bool" where
  "decidedFor config epochChanges sel seqNo d \<longleftrightarrow>
     (case selectEntry config epochChanges seqNo (ncNodes config) of
        Some entry \<Rightarrow> d = seDigest entry \<and> sel
      | None \<Rightarrow> d = None \<and> intersectionQuorum config \<le> countChanges (countsB seqNo) epochChanges)"

lemma selectPreprepares_spec:
  assumes "selectPreprepares config epochChanges seqNos (digests, sel) = Some (digests', sel')"
  shows "\<exists>ds. digests' = digests @ ds \<and> (sel \<longrightarrow> sel') \<and> list_all2 (decidedFor config epochChanges sel') seqNos ds"
  using assms
proof (induction seqNos arbitrary: digests sel)
  case Nil
  then show ?case by simp
next
  case (Cons s seqNos)
  have step: "\<exists>ds. digests' = digests @ ds \<and> (sel \<longrightarrow> sel') \<and> list_all2 (decidedFor config epochChanges sel') (s # seqNos) ds"
    if "selectPreprepares config epochChanges seqNos (digests @ [d], sel0) = Some (digests', sel')" "sel \<longrightarrow> sel0"
      "sel0 \<longrightarrow> sel' \<Longrightarrow> decidedFor config epochChanges sel' s d" for d sel0
  proof -
    from Cons.IH [OF that(1)] obtain ds where "digests' = digests @ d # ds" "sel0 \<longrightarrow> sel'"
      "list_all2 (decidedFor config epochChanges sel') seqNos ds" by auto
    then show ?thesis using that(2,3) by (intro exI [of _ "d # ds"]) simp
  qed
  show ?case
  proof (cases "selectEntry config epochChanges s (ncNodes config)")
    case None
    have "decidedFor config epochChanges sel' s None" if "\<not> countChanges (countsB s) epochChanges < intersectionQuorum config"
      using None that by (simp add: decidedFor_def)
    then show ?thesis using None Cons.prems by (intro step [of None sel]) (simp_all split: if_splits)
  next
    case (Some entry)
    then have "sel' \<Longrightarrow> decidedFor config epochChanges sel' s (seDigest entry)" by (simp add: decidedFor_def)
    then show ?thesis using Some Cons.prems by (intro step [of "seDigest entry" True]) simp_all
  qed
qed

text \<open>What a configuration returned by \<open>constructNewEpochConfig\<close> says about one of its sequence numbers.\<close>

lemma constructNewEpochConfig_Some:
  assumes "constructNewEpochConfig config leaders epochChanges = Some (Some cfg)"
  obtains seqNo v digests sel where
    "selectCheckpoint config epochChanges (fst (collectCheckpoints config epochChanges)) None = Some (Some (seqNo, v))"
    "selectPreprepares config epochChanges (map (\<lambda>k. of_nat k + seqNo + 1) [0..<nat (sint (2 * ncCheckpointInterval config))])
       ([], False) = Some (digests, sel)"
    "necStartingCheckpoint cfg = \<lparr>cpSeqNo = seqNo, cpValue = Some v\<rparr>"
    "necFinalPreprepares cfg = (if sel then digests else [])"
    "necConfig cfg = \<lparr>epNumber = snd (collectCheckpoints config epochChanges), epLeaders = leaders,
       epPlannedExpiration = seqNo + ncMaxEpochLength config\<rparr>"
proof -
  obtain cps num where c: "collectCheckpoints config epochChanges = (cps, num)" by fastforce
  obtain mc where mc: "selectCheckpoint config epochChanges cps None = Some mc"
    using assms by (auto simp: constructNewEpochConfig_def c Let_def bind_eq_Some_conv)
  obtain seqNo v where m: "mc = Some (seqNo, v)"
    using assms by (cases mc) (auto simp: constructNewEpochConfig_def c mc)
  let ?p = "selectPreprepares config epochChanges (map (\<lambda>k. of_nat k + seqNo + 1) [0..<nat (sint (2 * ncCheckpointInterval config))])
       ([], False)"
  obtain digests sel where p: "?p = Some (digests, sel)"
    using assms by (cases ?p) (auto simp: constructNewEpochConfig_def c mc m Let_def bind_eq_Some_conv)
  show ?thesis using assms mc by (intro that) (auto simp: constructNewEpochConfig_def c m p Let_def bind_eq_Some_conv)
qed

lemma constructNewEpochConfig_at:
  assumes res: "constructNewEpochConfig config leaders epochChanges = Some (Some cfg)"
    and s: "s = of_nat k + cpSeqNo (necStartingCheckpoint cfg) + 1" and k: "int k < sint (2 * ncCheckpointInterval config)"
  shows "case selectEntry config epochChanges s (ncNodes config) of
     Some entry \<Rightarrow> k < length (necFinalPreprepares cfg) \<and> necFinalPreprepares cfg ! k = seDigest entry
   | None \<Rightarrow> intersectionQuorum config \<le> countChanges (countsB s) epochChanges"
proof -
  let ?n = "nat (sint (2 * ncCheckpointInterval config))"
  obtain seqNo v digests sel
    where sel: "selectPreprepares config epochChanges (map (\<lambda>k. of_nat k + seqNo + 1) [0..<?n]) ([], False) = Some (digests, sel)"
      and cfg: "necStartingCheckpoint cfg = \<lparr>cpSeqNo = seqNo, cpValue = Some v\<rparr>"
        "necFinalPreprepares cfg = (if sel then digests else [])"
    using res by (rule constructNewEpochConfig_Some)
  then have "list_all2 (decidedFor config epochChanges sel) (map (\<lambda>k. of_nat k + seqNo + 1) [0..<?n]) digests"
    using selectPreprepares_spec by fastforce
  moreover have kn: "k < ?n" using k by simp
  ultimately have "decidedFor config epochChanges sel s (digests ! k)" "k < length digests"
    using s cfg(1) by (auto dest: list_all2_nthD list_all2_lengthD)
  then show ?thesis using cfg(2) by (auto simp: decidedFor_def split: option.splits)
qed

section \<open>What parsing keeps\<close>

lemma scanCheckpoints_min: "scanCheckpoints Map.empty cs low = Inr (Min (insert low (cpSeqNo ` set cs)))"
proof (induction cs arbitrary: low)
  case (Cons c cs)
  have "Min (insert low (insert (cpSeqNo c) (cpSeqNo ` set cs))) = Min (insert (min (cpSeqNo c) low) (cpSeqNo ` set cs))"
    by (cases "cpSeqNo ` set cs = {}") (simp_all add: ac_simps)
  moreover have "(if cpSeqNo c < low then cpSeqNo c else low) = min (cpSeqNo c) low" by (auto simp: min_def)
  ultimately show ?case using Cons.IH by (simp add: Let_def)
qed simp

lemma parsePSet_ok:
  "(\<exists>pm. parsePSet es m = Inr pm) \<longleftrightarrow> distinct (map seSeqNo es) \<and> (\<forall>e \<in> set es. m (seSeqNo e) = None)"
  by (induction es arbitrary: m) (auto simp: image_iff dest: sym split: option.splits)

lemma parsePSet_lookup:
  "parsePSet es m = Inr pm \<Longrightarrow> pm s = Some entry \<longleftrightarrow> m s = Some entry \<or> entry \<in> set es \<and> seSeqNo entry = s"
proof (induction es arbitrary: m)
  case (Cons e es)
  from Cons.prems have none: "m (seSeqNo e) = None" and rec: "parsePSet es (m(seSeqNo e \<mapsto> e)) = Inr pm"
    by (auto split: option.splits)
  show ?case using Cons.IH [OF rec] none by auto
qed simp

definition lookup2 :: "(u64 \<rightharpoonup> (u64, bytes) gomap) \<Rightarrow> u64 \<Rightarrow> u64 \<Rightarrow> bytes option" where
  "lookup2 q s ep = (case q s of None \<Rightarrow> None | Some views \<Rightarrow> gm_lookup views ep)"

lemma parseQSet_step:
  "parseQSet (e # es) q = (if lookup2 q (seSeqNo e) (seEpoch e) \<noteq> None then Inl (DuplicateQEntry (seSeqNo e) (seEpoch e))
     else parseQSet es (q(seSeqNo e \<mapsto> gm_update (seEpoch e) (seDigest e) (case q (seSeqNo e) of None \<Rightarrow> [] | Some views \<Rightarrow> views))))"
  by (auto simp: lookup2_def Let_def split: option.splits)

lemma lookup2_update:
  "lookup2 (q(s \<mapsto> gm_update ep d (case q s of None \<Rightarrow> [] | Some views \<Rightarrow> views))) s' ep' =
     (if s' = s \<and> ep' = ep then Some d else lookup2 q s' ep')"
  by (auto simp: lookup2_def update_conv' split: option.splits)

declare parseQSet.simps(2) [simp del]

lemma parseQSet_ok:
  "(\<exists>qm. parseQSet es q = Inr qm) \<longleftrightarrow> distinct (map (\<lambda>e. (seSeqNo e, seEpoch e)) es) \<and>
     (\<forall>e \<in> set es. lookup2 q (seSeqNo e) (seEpoch e) = None)"
  by (induction es arbitrary: q) (auto simp: parseQSet_step lookup2_update image_iff dest: sym split: if_splits)

lemma parseQSet_lookup:
  "parseQSet es q = Inr qm \<Longrightarrow> lookup2 qm s ep = Some d \<longleftrightarrow>
     lookup2 q s ep = Some d \<or> \<lparr>seEpoch = ep, seSeqNo = s, seDigest = d\<rparr> \<in> set es"
proof (induction es arbitrary: q)
  case (Cons e es)
  from Cons.prems have none: "lookup2 q (seSeqNo e) (seEpoch e) = None"
    and rec: "parseQSet es (q(seSeqNo e \<mapsto> gm_update (seEpoch e) (seDigest e)
      (case q (seSeqNo e) of None \<Rightarrow> [] | Some views \<Rightarrow> views))) = Inr qm"
    by (auto simp: parseQSet_step split: if_splits)
  have "\<lparr>seEpoch = ep, seSeqNo = s, seDigest = d\<rparr> = e \<longleftrightarrow> s = seSeqNo e \<and> ep = seEpoch e \<and> d = seDigest e" by (cases e) auto
  then show ?case using Cons.IH [OF rec, unfolded lookup2_update] none by (auto split: if_splits)
qed simp

section \<open>The selected checkpoint\<close>

definition supportersOf :: "checkpointKey \<Rightarrow> (checkpointKey, u64 list) gomap \<Rightarrow> u64 list" where
  "supportersOf key cps = (case gm_lookup cps key of None \<Rightarrow> [] | Some ns \<Rightarrow> ns)"

abbreviation cpKey :: "CheckpointMsg \<Rightarrow> checkpointKey" where
  "cpKey c \<equiv> (cpSeqNo c, bstr (cpValue c))"

definition reportCount :: "checkpointKey \<Rightarrow> parsedEpochChange option \<Rightarrow> nat" where
  "reportCount key eco = (case eco of None \<Rightarrow> 0 | Some ec \<Rightarrow> count_list (map cpKey (ecmCheckpoints (peUnderlying ec))) key)"

lemma supportersOf_update: "supportersOf key (gm_update k v cps) = (if key = k then v else supportersOf key cps)"
  by (simp add: supportersOf_def update_conv')

lemma collect_node:
  "supportersOf key (fold (\<lambda>c cps. let k = cpKey c; supporters = (case gm_lookup cps k of None \<Rightarrow> [] | Some ns \<Rightarrow> ns)
       in gm_update k (supporters @ [i]) cps) cs cps) =
   supportersOf key cps @ replicate (count_list (map cpKey cs) key) i"
proof (induction cs arbitrary: cps)
  case (Cons c cs)
  have "replicate n i @ [i] = i # replicate n i" for n by (induction n) auto
  then show ?case unfolding fold_simps o_apply Cons.IH
    by (simp add: Let_def supportersOf_update supportersOf_def [symmetric])
qed simp

lemma collectCheckpoints_supporters:
  "supportersOf key (fst (collectCheckpoints config epochChanges)) =
     concat (map (\<lambda>i. replicate (reportCount key (gm_lookup epochChanges i)) i) (ncNodes config))"
proof -
  define f where "f = (\<lambda>i (checkpoints, newEpochNumber :: u64).
          case gm_lookup epochChanges i of
            None \<Rightarrow> (checkpoints, newEpochNumber)
          | Some ec \<Rightarrow>
              (fold (\<lambda>c cps. let k = cpKey c; supporters = (case gm_lookup cps k of None \<Rightarrow> [] | Some ns \<Rightarrow> ns)
                 in gm_update k (supporters @ [i]) cps) (ecmCheckpoints (peUnderlying ec)) checkpoints,
               ecmNewEpoch (peUnderlying ec)))"
  have step: "supportersOf key (fst (f i s)) = supportersOf key (fst s) @ replicate (reportCount key (gm_lookup epochChanges i)) i" for i s
    by (cases s) (auto simp: f_def reportCount_def Let_def collect_node [unfolded Let_def] split: option.split)
  have "supportersOf key (fst (fold f is s)) =
      supportersOf key (fst s) @ concat (map (\<lambda>i. replicate (reportCount key (gm_lookup epochChanges i)) i) is)" for "is" s
    by (induction "is" arbitrary: s) (simp_all add: step)
  then show ?thesis by (simp add: collectCheckpoints_def f_def [symmetric] supportersOf_def)
qed

lemma collectCheckpoints_distinct: "distinct (map fst (fst (collectCheckpoints config epochChanges)))"
proof -
  have node: "distinct (map fst cps) \<Longrightarrow> distinct (map fst (fold (\<lambda>c cps. let k = cpKey c;
      supporters = (case gm_lookup cps k of None \<Rightarrow> [] | Some ns \<Rightarrow> ns) in gm_update k (supporters @ [i]) cps) cs cps))"
    for i cs and cps :: "(checkpointKey, u64 list) gomap"
    by (induction cs arbitrary: cps) (simp_all add: Let_def distinct_update)
  show ?thesis unfolding collectCheckpoints_def
    by (rule fold_invariant [where Q = "\<lambda>_. True" and P = "\<lambda>s. distinct (map fst (fst s))"])
      (auto simp: Let_def node [unfolded Let_def] split: option.splits)
qed

lemma count_list_pos: "0 < count_list xs x \<Longrightarrow> x \<in> set xs"
  by (rule ccontr) simp

lemma distinct_count_le: "distinct xs \<Longrightarrow> count_list xs x \<le> Suc 0"
  by (induction xs) auto

lemma distinct_concat_replicate:
  "distinct is \<Longrightarrow> (\<And>i. f i \<le> (1 :: nat)) \<Longrightarrow> distinct (concat (map (\<lambda>i. replicate (f i) i) is))"
proof (induction "is")
  case (Cons i "is")
  have "f i = 0 \<or> f i = 1" using Cons.prems(2) [of i] by linarith
  then show ?case using Cons by auto
qed simp

lemma selectCheckpoint_eligible:
  "selectCheckpoint config epochChanges ks best = Some (Some key) \<Longrightarrow>
     best = Some key \<or> (\<exists>ns. (key, ns) \<in> set ks \<and> eligible config epochChanges (key, ns))"
proof (induction ks arbitrary: best)
  case (Cons kn ks)
  obtain k ns where kn: "kn = (k, ns)" by (cases kn)
  with Cons.prems have "selectCheckpoint config epochChanges ks best = Some (Some key) \<or>
      selectCheckpoint config epochChanges ks (Some k) = Some (Some key) \<and> eligible config epochChanges (k, ns)"
    by (auto split: if_splits option.splits)
  then show ?case using Cons.IH [of best] Cons.IH [of "Some k"] by (auto simp: kn)
qed simp

text \<open>With at most one eligible checkpoint per sequence number, the highest one is selected.\<close>

definition isTop :: "checkpointKey set \<Rightarrow> checkpointKey option \<Rightarrow> bool" where
  "isTop E r \<longleftrightarrow> (case r of None \<Rightarrow> E = {} | Some key \<Rightarrow> key \<in> E \<and> (\<forall>key' \<in> E. fst key' \<le> fst key))"

lemma isTop_insert: "isTop (insert b E) r \<Longrightarrow> fst k < fst b \<Longrightarrow> isTop (insert k (insert b E)) r"
  by (auto simp: isTop_def split: option.splits intro: order_trans less_imp_le)

lemma isTop_unique:
  assumes "isTop E r" "isTop E r'" "inj_on fst E"
  shows "r = r'"
proof (cases "E = {}")
  case False
  then obtain key key' where k: "r = Some key" "r' = Some key'" using assms(1,2) by (cases r; cases r') (auto simp: isTop_def)
  then have "key \<in> E" "key' \<in> E" "fst key = fst key'" using assms(1,2) by (auto simp: isTop_def intro: order_antisym)
  then show ?thesis using k inj_onD [OF assms(3)] by blast
qed (use assms in \<open>auto simp: isTop_def split: option.splits\<close>)

definition eligibleKeys ::
  "NetworkConfig \<Rightarrow> (u64, parsedEpochChange) gomap \<Rightarrow> (checkpointKey, u64 list) gomap \<Rightarrow> checkpointKey list" where
  "eligibleKeys config epochChanges ks = map fst (filter (eligible config epochChanges) ks)"

lemma selectCheckpoint_max:
  assumes "distinct (map fst (eligibleKeys config epochChanges ks) @ (case best of None \<Rightarrow> [] | Some b \<Rightarrow> [fst b]))"
  shows "\<exists>r. selectCheckpoint config epochChanges ks best = Some r \<and>
    isTop (set (eligibleKeys config epochChanges ks) \<union> set_option best) r"
  using assms
proof (induction ks arbitrary: best)
  case Nil
  then show ?case by (auto simp: isTop_def eligibleKeys_def split: option.split)
next
  case (Cons kn ks)
  obtain k ns where kn: "kn = (k, ns)" by (cases kn)
  let ?E = "set (eligibleKeys config epochChanges ks)"
  show ?case
  proof (cases "eligible config epochChanges kn")
    case False
    then show ?thesis using Cons.IH [of best] Cons.prems by (simp add: kn eligibleKeys_def)
  next
    case True
    then have E: "set (eligibleKeys config epochChanges (kn # ks)) = insert k ?E" by (simp add: eligibleKeys_def kn)
    show ?thesis
    proof (cases best)
      case None
      then show ?thesis using True Cons.IH [of "Some k"] Cons.prems by (auto simp: kn eligibleKeys_def)
    next
      case (Some b)
      then have ne: "fst b \<noteq> fst k" and d: "distinct (map fst (eligibleKeys config epochChanges ks) @ [fst b])"
          "distinct (map fst (eligibleKeys config epochChanges ks) @ [fst k])"
        using Cons.prems True by (auto simp: kn eligibleKeys_def)
      obtain r where "selectCheckpoint config epochChanges (kn # ks) best = Some r"
          "isTop (insert b ?E) r \<and> fst k < fst b \<or> isTop (insert k ?E) r \<and> fst b < fst k"
        using True Some ne Cons.IH [of "Some b"] Cons.IH [of "Some k"] d
        by (cases "fst k < fst b") (auto simp: kn)
      then show ?thesis using isTop_insert [of b ?E r k] isTop_insert [of k ?E r b] by (auto simp: E Some insert_commute)
    qed
  qed
qed

lemma selectCheckpoint_perm:
  assumes one: "distinct (map fst (eligibleKeys config epochChanges ks))" and perm: "mset ks' = mset ks"
  shows "selectCheckpoint config epochChanges ks' None = selectCheckpoint config epochChanges ks None"
proof -
  have m: "mset (eligibleKeys config epochChanges ks') = mset (eligibleKeys config epochChanges ks)"
    using perm by (simp add: eligibleKeys_def mset_filter)
  then have one': "distinct (map fst (eligibleKeys config epochChanges ks'))"
    using one by (metis mset_eq_imp_distinct_iff mset_map)
  have s: "set (eligibleKeys config epochChanges ks') = set (eligibleKeys config epochChanges ks)" using m by (rule mset_eq_setD)
  obtain r where r: "selectCheckpoint config epochChanges ks None = Some r" "isTop (set (eligibleKeys config epochChanges ks)) r"
    using selectCheckpoint_max [of config epochChanges ks None] one by auto
  obtain r' where r': "selectCheckpoint config epochChanges ks' None = Some r'" "isTop (set (eligibleKeys config epochChanges ks)) r'"
    using selectCheckpoint_max [of config epochChanges ks' None] one' s by auto
  have "r = r'" by (rule isTop_unique [OF r(2) r'(2)]) (use one in \<open>simp add: distinct_map\<close>)
  then show ?thesis using r r' by simp
qed

section \<open>Independence of the iteration order\<close>

lemma same_counts:
  assumes "gm_distinct ecs" and "mset ecs' = mset ecs"
  shows "gm_lookup ecs' = gm_lookup ecs" and "countChanges P ecs' = countChanges P ecs"
proof -
  have "mset (map fst ecs') = mset (map fst ecs)" using assms(2) by simp
  then have "distinct (map fst ecs')" using assms(1) unfolding gm_distinct_def by (metis mset_eq_imp_distinct_iff)
  then show "gm_lookup ecs' = gm_lookup ecs"
    using assms(1) mset_eq_setD [OF assms(2)] unfolding gm_distinct_def by (simp add: map_of_inject_set)
  have "mset (filter (\<lambda>(_, ec). P ec) ecs') = mset (filter (\<lambda>(_, ec). P ec) ecs)" using assms(2) by (simp add: mset_filter)
  then show "countChanges P ecs' = countChanges P ecs" unfolding countChanges_def by (metis size_mset)
qed

lemma constructNewEpochConfig_cong:
  assumes lookups: "gm_lookup ecs' = gm_lookup ecs" and counts: "\<And>P. countChanges P ecs' = countChanges P ecs"
  shows "selectCheckpoint config ecs' = selectCheckpoint config ecs"
    and "constructNewEpochConfig config leaders ecs' = constructNewEpochConfig config leaders ecs"
proof -
  have el: "eligible config ecs' = eligible config ecs"
    using counts by (auto simp: eligible_def countChanges_def fun_eq_iff)
  have "selectCheckpoint config ecs' ks best = selectCheckpoint config ecs ks best" for ks best
    by (induction ks arbitrary: best) (auto simp: el split: option.split)
  then show sc: "selectCheckpoint config ecs' = selectCheckpoint config ecs" by (intro ext)
  have se: "selectEntry config ecs' s is = selectEntry config ecs s is" for s "is"
    by (induction "is") (auto simp: lookups counts split: option.split)
  have "selectPreprepares config ecs' ss acc = selectPreprepares config ecs ss acc" for ss acc
    by (induction ss arbitrary: acc) (auto simp: se counts split: option.split)
  then have sp: "selectPreprepares config ecs' = selectPreprepares config ecs" by (intro ext)
  have "collectCheckpoints config ecs' = collectCheckpoints config ecs" by (simp add: collectCheckpoints_def lookups)
  then show "constructNewEpochConfig config leaders ecs' = constructNewEpochConfig config leaders ecs"
    unfolding constructNewEpochConfig_def sc sp by simp
qed

section \<open>Properties\<close>

text \<open>C1. A committed sequence survives the change of epoch: suppose a quorum prepared a digest for a sequence
  number in some epoch, so that its correct members report a P entry of that epoch or a later one
  (unless their checkpoints have passed the number), and that correct nodes neither prepared another
  digest since then nor preprepared one in a later epoch. Then a new epoch configuration whose window
  contains the sequence number assigns it that digest.\<close>

theorem new_epoch_preserves_commits:
  assumes wf: "wf_config nc" and faulty: "finite faulty" "int (card faulty) \<le> sint (ncF nc)"
    and ecs: "gm_distinct epochChanges" "fst ` set epochChanges \<subseteq> set (ncNodes nc)"
    and quorum: "Q \<subseteq> set (ncNodes nc)" "intersectionQuorum nc \<le> int (card Q)"
    and prepared: "\<forall>i \<in> Q - faulty. \<forall>ec. gm_lookup epochChanges i = Some ec \<longrightarrow>
        s \<le> peLowWatermark ec \<or> (\<exists>entry. pePSet ec s = Some entry \<and> e \<le> seEpoch entry)"
    and honestP: "\<forall>i ec entry. i \<notin> faulty \<and> gm_lookup epochChanges i = Some ec \<and> pePSet ec s = Some entry \<and>
        e \<le> seEpoch entry \<longrightarrow> bytes_equal (seDigest entry) d"
    and honestQ: "\<forall>i ec views ep dg. i \<notin> faulty \<and> gm_lookup epochChanges i = Some ec \<and> peQSet ec s = Some views \<and>
        (ep, dg) \<in> set views \<and> e < ep \<longrightarrow> bytes_equal dg d"
    and res: "constructNewEpochConfig nc leaders epochChanges = Some (Some cfg)"
    and s: "s = of_nat k + cpSeqNo (necStartingCheckpoint cfg) + 1" and k: "int k < sint (2 * ncCheckpointInterval nc)"
  shows "k < length (necFinalPreprepares cfg) \<and> bytes_equal (necFinalPreprepares cfg ! k) d"
proof -
  note count = countChanges_card [OF ecs(1)] and nodes = changesWith_nodes [OF ecs(2)]
  have meet: "\<exists>i ec entry. i \<notin> faulty \<and> gm_lookup epochChanges i = Some ec \<and> P ec \<and> pePSet ec s = Some entry \<and> e \<le> seEpoch entry"
    if "intersectionQuorum nc \<le> countChanges P epochChanges" "\<And>ec. P ec \<Longrightarrow> \<not> s \<le> peLowWatermark ec" for P
  proof -
    note P = that
    obtain i where "i \<in> changesWith P epochChanges" "i \<in> Q" "i \<notin> faulty"
      using nq.strong_common_correct [OF wf nodes quorum(1) P(1) [unfolded count] quorum(2) faulty] by blast
    then show ?thesis using prepared P(2) unfolding changesWith_def by blast
  qed
  have "\<not> intersectionQuorum nc \<le> countChanges (countsB s) epochChanges"
    using meet [of "countsB s"] by (auto simp: countsB_def)
  then obtain entry where entry: "selectEntry nc epochChanges s (ncNodes nc) = Some entry"
      and at: "k < length (necFinalPreprepares cfg)" "necFinalPreprepares cfg ! k = seDigest entry"
    using constructNewEpochConfig_at [OF res s k] by (auto split: option.splits)
  note A = selectEntry_Some [OF entry]
  obtain i ec p where p: "i \<notin> faulty" "gm_lookup epochChanges i = Some ec" "countsA1 s entry ec"
      "pePSet ec s = Some p" "e \<le> seEpoch p"
    using meet [of "countsA1 s entry"] A by (auto simp: countsA1_def)
  have dp: "bytes_equal (seDigest p) d" using honestP p by blast
  have "bytes_equal (seDigest entry) d"
  proof (cases "seEpoch p < seEpoch entry")
    case False
    then show ?thesis using p(3,4) dp by (auto simp: countsA1_def split: if_splits)
  next
    case True
    obtain j where "j \<in> changesWith (countsA2 s entry) epochChanges" "j \<notin> faulty"
      using nq.weak_correct [OF wf finite_changesWith _ faulty] A unfolding count by blast
    then obtain ecj views ep dg where "gm_lookup epochChanges j = Some ecj" "peQSet ecj s = Some views"
        "(ep, dg) \<in> set views" "\<not> ep < seEpoch entry" "bytes_equal (seDigest entry) dg" "j \<notin> faulty"
      by (auto simp: changesWith_def countsA2_def list_ex_iff split: option.splits)
    moreover have "e < ep" using True p(5) calculation by simp
    ultimately show ?thesis using honestQ by (metis bytes_equal_iff)
  qed
  then show ?thesis using at by simp
qed


text \<open>Three nodes of four that prepared sequence 1 with one digest in epoch 1.\<close>

definition sampleEC :: EpochChangeMsg where
  "sampleEC = \<lparr>ecmNewEpoch = 2, ecmCheckpoints = [\<lparr>cpSeqNo = 0, cpValue = Some [7]\<rparr>],
     ecmPSet = [\<lparr>seEpoch = 1, seSeqNo = 1, seDigest = Some [5]\<rparr>], ecmQSet = [\<lparr>seEpoch = 1, seSeqNo = 1, seDigest = Some [5]\<rparr>]\<rparr>"

definition sampleParsed :: parsedEpochChange where
  "sampleParsed = (case newParsedEpochChange sampleEC of Inr pc \<Rightarrow> pc | Inl _ \<Rightarrow> undefined)"

definition sampleECs :: "(u64, parsedEpochChange) gomap" where
  "sampleECs = [(0, sampleParsed), (1, sampleParsed), (2, sampleParsed)]"

definition sampleNEC :: NewEpochConfig where
  "sampleNEC = the (the (constructNewEpochConfig sampleNet [0] sampleECs))"

lemma sampleParsed_fields:
  "pePSet sampleParsed 1 = Some \<lparr>seEpoch = 1, seSeqNo = 1, seDigest = Some [5]\<rparr>" "peQSet sampleParsed 1 = Some [(1, Some [5])]"
  by code_simp+

lemma sampleECs_lookup: "gm_lookup sampleECs i = Some ec \<Longrightarrow> ec = sampleParsed"
  by (auto simp: sampleECs_def split: if_splits)

lemma sampleNEC_result:
  "constructNewEpochConfig sampleNet [0] sampleECs = Some (Some sampleNEC)" "cpSeqNo (necStartingCheckpoint sampleNEC) = 0"
proof -
  have "constructNewEpochConfig sampleNet [0] sampleECs \<noteq> None" "the (constructNewEpochConfig sampleNet [0] sampleECs) \<noteq> None"
    by code_simp+
  then show "constructNewEpochConfig sampleNet [0] sampleECs = Some (Some sampleNEC)" by (auto simp: sampleNEC_def)
  show "cpSeqNo (necStartingCheckpoint sampleNEC) = 0" by code_simp
qed

theorem new_epoch_preserves_commits_witness:
  "0 < length (necFinalPreprepares sampleNEC) \<and> bytes_equal (necFinalPreprepares sampleNEC ! 0) (Some [5])"
proof (rule new_epoch_preserves_commits [where nc = sampleNet and faulty = "{3}" and epochChanges = sampleECs
      and Q = "{0, 1, 2}" and s = 1 and e = 1 and leaders = "[0]" and cfg = sampleNEC and k = 0])
  show "gm_distinct sampleECs" "fst ` set sampleECs \<subseteq> set (ncNodes sampleNet)"
    by (auto simp: gm_distinct_def sampleECs_def sampleNet_def)
qed (auto simp: sampleNEC_result dest!: sampleECs_lookup simp: sampleParsed_fields, auto simp: sampleNet_def)

text \<open>C20. The new epoch's configuration does not depend on the order in which Go ranges over the maps: the
  epoch changes may be listed in any order, and so may the reported checkpoints as long as no two
  eligible ones have the same sequence number.\<close>

theorem new_epoch_order_irrelevant:
  assumes "gm_distinct ecs" and "mset ecs' = mset ecs"
    and "mset ks = mset (fst (collectCheckpoints nc ecs))"
    and "distinct (map fst (eligibleKeys nc ecs (fst (collectCheckpoints nc ecs))))"
  shows "constructNewEpochConfig nc leaders ecs' = constructNewEpochConfig nc leaders ecs \<and>
    selectCheckpoint nc ecs' ks None = selectCheckpoint nc ecs (fst (collectCheckpoints nc ecs)) None"
  using constructNewEpochConfig_cong [OF same_counts [OF assms(1,2)]] selectCheckpoint_perm [OF assms(4,3)] by simp

theorem new_epoch_order_irrelevant_witness:
  "constructNewEpochConfig sampleNet [0] (rev sampleECs) = constructNewEpochConfig sampleNet [0] sampleECs"
proof -
  have "gm_distinct sampleECs" by (simp add: gm_distinct_def sampleECs_def)
  moreover have "distinct (map fst (eligibleKeys sampleNet sampleECs (fst (collectCheckpoints sampleNet sampleECs))))" by code_simp
  ultimately show ?thesis using new_epoch_order_irrelevant [of sampleECs "rev sampleECs"] by auto
qed

text \<open>C19. A new epoch starts from a checkpoint a correct node reported: when no epoch change repeats a
  checkpoint, the starting checkpoint is one some correct node listed with that value, and the logs of
  a quorum of nodes reach back to it.\<close>

theorem new_epoch_checkpoint_reported:
  assumes wf: "wf_config nc" and faulty: "finite faulty" "int (card faulty) \<le> sint (ncF nc)"
    and ecs: "gm_distinct epochChanges"
    and once: "\<forall>i ec. gm_lookup epochChanges i = Some ec \<longrightarrow> distinct (map cpKey (ecmCheckpoints (peUnderlying ec)))"
    and res: "constructNewEpochConfig nc leaders epochChanges = Some (Some cfg)"
  shows "(\<exists>i ec c. i \<notin> faulty \<and> gm_lookup epochChanges i = Some ec \<and> c \<in> set (ecmCheckpoints (peUnderlying ec)) \<and>
      cpSeqNo c = cpSeqNo (necStartingCheckpoint cfg) \<and> bytes_equal (cpValue c) (cpValue (necStartingCheckpoint cfg))) \<and>
    intersectionQuorum nc \<le> int (card (changesWith (\<lambda>ec. peLowWatermark ec \<le> cpSeqNo (necStartingCheckpoint cfg)) epochChanges))"
proof -
  let ?cps = "fst (collectCheckpoints nc epochChanges)"
  obtain seqNo v where sel: "selectCheckpoint nc epochChanges ?cps None = Some (Some (seqNo, v))"
      and cfg: "necStartingCheckpoint cfg = \<lparr>cpSeqNo = seqNo, cpValue = Some v\<rparr>"
    using res by (rule constructNewEpochConfig_Some)
  let ?k = "(seqNo, v)"
  obtain ns where ns: "(?k, ns) \<in> set ?cps" "eligible nc epochChanges (?k, ns)"
    using selectCheckpoint_eligible [OF sel] by auto
  have "gm_lookup ?cps ?k = Some ns" by (rule map_of_is_SomeI [OF collectCheckpoints_distinct ns(1)])
  then have sup: "ns = concat (map (\<lambda>i. replicate (reportCount ?k (gm_lookup epochChanges i)) i) (ncNodes nc))"
    using collectCheckpoints_supporters [of ?k nc epochChanges] by (simp add: supportersOf_def)
  have le1: "reportCount ?k (gm_lookup epochChanges i) \<le> 1" for i
    using once by (auto simp: reportCount_def distinct_count_le split: option.split)
  have "distinct ns" unfolding sup using wf le1 by (intro distinct_concat_replicate) (auto simp: wf_config_def)
  then have "someCorrectQuorum nc \<le> int (card (set ns))" using ns(2) by (simp add: eligible_def distinct_card)
  then obtain i where i: "i \<in> set ns" "i \<notin> faulty" using nq.weak_correct [OF wf _ _ faulty, of "set ns"] by auto
  from i(1) obtain ec where "gm_lookup epochChanges i = Some ec" "0 < count_list (map cpKey (ecmCheckpoints (peUnderlying ec))) ?k"
    unfolding sup by (auto simp: reportCount_def split: option.splits)
  then have "?k \<in> set (map cpKey (ecmCheckpoints (peUnderlying ec)))" by (intro count_list_pos)
  then obtain c where "c \<in> set (ecmCheckpoints (peUnderlying ec))" "cpKey c = ?k" by auto
  with \<open>gm_lookup epochChanges i = Some ec\<close> i(2) cfg
  have "\<exists>i ec c. i \<notin> faulty \<and> gm_lookup epochChanges i = Some ec \<and> c \<in> set (ecmCheckpoints (peUnderlying ec)) \<and>
      cpSeqNo c = cpSeqNo (necStartingCheckpoint cfg) \<and> bytes_equal (cpValue c) (cpValue (necStartingCheckpoint cfg))"
    by (intro exI [of _ i] exI [of _ ec] exI [of _ c]) simp
  moreover have "intersectionQuorum nc \<le> countChanges (\<lambda>ec. peLowWatermark ec \<le> seqNo) epochChanges"
    using ns(2) by (simp add: eligible_def countChanges_def)
  ultimately show ?thesis by (simp add: countChanges_card [OF ecs] cfg)
qed

theorem new_epoch_checkpoint_reported_witness:
  "\<exists>i ec c. i \<noteq> 3 \<and> gm_lookup sampleECs i = Some ec \<and> c \<in> set (ecmCheckpoints (peUnderlying ec)) \<and>
     cpSeqNo c = cpSeqNo (necStartingCheckpoint sampleNEC)"
proof -
  have "distinct (map cpKey (ecmCheckpoints (peUnderlying sampleParsed)))" by code_simp
  then have "\<forall>i ec. gm_lookup sampleECs i = Some ec \<longrightarrow> distinct (map cpKey (ecmCheckpoints (peUnderlying ec)))"
    by (auto dest!: sampleECs_lookup)
  moreover have "gm_distinct sampleECs" by (simp add: gm_distinct_def sampleECs_def)
  moreover have "int (card {3 :: u64}) \<le> sint (ncF sampleNet)" by (simp add: sampleNet_def)
  ultimately show ?thesis
    using new_epoch_checkpoint_reported [OF sampleNet_wf _ _ _ _ sampleNEC_result(1), of "{3}"] by auto
qed

text \<open>A single faulty node can choose the starting checkpoint: repeating a forged checkpoint in its epoch
  change makes it count as often as it is repeated, and the new epoch starts from it although no other
  node has reported it.\<close>

theorem forged_checkpoint_selected:
  "let forged = \<lparr>ecmNewEpoch = 2, ecmCheckpoints = replicate 2 \<lparr>cpSeqNo = 5, cpValue = Some [9]\<rparr>, ecmPSet = [], ecmQSet = []\<rparr>;
       honest = \<lparr>ecmNewEpoch = 2, ecmCheckpoints = [\<lparr>cpSeqNo = 0, cpValue = Some [7]\<rparr>], ecmPSet = [], ecmQSet = []\<rparr>
   in map_option (map_option necStartingCheckpoint)
        (case (newParsedEpochChange forged, newParsedEpochChange honest) of
           (Inr f, Inr h) \<Rightarrow> constructNewEpochConfig sampleNet [0] [(0, h), (1, h), (2, h), (3, f)]
         | _ \<Rightarrow> None) = Some (Some \<lparr>cpSeqNo = 5, cpValue = Some [9]\<rparr>)"
  by code_simp

text \<open>Parsing an epoch change accepts exactly the ones that list a checkpoint, at most one P entry per
  sequence number and at most one Q entry per sequence number and epoch, and the parsed tables hold
  exactly the listed entries; the low watermark is the lowest listed checkpoint.\<close>

theorem newParsedEpochChange_spec:
  "case newParsedEpochChange m of
     Inl _ \<Rightarrow> ecmCheckpoints m = [] \<or> \<not> distinct (map seSeqNo (ecmPSet m)) \<or>
       \<not> distinct (map (\<lambda>e. (seSeqNo e, seEpoch e)) (ecmQSet m))
   | Inr pc \<Rightarrow> ecmCheckpoints m \<noteq> [] \<and> distinct (map seSeqNo (ecmPSet m)) \<and>
       distinct (map (\<lambda>e. (seSeqNo e, seEpoch e)) (ecmQSet m)) \<and> peUnderlying pc = m \<and> peAcks pc = [] \<and>
       peLowWatermark pc = Min (cpSeqNo ` set (ecmCheckpoints m)) \<and>
       (\<forall>s entry. pePSet pc s = Some entry \<longleftrightarrow> entry \<in> set (ecmPSet m) \<and> seSeqNo entry = s) \<and>
       (\<forall>s ep d. lookup2 (peQSet pc) s ep = Some d \<longleftrightarrow> \<lparr>seEpoch = ep, seSeqNo = s, seDigest = d\<rparr> \<in> set (ecmQSet m))"
proof -
  have l: "lookup2 Map.empty s ep = None" for s ep by (simp add: lookup2_def)
  note P = parsePSet_ok [of "ecmPSet m" Map.empty, simplified] and Q = parseQSet_ok [of "ecmQSet m" Map.empty, simplified l simp_thms ball_triv]
  show ?thesis
  proof (cases "ecmCheckpoints m")
    case (Cons c cs)
    then have low: "scanCheckpoints Map.empty (ecmCheckpoints m) (cpSeqNo c) = Inr (Min (cpSeqNo ` set (ecmCheckpoints m)))"
      unfolding scanCheckpoints_min by (simp add: insert_absorb)
    show ?thesis
    proof (cases "parsePSet (ecmPSet m) Map.empty")
      case (Inr pm)
      note pm = this
      show ?thesis
      proof (cases "parseQSet (ecmQSet m) Map.empty")
        case (Inr qm)
        then show ?thesis using P Q Cons low pm parsePSet_lookup [OF pm] parseQSet_lookup [OF Inr]
          by (simp add: newParsedEpochChange_def l)
      qed (use P Q Cons low pm in \<open>auto simp: newParsedEpochChange_def\<close>)
    qed (use P Q Cons low in \<open>auto simp: newParsedEpochChange_def\<close>)
  qed (simp add: newParsedEpochChange_def)
qed

theorem newParsedEpochChange_spec_witness:
  "\<exists>pc. newParsedEpochChange sampleEC = Inr pc \<and> peLowWatermark pc = Min (cpSeqNo ` set (ecmCheckpoints sampleEC)) \<and>
     pePSet pc 1 = Some \<lparr>seEpoch = 1, seSeqNo = 1, seDigest = Some [5]\<rparr>"
proof -
  have "case newParsedEpochChange sampleEC of Inl _ \<Rightarrow> False | Inr _ \<Rightarrow> True" by code_simp
  then obtain pc where pc: "newParsedEpochChange sampleEC = Inr pc" by (auto split: sum.splits)
  then show ?thesis using newParsedEpochChange_spec [of sampleEC] by (simp add: sampleEC_def)
qed

end
