(* ===== verification/Mir_BatchTracker.thy ===== *)
theory Mir_BatchTracker
  imports Mir_Persisted
begin

text \<open>
  \<open>pkg/statemachine/batch_tracker.go\<close>: the batches this node knows by digest, the sequence numbers they
  were seen at, and the fetches under way. A batch is reached only through \<open>batchesByDigest\<close>, so the map
  holds it as a value; \<open>observedSequences\<close> is the list of its members.
\<close>

section \<open>Data\<close>

record batch =
  baObservedSequences :: "u64 list"
  baRequestAcks :: "RequestAck list"

record batchTracker =
  btBatchesByDigest :: "(byte list, batch) gomap"
  btFetchInFlight :: "(byte list, u64 list) gomap"

section \<open>Operations\<close>

definition newBatchTracker :: batchTracker where
  [go_defs]: "newBatchTracker = \<lparr>btBatchesByDigest = [], btFetchInFlight = []\<rparr>"

definition getBatch :: "bytes \<Rightarrow> batchTracker \<Rightarrow> batch option" where
  [go_defs]: "getBatch digest bt = gm_lookup (btBatchesByDigest bt) (bstr digest)"

definition hasFetchInFlight :: "batchTracker \<Rightarrow> bool" where
  [go_defs]: "hasFetchInFlight bt \<longleftrightarrow> length (btFetchInFlight bt) > 0"

text \<open>\<open>batch.observedSequences[seqNo] = struct{}{}\<close> for a batch obtained from the map.\<close>

definition observe :: "byte list \<Rightarrow> u64 \<Rightarrow> batch \<Rightarrow> batchTracker \<Rightarrow> batchTracker" where
  [go_defs]: "observe key seqNo b bt =
     bt\<lparr>btBatchesByDigest := gm_update key (b\<lparr>baObservedSequences := ls_insert seqNo (baObservedSequences b)\<rparr>)
          (btBatchesByDigest bt)\<rparr>"

definition observeAll :: "u64 list \<Rightarrow> batch \<Rightarrow> batch" where
  [go_defs]: "observeAll seqNos b = b\<lparr>baObservedSequences := fold ls_insert seqNos (baObservedSequences b)\<rparr>"

definition addBatch :: "u64 \<Rightarrow> bytes \<Rightarrow> RequestAck list \<Rightarrow> batchTracker \<Rightarrow> batchTracker" where
  [go_defs]: "addBatch seqNo digest requestAcks bt =
     (let key = bstr digest;
          b = (case gm_lookup (btBatchesByDigest bt) key of
                 Some b \<Rightarrow> b
               | None \<Rightarrow> \<lparr>baObservedSequences = [], baRequestAcks = requestAcks\<rparr>);
          (b, bt) = (case gm_lookup (btFetchInFlight bt) key of
                       Some inFlight \<Rightarrow> (observeAll inFlight b, bt\<lparr>btFetchInFlight := gm_delete key (btFetchInFlight bt)\<rparr>)
                     | None \<Rightarrow> (b, bt))
      in observe key seqNo b bt)"

definition bt_reinitialize :: "persisted \<Rightarrow> batchTracker \<Rightarrow> batchTracker option" where
  [go_defs]: "bt_reinitialize p bt =
     iterate (noCallbacks\<lparr>onQEntry := \<lambda>qEntry bt. Some (addBatch (qeSeqNo qEntry) (qeDigest qEntry) (qeRequests qEntry) bt)\<rparr>) p bt"

definition bt_truncate :: "u64 \<Rightarrow> batchTracker \<Rightarrow> batchTracker" where
  [go_defs]: "bt_truncate seqNo bt =
     bt\<lparr>btBatchesByDigest :=
          filter (\<lambda>(_, b). length (baObservedSequences b) \<noteq> 0)
            (map (\<lambda>(digest, b). (digest, b\<lparr>baObservedSequences := filter (\<lambda>s. \<not> s < seqNo) (baObservedSequences b)\<rparr>))
               (btBatchesByDigest bt))\<rparr>"

definition fetchBatch :: "u64 \<Rightarrow> bytes \<Rightarrow> u64 list \<Rightarrow> batchTracker \<Rightarrow> batchTracker \<times> ActionList" where
  [go_defs]: "fetchBatch seqNo digest sources bt =
     (let key = bstr digest;
          inFlight = (case gm_lookup (btFetchInFlight bt) key of None \<Rightarrow> [] | Some s \<Rightarrow> s)
      in if seqNo \<in> set inFlight then (bt, [])
         else (bt\<lparr>btFetchInFlight := gm_update key (inFlight @ [seqNo]) (btFetchInFlight bt)\<rparr>,
               ActionList_Send [] sources (Msg_FetchBatch seqNo digest)))"

definition replyFetchBatch :: "u64 \<Rightarrow> u64 \<Rightarrow> bytes \<Rightarrow> batchTracker \<Rightarrow> ActionList" where
  [go_defs]: "replyFetchBatch source seqNo digest bt =
     (case getBatch digest bt of
        None \<Rightarrow> []
      | Some b \<Rightarrow> ActionList_Send [] [source] (Msg_ForwardBatch seqNo (baRequestAcks b) digest))"

definition applyForwardBatchMsg :: "u64 \<Rightarrow> u64 \<Rightarrow> bytes \<Rightarrow> RequestAck list \<Rightarrow> batchTracker \<Rightarrow> ActionList" where
  [go_defs]: "applyForwardBatchMsg source seqNo digest requestAcks bt =
     (case gm_lookup (btFetchInFlight bt) (bstr digest) of
        None \<Rightarrow> []
      | Some _ \<Rightarrow> ActionList_Hash [] (map ackDigest requestAcks) (HashOrigin_VerifyBatch source seqNo requestAcks digest))"

definition bt_step :: "u64 \<Rightarrow> Msg \<Rightarrow> batchTracker \<Rightarrow> ActionList option" where
  [go_defs]: "bt_step source msg bt =
     (case msg of
        Msg_FetchBatch seqNo digest \<Rightarrow> Some (replyFetchBatch source seqNo digest bt)
      | Msg_ForwardBatch seqNo requestAcks digest \<Rightarrow> Some (applyForwardBatchMsg source seqNo digest requestAcks bt)
      | _ \<Rightarrow> None)"

text \<open>The batch and expected digest are those of a \<open>VerifyBatch\<close> hash origin.\<close>

definition applyVerifyBatchHashResult :: "bytes \<Rightarrow> RequestAck list \<Rightarrow> bytes \<Rightarrow> batchTracker \<Rightarrow> batchTracker option" where
  [go_defs]: "applyVerifyBatchHashResult digest requestAcks expectedDigest bt =
     (if \<not> bytes_equal expectedDigest digest then None
      else
        let key = bstr digest in
        case gm_lookup (btFetchInFlight bt) key of
          None \<Rightarrow> Some bt
        | Some inFlight \<Rightarrow>
            let b = (case gm_lookup (btBatchesByDigest bt) key of
                       Some b \<Rightarrow> b
                     | None \<Rightarrow> \<lparr>baObservedSequences = [], baRequestAcks = requestAcks\<rparr>)
            in Some (bt\<lparr>btBatchesByDigest := gm_update key (observeAll inFlight b) (btBatchesByDigest bt),
                       btFetchInFlight := gm_delete key (btFetchInFlight bt)\<rparr>))"

section \<open>What the tracker knows\<close>

definition observedAt :: "byte list \<Rightarrow> batchTracker \<Rightarrow> u64 set" where
  "observedAt key bt = (case gm_lookup (btBatchesByDigest bt) key of None \<Rightarrow> {} | Some b \<Rightarrow> set (baObservedSequences b))"

definition wantedAt :: "byte list \<Rightarrow> batchTracker \<Rightarrow> u64 set" where
  "wantedAt key bt = (case gm_lookup (btFetchInFlight bt) key of None \<Rightarrow> {} | Some s \<Rightarrow> set s)"

definition contentOf :: "byte list \<Rightarrow> batchTracker \<Rightarrow> RequestAck list option" where
  "contentOf key bt = map_option baRequestAcks (gm_lookup (btBatchesByDigest bt) key)"

text \<open>Every batch held hashes to its key and was seen somewhere; \<open>hash\<close> is the hash of the batch's digests.\<close>

definition btInv :: "(RequestAck list \<Rightarrow> byte list) \<Rightarrow> batchTracker \<Rightarrow> bool" where
  "btInv hash bt \<longleftrightarrow> gm_distinct (btBatchesByDigest bt) \<and> gm_distinct (btFetchInFlight bt) \<and>
     (\<forall>(key, b) \<in> set (btBatchesByDigest bt). hash (baRequestAcks b) = key \<and> baObservedSequences b \<noteq> []) \<and>
     (\<forall>(key, seqNos) \<in> set (btFetchInFlight bt). seqNos \<noteq> [])"

lemma set_fold_ls_insert [simp]: "set (fold ls_insert xs ys) = set xs \<union> set ys"
  by (induction xs arbitrary: ys) auto

lemma ls_insert_ne [simp]: "ls_insert x xs \<noteq> []"
  by (auto simp: ls_insert_def)

lemma addBatch_facts:
  assumes "gm_distinct (btFetchInFlight bt)"
  shows "observedAt key (addBatch seqNo digest acks bt) =
      (if key = bstr digest then insert seqNo (observedAt key bt \<union> wantedAt key bt) else observedAt key bt)"
    and "wantedAt key (addBatch seqNo digest acks bt) = (if key = bstr digest then {} else wantedAt key bt)"
    and "contentOf key (addBatch seqNo digest acks bt) =
      (if key = bstr digest \<and> contentOf key bt = None then Some acks else contentOf key bt)"
  using assms
  by (auto simp: addBatch_def observe_def observeAll_def Let_def observedAt_def wantedAt_def contentOf_def update_conv'
      delete_conv' split: option.split prod.split)

text \<open>The trackers reached by the calls of the state machine, when hash results are results of hashing.\<close>

inductive btReach :: "(RequestAck list \<Rightarrow> byte list) \<Rightarrow> batchTracker \<Rightarrow> bool" for hash where
  init: "btReach hash newBatchTracker"
| add: "btReach hash bt \<Longrightarrow> hash acks = bstr digest \<Longrightarrow> btReach hash (addBatch seqNo digest acks bt)"
| see: "btReach hash bt \<Longrightarrow> getBatch digest bt = Some b \<Longrightarrow> btReach hash (observe (bstr digest) seqNo b bt)"
| fetch: "btReach hash bt \<Longrightarrow> fetchBatch seqNo digest sources bt = (bt', acts) \<Longrightarrow> btReach hash bt'"
| verify: "btReach hash bt \<Longrightarrow> hash acks = bstr digest \<Longrightarrow>
    applyVerifyBatchHashResult digest acks expected bt = Some bt' \<Longrightarrow> btReach hash bt'"
| truncate: "btReach hash bt \<Longrightarrow> btReach hash (bt_truncate seqNo bt)"

lemma set_gm_update: "set (gm_update k v m) \<subseteq> insert (k, v) (set m)"
  by (induction m) auto

lemma set_gm_delete: "set (gm_delete k m) \<subseteq> set m"
  by (induction m) auto

lemma btInv_batches:
  assumes "btInv hash bt" and "btBatchesByDigest bt' = gm_update key b (btBatchesByDigest bt)"
    and "btFetchInFlight bt' \<in> {btFetchInFlight bt, gm_delete key (btFetchInFlight bt)}"
    and "hash (baRequestAcks b) = key" and "baObservedSequences b \<noteq> []"
  shows "btInv hash bt'"
  using assms set_gm_update [of key b "btBatchesByDigest bt"] set_gm_delete [of key "btFetchInFlight bt"]
  unfolding btInv_def by (auto 0 3)

lemma btInv_lookup:
  "btInv hash bt \<Longrightarrow> gm_lookup (btBatchesByDigest bt) key = Some b \<Longrightarrow> hash (baRequestAcks b) = key \<and> baObservedSequences b \<noteq> []"
  by (auto simp: btInv_def dest: map_of_SomeD)

lemma observeAll_facts [simp]:
  "baRequestAcks (observeAll xs b) = baRequestAcks b" "baObservedSequences (observeAll xs b) = [] \<longleftrightarrow> xs = [] \<and> baObservedSequences b = []"
  by (auto simp: observeAll_def simp flip: set_empty)

lemma addBatch_shape:
  "\<exists>b. btBatchesByDigest (addBatch seqNo digest acks bt) = gm_update (bstr digest) b (btBatchesByDigest bt) \<and>
     btFetchInFlight (addBatch seqNo digest acks bt) \<in> {btFetchInFlight bt, gm_delete (bstr digest) (btFetchInFlight bt)} \<and>
     baObservedSequences b \<noteq> [] \<and>
     baRequestAcks b = (case gm_lookup (btBatchesByDigest bt) (bstr digest) of None \<Rightarrow> acks | Some b \<Rightarrow> baRequestAcks b)"
  by (cases "gm_lookup (btFetchInFlight bt) (bstr digest)"; cases "gm_lookup (btBatchesByDigest bt) (bstr digest)")
    (auto simp: addBatch_def observe_def Let_def)

lemma btReach_inv: "btReach hash bt \<Longrightarrow> btInv hash bt"
proof (induction rule: btReach.induct)
  case init
  then show ?case by (simp add: btInv_def newBatchTracker_def)
next
  case (add bt acks digest seqNo)
  obtain b where b: "btBatchesByDigest (addBatch seqNo digest acks bt) = gm_update (bstr digest) b (btBatchesByDigest bt)"
      "btFetchInFlight (addBatch seqNo digest acks bt) \<in> {btFetchInFlight bt, gm_delete (bstr digest) (btFetchInFlight bt)}"
      "baObservedSequences b \<noteq> []"
      "baRequestAcks b = (case gm_lookup (btBatchesByDigest bt) (bstr digest) of None \<Rightarrow> acks | Some b \<Rightarrow> baRequestAcks b)"
    using addBatch_shape by blast
  then have "hash (baRequestAcks b) = bstr digest"
    using add.hyps(2) btInv_lookup [OF add.IH] by (auto split: option.splits)
  then show ?case using btInv_batches [OF add.IH b(1,2)] b(3) by simp
next
  case (see bt digest b seqNo)
  then show ?case using btInv_lookup [OF see.IH, of "bstr digest" b]
    by (intro btInv_batches [OF see.IH, of _ "bstr digest" "b\<lparr>baObservedSequences := ls_insert seqNo (baObservedSequences b)\<rparr>"])
      (auto simp: observe_def getBatch_def)
next
  case (fetch bt seqNo digest sources bt' acts)
  show ?case
  proof (cases "bt' = bt")
    case False
    then obtain l where "bt' = bt\<lparr>btFetchInFlight := gm_update (bstr digest) (l @ [seqNo]) (btFetchInFlight bt)\<rparr>"
      using fetch.hyps(2) by (auto simp: fetchBatch_def Let_def split: if_splits)
    then show ?thesis using fetch.IH set_gm_update [of "bstr digest" "l @ [seqNo]" "btFetchInFlight bt"]
      by (auto simp: btInv_def)
  qed (use fetch.IH in simp)
next
  case (verify bt acks digest expected bt')
  show ?case
  proof (cases "gm_lookup (btFetchInFlight bt) (bstr digest)")
    case None
    then show ?thesis using verify by (auto simp: applyVerifyBatchHashResult_def split: if_splits)
  next
    case (Some fl)
    let ?b = "case gm_lookup (btBatchesByDigest bt) (bstr digest) of
      None \<Rightarrow> \<lparr>baObservedSequences = [], baRequestAcks = acks\<rparr> | Some b \<Rightarrow> b"
    have "bt' = bt\<lparr>btBatchesByDigest := gm_update (bstr digest) (observeAll fl ?b) (btBatchesByDigest bt),
        btFetchInFlight := gm_delete (bstr digest) (btFetchInFlight bt)\<rparr>"
      using verify.hyps(3) Some by (auto simp: applyVerifyBatchHashResult_def Let_def split: if_splits)
    moreover have "fl \<noteq> []" using Some verify.IH by (auto simp: btInv_def dest: map_of_SomeD)
    moreover have "hash (baRequestAcks ?b) = bstr digest"
      using verify.hyps(2) btInv_lookup [OF verify.IH] by (auto split: option.splits)
    ultimately show ?thesis by (intro btInv_batches [OF verify.IH, of bt' "bstr digest" "observeAll fl ?b"]) simp_all
  qed
next
  case (truncate bt seqNo)
  then show ?case by (auto simp: bt_truncate_def btInv_def gm_distinct_def distinct_map_filter comp_def case_prod_beta)
qed

lemma observedAt_truncate:
  assumes "gm_distinct (btBatchesByDigest bt)"
  shows "observedAt key (bt_truncate low bt) = {s \<in> observedAt key bt. low \<le> s}"
proof -
  let ?g = "\<lambda>(digest, b). (digest, b\<lparr>baObservedSequences := filter (\<lambda>s. \<not> s < low) (baObservedSequences b)\<rparr>)"
  let ?obs = "\<lambda>m. case gm_lookup m key of None \<Rightarrow> {} | Some b \<Rightarrow> set (baObservedSequences b)"
  have "?obs (filter (\<lambda>(_, b). length (baObservedSequences b) \<noteq> 0) (map ?g m)) = {s \<in> ?obs m. low \<le> s}"
    if "distinct (map fst m)" for m
    using that
  proof (induction m)
    case (Cons kb m)
    have none: "gm_lookup (filter P (map ?g m)) key = None" if "fst kb = key" for P
      using that Cons.prems by (auto simp: map_of_eq_None_iff) (metis fst_conv imageI)
    obtain k b where kb: "kb = (k, b)" by (cases kb)
    show ?case using Cons none by (auto simp: kb not_less filter_empty_conv)
  qed simp
  then show ?thesis using assms by (simp add: observedAt_def bt_truncate_def gm_distinct_def)
qed

section \<open>Properties\<close>



text \<open>Fetching a batch completes: after a fetch for a sequence number, the verified reply stores the batch,
  records it as seen at every sequence number that waits for it, and ends the fetch; truncation below a
  sequence number afterwards keeps exactly the sequence numbers from there on.\<close>

theorem fetched_batch_recorded:
  assumes "gm_distinct (btFetchInFlight bt)" "gm_distinct (btBatchesByDigest bt)"
    and "fetchBatch seqNo digest sources bt = (bt1, acts)" and "bytes_equal expected digest"
  shows "\<exists>bt2. applyVerifyBatchHashResult digest acks expected bt1 = Some bt2 \<and>
    contentOf (bstr digest) bt2 = Some (case contentOf (bstr digest) bt of None \<Rightarrow> acks | Some old \<Rightarrow> old) \<and>
    wantedAt (bstr digest) bt2 = {} \<and>
    observedAt (bstr digest) bt2 = insert seqNo (wantedAt (bstr digest) bt \<union> observedAt (bstr digest) bt) \<and>
    observedAt (bstr digest) (bt_truncate low bt2) = {s \<in> observedAt (bstr digest) bt2. low \<le> s}"
proof -
  let ?k = "bstr digest"
  have b1: "btBatchesByDigest bt1 = btBatchesByDigest bt" "gm_distinct (btFetchInFlight bt1)"
    using assms(1,3) by (auto simp: fetchBatch_def Let_def split: if_splits)
  obtain fl where fl: "gm_lookup (btFetchInFlight bt1) ?k = Some fl" "set fl = insert seqNo (wantedAt ?k bt)"
  proof (cases "seqNo \<in> wantedAt ?k bt")
    case True
    then obtain fl where fl: "gm_lookup (btFetchInFlight bt) ?k = Some fl" "seqNo \<in> set fl"
      by (auto simp: wantedAt_def split: option.splits)
    then show ?thesis using assms(3) that [of fl] by (auto simp: fetchBatch_def Let_def wantedAt_def)
  next
    case False
    then show ?thesis using assms(3) that by (auto simp: fetchBatch_def Let_def wantedAt_def update_conv' split: if_splits option.splits)
  qed
  let ?b = "case gm_lookup (btBatchesByDigest bt) ?k of
      None \<Rightarrow> \<lparr>baObservedSequences = [], baRequestAcks = acks\<rparr> | Some b \<Rightarrow> b"
  define bt2 where "bt2 = bt1\<lparr>btBatchesByDigest := gm_update ?k (observeAll fl ?b) (btBatchesByDigest bt),
      btFetchInFlight := gm_delete ?k (btFetchInFlight bt1)\<rparr>"
  have res: "applyVerifyBatchHashResult digest acks expected bt1 = Some bt2"
    using fl(1) assms(4) by (simp add: applyVerifyBatchHashResult_def Let_def bt2_def b1)
  have look: "gm_lookup (btBatchesByDigest bt2) ?k = Some (observeAll fl ?b)" by (simp add: bt2_def update_conv')
  have "gm_distinct (btBatchesByDigest bt2)" using assms(2) by (simp add: bt2_def)
  note trunc = observedAt_truncate [OF this]
  have "contentOf ?k bt2 = Some (case contentOf ?k bt of None \<Rightarrow> acks | Some old \<Rightarrow> old)"
    by (simp add: contentOf_def look split: option.split)
  moreover have "wantedAt ?k bt2 = {}" by (simp add: wantedAt_def bt2_def delete_conv')
  moreover have "observedAt ?k bt2 = insert seqNo (wantedAt ?k bt \<union> observedAt ?k bt)"
    using fl(2) by (auto simp: observedAt_def look observeAll_def split: option.split)
  ultimately show ?thesis using res trunc by blast
qed

theorem fetched_batch_recorded_witness:
  "\<exists>bt2. applyVerifyBatchHashResult (Some [1]) [] (Some [1]) (fst (fetchBatch 7 (Some [1]) [2] newBatchTracker)) = Some bt2 \<and>
     observedAt [1] bt2 = {7}"
proof -
  have "gm_distinct (btFetchInFlight newBatchTracker)" "gm_distinct (btBatchesByDigest newBatchTracker)"
    "wantedAt [1] newBatchTracker = {}" "observedAt [1] newBatchTracker = {}"
    by (simp_all add: newBatchTracker_def wantedAt_def observedAt_def)
  then show ?thesis
    using fetched_batch_recorded [of newBatchTracker 7 "Some [1]" "[2]" "fst (fetchBatch 7 (Some [1]) [2] newBatchTracker)"
      "snd (fetchBatch 7 (Some [1]) [2] newBatchTracker)" "Some [1]" "[]" 0] by auto
qed

end
