(* ===== verification/Mir_EpochTarget.thy ===== *)
theory Mir_EpochTarget
  imports Mir_EpochActive Mir_ClientHash Mir_EpochChange Mir_BatchTracker
begin

text \<open>
  \<open>pkg/statemachine/epoch_target.go\<close>: the change to an epoch, from the epoch changes of the nodes over the
  leader's new-epoch message and the broadcast of it (echo, ready) to the active epoch. The components
  a target shares with others are the record \<open>targetWorld\<close>, which the operations take and return.

  \<open>proto.Size\<close> and \<open>proto.Equal\<close> are parameters: \<open>psize\<close> and \<open>peq\<close>; \<open>peq\<close> is applied to \<open>None\<close> for the nil
  message \<open>constructNewEpochConfig\<close> may return. The maps \<open>echos\<close> and \<open>readies\<close> have pointers to
  configurations as keys and are searched with \<open>proto.Equal\<close>: lists of pairs. The parsed change in
  \<open>strongChanges\<close> is the object in \<open>parsedByDigest\<close>; only its acks change and those are never read
  through \<open>strongChanges\<close>, so it is kept as a copy.
\<close>

section \<open>Data\<close>

datatype epochTargetState =
    etPrepending | etPending | etVerifying | etFetching | etEchoing | etReadying | etResuming | etReady
  | etInProgress | etEnding | etDone

text \<open>The states are constants in this order, and the code compares them.\<close>

fun etRank :: "epochTargetState \<Rightarrow> nat" where
  "etRank etPrepending = 0"
| "etRank etPending = 1"
| "etRank etVerifying = 2"
| "etRank etFetching = 3"
| "etRank etEchoing = 4"
| "etRank etReadying = 5"
| "etRank etResuming = 6"
| "etRank etReady = 7"
| "etRank etInProgress = 8"
| "etRank etEnding = 9"
| "etRank etDone = 10"

lemma etRank_inject: "etRank s = etRank t \<longleftrightarrow> s = t"
  by (cases s; cases t) simp_all

instantiation epochTargetState :: linorder
begin

definition less_eq_epochTargetState :: "epochTargetState \<Rightarrow> epochTargetState \<Rightarrow> bool" where
  "less_eq_epochTargetState s t \<longleftrightarrow> etRank s \<le> etRank t"

definition less_epochTargetState :: "epochTargetState \<Rightarrow> epochTargetState \<Rightarrow> bool" where
  "less_epochTargetState s t \<longleftrightarrow> etRank s < etRank t"

instance
  by standard (auto simp: less_eq_epochTargetState_def less_epochTargetState_def etRank_inject)

end

lemmas etRank_order = less_eq_epochTargetState_def less_epochTargetState_def

type_synonym configVotes = "(NewEpochConfig \<times> u64 list) list"

record epochTarget =
  etState :: epochTargetState
  etStateTicks :: u64
  etNumber :: u64
  etStartingSeqNo :: u64
  etChanges :: "(u64, epochChange) gomap"
  etStrongChanges :: "(u64, parsedEpochChange) gomap"
  etEchos :: configVotes
  etReadies :: configVotes
  etActiveEpoch :: "activeEpoch option"
  etSuspicions :: "u64 list"
  etMyNewEpoch :: "NewEpochMsg option"
  etMyEpochChange :: "parsedEpochChange option"
  etMyLeaderChoice :: "u64 list"
  etLeaderNewEpoch :: "NewEpochMsg option"
  etNetworkNewEpoch :: "NewEpochConfig option"
  etIsLeader :: bool
  etPrestartBuffers :: "u64 \<rightharpoonup> msgBuffer"
  etNodeBuffers :: nodeBuffers
  etNetworkConfig :: NetworkConfig
  etMyConfig :: InitialParameters

record targetWorld =
  twEpoch :: epochWorld
  twHash :: clientHashDisseminator
  twBatches :: batchTracker

type_synonym target = "epochTarget \<times> targetWorld"
type_synonym targetResult = "(target \<times> ActionList) option"
type_synonym protoEqual = "NewEpochConfig option \<Rightarrow> NewEpochConfig option \<Rightarrow> bool"

abbreviation twCommitState :: "targetWorld \<Rightarrow> commitState" where
  "twCommitState w \<equiv> ewCommitState (twEpoch w)"

abbreviation twPersisted :: "targetWorld \<Rightarrow> persisted" where
  "twPersisted w \<equiv> ewPersisted (twEpoch w)"

text \<open>The disseminator's view of the world, and appending to the log.\<close>

definition clientSideOf :: "targetWorld \<Rightarrow> clientSide" where
  [go_defs]: "clientSideOf w = \<lparr>cdHash = twHash w, cdTracker = ewTracker (twEpoch w), cdHeap = ewHeap (twEpoch w)\<rparr>"

definition putClientSide :: "clientSide \<Rightarrow> targetWorld \<Rightarrow> targetWorld" where
  [go_defs]: "putClientSide cd w =
     w\<lparr>twHash := cdHash cd, twEpoch := (twEpoch w)\<lparr>ewTracker := cdTracker cd, ewHeap := cdHeap cd\<rparr>\<rparr>"

definition logging ::
  "(persisted \<Rightarrow> (persisted \<times> ActionList) option) \<Rightarrow> targetWorld \<times> ActionList \<Rightarrow> (targetWorld \<times> ActionList) option" where
  [go_defs]: "logging f s =
     do {
       (p, out) \<leftarrow> f (twPersisted (fst s));
       Some ((fst s)\<lparr>twEpoch := (twEpoch (fst s))\<lparr>ewPersisted := p\<rparr>\<rparr>, ActionList_concat (snd s) out)
     }"

text \<open>A method of the active epoch; \<open>None\<close> when there is none.\<close>

definition onActive :: "(aeState \<Rightarrow> aeResult) \<Rightarrow> target \<Rightarrow> targetResult" where
  [go_defs]: "onActive f s =
     do {
       e \<leftarrow> etActiveEpoch (fst s);
       ((e, w), out) \<leftarrow> f (e, twEpoch (snd s));
       Some (((fst s)\<lparr>etActiveEpoch := Some e\<rparr>, (snd s)\<lparr>twEpoch := w\<rparr>), out)
     }"

section \<open>Creation and messages of the epoch\<close>

definition newEpochTarget :: "u64 \<Rightarrow> nodeBuffers \<Rightarrow> NetworkConfig \<Rightarrow> InitialParameters \<Rightarrow> epochTarget option" where
  [go_defs]: "newEpochTarget number nbs networkConfig myConfig =
     do {
       let prestartBuffers = fold
         (\<lambda>i bufs. bufs(i \<mapsto> newMsgBuffer (bufferName number ''prestart'') (nodeBuffers_nodeBuffer i nbs)))
         (ncNodes networkConfig) Map.empty;
       assert (ncNodes networkConfig \<noteq> []);
       Some \<lparr>etState = etPrepending, etStateTicks = 0, etNumber = number, etStartingSeqNo = 0, etChanges = [],
             etStrongChanges = [], etEchos = [], etReadies = [], etActiveEpoch = None, etSuspicions = [],
             etMyNewEpoch = None, etMyEpochChange = None, etMyLeaderChoice = [], etLeaderNewEpoch = None,
             etNetworkNewEpoch = None,
             etIsLeader = (number mod of_nat (length (ncNodes networkConfig)) = ipId myConfig),
             etPrestartBuffers = prestartBuffers, etNodeBuffers = nbs, etNetworkConfig = networkConfig,
             etMyConfig = myConfig\<rparr>
     }"

definition et_step :: "(Msg \<Rightarrow> nat) \<Rightarrow> u64 \<Rightarrow> Msg \<Rightarrow> target \<Rightarrow> targetResult" where
  [go_defs]: "et_step psize source msg s =
     (if etState (fst s) < etInProgress
      then do {
        b \<leftarrow> etPrestartBuffers (fst s) source;
        Some (((fst s)\<lparr>etPrestartBuffers := (etPrestartBuffers (fst s))(source \<mapsto> store psize msg b)\<rparr>, snd s), [])
      }
      else if etState (fst s) = etDone then Some (s, [])
      else onActive (ae_step psize source msg) s)"

section \<open>The new epoch\<close>

definition constructNewEpoch :: "u64 list \<Rightarrow> NetworkConfig \<Rightarrow> epochTarget \<Rightarrow> NewEpochMsg option option" where
  [go_defs]: "constructNewEpoch newLeaders nc et =
     (if int (length (etStrongChanges et)) < intersectionQuorum nc then Some None
      else do {
        newConfig \<leftarrow> constructNewEpochConfig nc newLeaders (etStrongChanges et);
        case newConfig of
          None \<Rightarrow> Some None
        | Some cfg \<Rightarrow> do {
            remoteChanges \<leftarrow> ofold
              (\<lambda>i rs. case gm_lookup (etStrongChanges et) i of
                 None \<Rightarrow> Some rs
               | Some _ \<Rightarrow> do {
                   change \<leftarrow> gm_lookup (etChanges et) i;
                   Some (rs @ [\<lparr>recNodeId = i, recDigest = ecStrongCert change\<rparr>])
                 })
              (ncNodes (etNetworkConfig et)) [];
            Some (Some \<lparr>neNewConfig = cfg, neEpochChanges = remoteChanges\<rparr>)
          }
      })"

text \<open>The loop of \<open>verifyNewEpochState\<close> that finds the epoch changes the leader refers to; \<open>None\<close> when one is
  repeated, unknown or not yet acked by enough nodes.\<close>

fun referencedChanges ::
  "epochTarget \<Rightarrow> RemoteEpochChange list \<Rightarrow> (u64, parsedEpochChange) gomap \<Rightarrow> (u64, parsedEpochChange) gomap option" where
  "referencedChanges et [] epochChanges = Some epochChanges"
| "referencedChanges et (r # rs) epochChanges =
     (if gm_lookup epochChanges (recNodeId r) \<noteq> None then None
      else case gm_lookup (etChanges et) (recNodeId r) of
        None \<Rightarrow> None
      | Some change \<Rightarrow>
          (case gm_lookup (ecParsedByDigest change) (bstr (recDigest r)) of
             None \<Rightarrow> None
           | Some parsed \<Rightarrow>
               if int (length (peAcks parsed)) < someCorrectQuorum (etNetworkConfig et) then None
               else referencedChanges et rs (gm_update (recNodeId r) parsed epochChanges)))"

text \<open>\<open>verifyNewEpochState\<close> up to the change of state: whether the leader's configuration is the one computed.\<close>

definition verifyNewEpochState :: "protoEqual \<Rightarrow> epochTarget \<Rightarrow> bool option" where
  [go_defs]: "verifyNewEpochState peq et =
     do {
       leader \<leftarrow> etLeaderNewEpoch et;
       case referencedChanges et (neEpochChanges leader) [] of
         None \<Rightarrow> Some False
       | Some epochChanges \<Rightarrow> do {
           cfg \<leftarrow> constructNewEpochConfig (etNetworkConfig et) (epLeaders (necConfig (neNewConfig leader))) epochChanges;
           Some (peq cfg (Some (neNewConfig leader)))
         }
     }"

section \<open>Fetching the batches of the new epoch\<close>

text \<open>The nodes whose epoch change has the digest in its Q set for a sequence number.\<close>

definition sourcesOf :: "epochTarget \<Rightarrow> NewEpochMsg \<Rightarrow> u64 \<Rightarrow> bytes \<Rightarrow> u64 list option" where
  [go_defs]: "sourcesOf et leader seqNo digest =
     ofold
       (\<lambda>r sources. do {
          change \<leftarrow> gm_lookup (etChanges et) (recNodeId r);
          parsed \<leftarrow> gm_lookup (ecParsedByDigest change) (bstr (recDigest r));
          let entries = (case peQSet parsed seqNo of None \<Rightarrow> [] | Some es \<Rightarrow> es);
          Some (if list_ex (\<lambda>(_, d). bytes_equal d digest) entries then sources @ [recNodeId r] else sources)
        })
       (neEpochChanges leader) []"

text \<open>The state of the loop: the world, the actions and \<open>fetchPending\<close>.\<close>

type_synonym fetchState = "targetWorld \<times> ActionList \<times> bool"

definition fetchRequest :: "u64 list \<Rightarrow> RequestAck \<Rightarrow> fetchState \<Rightarrow> fetchState option" where
  [go_defs]: "fetchRequest sources ack s =
     (case s of (w, actions, fetchPending) \<Rightarrow> do {
        (w, actions, cr) \<leftarrow> ofold
          (\<lambda>i (w, actions, cr). do {
             (cd, out, r) \<leftarrow> chd_ack i ack (clientSideOf w);
             Some (putClientSide cd w, ActionList_concat actions out, Some r)
           })
          sources (w, actions, None);
        r \<leftarrow> cr;
        req \<leftarrow> hpCr (ewHeap (twEpoch w)) r;
        if creqStored req then Some (w, actions, fetchPending)
        else do {
          (h, out) \<leftarrow> cr_fetch r (ewHeap (twEpoch w));
          Some (w\<lparr>twEpoch := (twEpoch w)\<lparr>ewHeap := h\<rparr>\<rparr>, ActionList_concat actions out, True)
        }
      })"

definition fetchSequence :: "epochTarget \<Rightarrow> NewEpochMsg \<Rightarrow> nat \<times> bytes \<Rightarrow> fetchState \<Rightarrow> fetchState option" where
  [go_defs]: "fetchSequence et leader idg s =
     (case idg of (i, digest) \<Rightarrow> case s of (w, actions, fetchPending) \<Rightarrow>
        let seqNo = of_nat i + cpSeqNo (necStartingCheckpoint (neNewConfig leader)) + 1 in
        if length (bstr digest) = 0 \<or> seqNo \<le> csHighestCommit (twCommitState w) then Some s
        else do {
          sources \<leftarrow> sourcesOf et leader seqNo digest;
          assert (\<not> int (length sources) < someCorrectQuorum (etNetworkConfig et));
          case getBatch digest (twBatches w) of
            None \<Rightarrow>
              (let (bt, out) = fetchBatch seqNo digest sources (twBatches w)
               in Some (w\<lparr>twBatches := bt\<rparr>, ActionList_concat actions out, True))
          | Some b \<Rightarrow>
              ofold (fetchRequest sources) (baRequestAcks b)
                (w\<lparr>twBatches := observe (bstr digest) seqNo b (twBatches w)\<rparr>, actions, fetchPending)
        })"

text \<open>The loop that logs the final preprepares of the new epoch.\<close>

definition persistPreprepare ::
  "epochTarget \<Rightarrow> NewEpochConfig \<Rightarrow> nat \<times> bytes \<Rightarrow> targetWorld \<times> ActionList \<Rightarrow> (targetWorld \<times> ActionList) option" where
  [go_defs]: "persistPreprepare et cfg idg s =
     (case idg of (i, digest) \<Rightarrow>
        let seqNo = of_nat i + cpSeqNo (necStartingCheckpoint cfg) + 1 in
        if length (bstr digest) = 0 then logging (addQEntry \<lparr>qeSeqNo = seqNo, qeDigest = None, qeRequests = []\<rparr>) s
        else do {
          b \<leftarrow> getBatch digest (twBatches (fst s));
          s \<leftarrow> logging (addQEntry \<lparr>qeSeqNo = seqNo, qeDigest = digest, qeRequests = baRequestAcks b\<rparr>) s;
          let ci = scast (ncCheckpointInterval (etNetworkConfig et));
          assert (ci \<noteq> 0);
          if seqNo mod ci = 0 \<and> seqNo < csStopAtSeqNo (twCommitState (fst s))
          then logging (addNEntry \<lparr>neSeqNo = seqNo + 1, neEpochConfig = necConfig cfg\<rparr>) s
          else Some s
        })"

definition numbered :: "bytes list \<Rightarrow> (nat \<times> bytes) list" where
  [go_defs]: "numbered ds = zip [0..<length ds] ds"

definition fetchNewEpochState :: "target \<Rightarrow> targetResult" where
  [go_defs]: "fetchNewEpochState s =
     (case s of (et, w) \<Rightarrow> do {
        leader \<leftarrow> etLeaderNewEpoch et;
        let cfg = neNewConfig leader;
        let start = cpSeqNo (necStartingCheckpoint cfg);
        if csTransferring (twCommitState w) then Some (s, [])
        else if start > csHighestCommit (twCommitState w)
        then do {
          (cs, p, out) \<leftarrow> transferTo start (cpValue (necStartingCheckpoint cfg)) (twCommitState w) (twPersisted w);
          Some ((et, w\<lparr>twEpoch := (twEpoch w)\<lparr>ewCommitState := cs, ewPersisted := p\<rparr>\<rparr>), out)
        }
        else do {
          (w, actions, fetchPending) \<leftarrow> ofold (fetchSequence et leader) (numbered (necFinalPreprepares cfg)) (w, [], False);
          if fetchPending then Some ((et, w), actions)
          else if start > csLowWatermark (twCommitState w) then Some ((et, w), actions)
          else do {
            assert (\<not> (start = csStopAtSeqNo (twCommitState w) \<and> length (necFinalPreprepares cfg) > 0));
            s \<leftarrow> logging (addNEntry \<lparr>neSeqNo = start + 1, neEpochConfig = necConfig cfg\<rparr>) (w, actions);
            (w, actions) \<leftarrow> ofold (persistPreprepare et cfg) (numbered (necFinalPreprepares cfg)) s;
            Some ((et\<lparr>etState := etEchoing, etStartingSeqNo := start + of_nat (length (necFinalPreprepares cfg)) + 1\<rparr>, w),
                  ActionList_Send actions (ncNodes (etNetworkConfig et)) (Msg_NewEpochEcho cfg))
          }
        }
      })"

section \<open>Ticks\<close>

definition repeatEpochChangeBroadcast :: "epochTarget \<Rightarrow> ActionList option" where
  [go_defs]: "repeatEpochChangeBroadcast et =
     do {
       mine \<leftarrow> etMyEpochChange et;
       Some (ActionList_Send [] (ncNodes (etNetworkConfig et)) (Msg_EpochChange (peUnderlying mine)))
     }"

definition tickPrepending :: "epochTarget \<Rightarrow> ActionList option" where
  [go_defs]: "tickPrepending et =
     (case etMyNewEpoch et of
        None \<Rightarrow> do {
          let half = (ucast (ipNewEpochTimeoutTicks (etMyConfig et) div 2) :: u64);
          assert (half \<noteq> 0);
          if etStateTicks et mod half = 0 then repeatEpochChangeBroadcast et else Some []
        }
      | Some ne \<Rightarrow>
          Some (if etIsLeader et then ActionList_Send [] (ncNodes (etNetworkConfig et)) (Msg_NewEpoch (Some ne)) else []))"

definition tickPending :: "target \<Rightarrow> targetResult" where
  [go_defs]: "tickPending s =
     (case s of (et, w) \<Rightarrow> do {
        let timeout = (ucast (ipNewEpochTimeoutTicks (etMyConfig et)) :: u64);
        assert (timeout \<noteq> 0);
        let pendingTicks = etStateTicks et mod timeout;
        if etIsLeader et
        then Some (s, if pendingTicks mod 2 = 0
                      then ActionList_Send [] (ncNodes (etNetworkConfig et)) (Msg_NewEpoch (etMyNewEpoch et)) else [])
        else if pendingTicks = 0
        then do {
          ne \<leftarrow> etMyNewEpoch et;
          let epoch = epNumber (necConfig (neNewConfig ne));
          (w, actions) \<leftarrow> logging (addSuspect epoch)
            (w, ActionList_Send [] (ncNodes (etNetworkConfig et)) (Msg_Suspect epoch));
          Some ((et, w), actions)
        }
        else if pendingTicks mod 2 = 0 then do { actions \<leftarrow> repeatEpochChangeBroadcast et; Some (s, actions) }
        else Some (s, [])
      })"

definition et_tick :: "target \<Rightarrow> targetResult" where
  [go_defs]: "et_tick s =
     (let s = ((fst s)\<lparr>etStateTicks := etStateTicks (fst s) + 1\<rparr>, snd s) in
      if etState (fst s) = etPrepending then do { actions \<leftarrow> tickPrepending (fst s); Some (s, actions) }
      else if etState (fst s) \<le> etResuming then tickPending s
      else if etState (fst s) \<le> etInProgress then onActive ae_tick s
      else Some (s, []))"

section \<open>Messages of the epoch change\<close>

definition applyEpochChangeAckMsg :: "u64 \<Rightarrow> u64 \<Rightarrow> EpochChangeMsg \<Rightarrow> ActionList" where
  [go_defs]: "applyEpochChangeAckMsg source origin msg =
     ActionList_Hash [] (epochChangeHashData msg) (HashOrigin_EpochChange source origin msg)"

definition applyEpochChangeMsg :: "u64 \<Rightarrow> EpochChangeMsg \<Rightarrow> epochTarget \<Rightarrow> ActionList" where
  [go_defs]: "applyEpochChangeMsg source msg et =
     ActionList_concat
       (if source \<noteq> ipId (etMyConfig et)
        then ActionList_Send [] (ncNodes (etNetworkConfig et)) (Msg_EpochChangeAck source msg) else [])
       (applyEpochChangeAckMsg source source msg)"

definition checkEpochQuorum :: "epochTarget \<Rightarrow> (epochTarget \<times> ActionList) option" where
  [go_defs]: "checkEpochQuorum et =
     (if int (length (etStrongChanges et)) < intersectionQuorum (etNetworkConfig et) \<or> etMyEpochChange et = None
      then Some (et, [])
      else do {
        ne \<leftarrow> constructNewEpoch (etMyLeaderChoice et) (etNetworkConfig et) et;
        let et = et\<lparr>etMyNewEpoch := ne\<rparr>;
        case ne of
          None \<Rightarrow> Some (et, [])
        | Some _ \<Rightarrow>
            Some (et\<lparr>etStateTicks := 0, etState := etPending\<rparr>,
                  if etIsLeader et then ActionList_Send [] (ncNodes (etNetworkConfig et)) (Msg_NewEpoch ne) else [])
      })"

text \<open>Adding a node to the votes for a configuration, found with \<open>proto.Equal\<close>.\<close>

fun addVote :: "protoEqual \<Rightarrow> u64 \<Rightarrow> NewEpochConfig \<Rightarrow> configVotes \<Rightarrow> configVotes" where
  "addVote peq source msg [] = [(msg, [source])]"
| "addVote peq source msg ((config, nodes) # rest) =
     (if peq (Some config) (Some msg) then (config, ls_insert source nodes) # rest
      else (config, nodes) # addVote peq source msg rest)"

definition hasQuorum :: "NetworkConfig \<Rightarrow> NewEpochConfig \<times> u64 list \<Rightarrow> bool" where
  [go_defs]: "hasQuorum nc v \<longleftrightarrow> \<not> int (length (snd v)) < intersectionQuorum nc"

definition checkNewEpochEchoQuorum :: "target \<Rightarrow> targetResult" where
  [go_defs]: "checkNewEpochEchoQuorum s =
     (case s of (et, w) \<Rightarrow>
        case find (hasQuorum (etNetworkConfig et)) (etEchos et) of
          None \<Rightarrow> Some (s, [])
        | Some (config, _) \<Rightarrow> do {
            (w, actions) \<leftarrow> ofold
              (\<lambda>(i, digest). logging (addPEntry
                 \<lparr>peSeqNo = of_nat i + cpSeqNo (necStartingCheckpoint config) + 1, peDigest = digest\<rparr>))
              (numbered (necFinalPreprepares config)) (w, []);
            Some ((et\<lparr>etState := etReadying\<rparr>, w),
                  ActionList_Send actions (ncNodes (etNetworkConfig et)) (Msg_NewEpochReady config))
          })"

text \<open>The closure of \<open>checkNewEpochReadyQuorum\<close>: \<open>currentEpoch\<close> and the commit state.\<close>

definition readyIterator :: "NewEpochConfig \<Rightarrow> (bool \<times> commitState) logIterator" where
  [go_defs]: "readyIterator config = noCallbacks\<lparr>
     onQEntry := \<lambda>qEntry (currentEpoch, cs).
       if \<not> currentEpoch then Some (currentEpoch, cs) else do { cs \<leftarrow> commit qEntry cs; Some (currentEpoch, cs) },
     onECEntry := \<lambda>ecEntry (currentEpoch, cs).
       if eceEpochNumber ecEntry < epNumber (necConfig config) then Some (currentEpoch, cs)
       else do { assert (epNumber (necConfig config) \<ge> eceEpochNumber ecEntry); Some (True, cs) }\<rparr>"

definition checkNewEpochReadyQuorum :: "target \<Rightarrow> target option" where
  [go_defs]: "checkNewEpochReadyQuorum s =
     ofold
       (\<lambda>v (et, w).
          if \<not> hasQuorum (etNetworkConfig et) v then Some (et, w)
          else do {
            (_, cs) \<leftarrow> iterate (readyIterator (fst v)) (twPersisted w) (False, twCommitState w);
            Some (et\<lparr>etState := etResuming, etNetworkNewEpoch := Some (fst v)\<rparr>,
                  w\<lparr>twEpoch := (twEpoch w)\<lparr>ewCommitState := cs\<rparr>\<rparr>)
          })
       (etReadies (fst s)) s"

definition checkEpochResumed :: "target \<Rightarrow> target" where
  [go_defs]: "checkEpochResumed s =
     (let cs = twCommitState (snd s); starting = etStartingSeqNo (fst s) in
      if csStopAtSeqNo cs < starting then s
      else if csLowWatermark cs + 1 \<noteq> starting then s
      else ((fst s)\<lparr>etState := etReady\<rparr>, snd s))"

section \<open>The state machine of a target\<close>

text \<open>The messages buffered before the epoch started, all of them taken as current.\<close>

definition applyPrestart :: "(Msg \<Rightarrow> nat) \<Rightarrow> u64 \<Rightarrow> target \<times> ActionList \<Rightarrow> targetResult" where
  [go_defs]: "applyPrestart psize i st =
     do {
       b \<leftarrow> etPrestartBuffers (fst (fst st)) i;
       (b, (s, actions)) \<leftarrow> mb_iterate psize (\<lambda>_ _ _. Some current)
         (\<lambda>source msg (s, actions). do {
            (s, out) \<leftarrow> onActive (ae_step psize source msg) s;
            Some (s, ActionList_concat actions out)
          }) b st;
       Some (((fst s)\<lparr>etPrestartBuffers := (etPrestartBuffers (fst s))(i \<mapsto> b)\<rparr>, snd s), actions)
     }"

definition startEpoch :: "(Msg \<Rightarrow> nat) \<Rightarrow> target \<Rightarrow> targetResult" where
  [go_defs]: "startEpoch psize s =
     (case s of (et, w) \<Rightarrow> do {
        cfg \<leftarrow> etNetworkNewEpoch et;
        (e, ew) \<leftarrow> newActiveEpoch (necConfig cfg) (etNodeBuffers et) (etMyConfig et) (twEpoch w);
        (s, a1) \<leftarrow> onActive (ae_advance psize) (et\<lparr>etActiveEpoch := Some e\<rparr>, w\<lparr>twEpoch := ew\<rparr>);
        (s, a2) \<leftarrow> ofold (applyPrestart psize) (ncNodes (etNetworkConfig et)) (((fst s)\<lparr>etState := etInProgress\<rparr>, snd s), a1);
        (s, a3) \<leftarrow> onActive (drainBuffers psize) s;
        Some (s, ActionList_concat a2 a3)
      })"

text \<open>\<open>outstandingReqs.advanceRequests\<close> of the active epoch.\<close>

definition ae_advanceRequests :: "aeState \<Rightarrow> aeResult" where
  [go_defs]: "ae_advanceRequests ew =
     do {
       sw \<leftarrow> seqWorldOf ew;
       (ao, sw, out) \<leftarrow> advanceRequests (ewHeap (snd ew)) (aeOutstandingReqs (fst ew)) sw;
       Some (putSeqWorld ao sw ew, out)
     }"

text \<open>One pass of the loop of \<open>advanceState\<close>, except for the state that verifies.\<close>

definition advanceRound :: "(Msg \<Rightarrow> nat) \<Rightarrow> target \<Rightarrow> targetResult" where
  [go_defs]: "advanceRound psize s =
     (case etState (fst s) of
        etPrepending \<Rightarrow> do { (et, out) \<leftarrow> checkEpochQuorum (fst s); Some ((et, snd s), out) }
      | etPending \<Rightarrow>
          if etLeaderNewEpoch (fst s) = None then Some (s, []) else Some (((fst s)\<lparr>etState := etVerifying\<rparr>, snd s), [])
      | etVerifying \<Rightarrow> None
      | etFetching \<Rightarrow> fetchNewEpochState s
      | etEchoing \<Rightarrow> checkNewEpochEchoQuorum s
      | etReadying \<Rightarrow> do { s \<leftarrow> checkNewEpochReadyQuorum s; Some (s, []) }
      | etResuming \<Rightarrow> Some (checkEpochResumed s, [])
      | etReady \<Rightarrow> startEpoch psize s
      | etInProgress \<Rightarrow> do {
          (s, a1) \<leftarrow> onActive ae_advanceRequests s;
          (s, a2) \<leftarrow> onActive (ae_advance psize) s;
          Some (s, ActionList_concat a1 a2)
        }
      | etEnding \<Rightarrow> None
      | etDone \<Rightarrow> Some (s, []))"

text \<open>\<open>verifyNewEpochState\<close> ends in a call of \<open>advanceState\<close>, inside a pass of its loop.\<close>

partial_function (option) et_advanceState :: "(Msg \<Rightarrow> nat) \<Rightarrow> protoEqual \<Rightarrow> target \<Rightarrow> targetResult" where
  "et_advanceState psize peq s =
     do {
       (s', out) \<leftarrow> (if etState (fst s) = etVerifying
         then do {
           verified \<leftarrow> verifyNewEpochState peq (fst s);
           if verified then et_advanceState psize peq ((fst s)\<lparr>etState := etFetching\<rparr>, snd s) else Some (s, [])
         }
         else advanceRound psize s);
       if etState (fst s') = etState (fst s) then Some (s', out)
       else do {
         (s'', out') \<leftarrow> et_advanceState psize peq s';
         Some (s'', ActionList_concat out out')
       }
     }"

definition et_applyEpochChangeDigest ::
  "(Msg \<Rightarrow> nat) \<Rightarrow> protoEqual \<Rightarrow> u64 \<Rightarrow> u64 \<Rightarrow> EpochChangeMsg \<Rightarrow> bytes \<Rightarrow> target \<Rightarrow> targetResult" where
  [go_defs]: "et_applyEpochChangeDigest psize peq source origin msg digest s =
     (let et = fst s;
          change = (case gm_lookup (etChanges et) origin of
                      Some c \<Rightarrow> c
                    | None \<Rightarrow> \<lparr>ecNetworkConfig = etNetworkConfig et, ecParsedByDigest = [], ecStrongCert = None\<rparr>);
          change = ec_addMsg source msg digest change;
          et = et\<lparr>etChanges := gm_update origin change (etChanges et)\<rparr>
      in if ecStrongCert change = None then Some ((et, snd s), [])
         else if gm_lookup (etStrongChanges et) origin \<noteq> None then Some ((et, snd s), [])
         else do {
           parsed \<leftarrow> gm_lookup (ecParsedByDigest change) (bstr (ecStrongCert change));
           et_advanceState psize peq (et\<lparr>etStrongChanges := gm_update origin parsed (etStrongChanges et)\<rparr>, snd s)
         })"

definition applyNewEpochMsg :: "(Msg \<Rightarrow> nat) \<Rightarrow> protoEqual \<Rightarrow> NewEpochMsg \<Rightarrow> target \<Rightarrow> targetResult" where
  [go_defs]: "applyNewEpochMsg psize peq msg s = et_advanceState psize peq ((fst s)\<lparr>etLeaderNewEpoch := Some msg\<rparr>, snd s)"

definition applyNewEpochEchoMsg :: "(Msg \<Rightarrow> nat) \<Rightarrow> protoEqual \<Rightarrow> u64 \<Rightarrow> NewEpochConfig \<Rightarrow> target \<Rightarrow> targetResult" where
  [go_defs]: "applyNewEpochEchoMsg psize peq source msg s =
     et_advanceState psize peq ((fst s)\<lparr>etEchos := addVote peq source msg (etEchos (fst s))\<rparr>, snd s)"

text \<open>The nodes that voted for the configuration a message names.\<close>

definition votesFor :: "protoEqual \<Rightarrow> NewEpochConfig \<Rightarrow> configVotes \<Rightarrow> u64 list" where
  [go_defs]: "votesFor peq msg cvs = (case find (\<lambda>v. peq (Some (fst v)) (Some msg)) cvs of None \<Rightarrow> [] | Some v \<Rightarrow> snd v)"

definition applyNewEpochReadyMsg :: "(Msg \<Rightarrow> nat) \<Rightarrow> protoEqual \<Rightarrow> u64 \<Rightarrow> NewEpochConfig \<Rightarrow> target \<Rightarrow> targetResult" where
  [go_defs]: "applyNewEpochReadyMsg psize peq source msg s =
     (if etState (fst s) > etReadying then Some (s, [])
      else
        let s = ((fst s)\<lparr>etReadies := addVote peq source msg (etReadies (fst s))\<rparr>, snd s);
            readies = ls_insert source (votesFor peq msg (etReadies (fst s)))
        in if int (length readies) < someCorrectQuorum (etNetworkConfig (fst s)) then Some (s, [])
           else if etState (fst s) < etEchoing then et_advanceState psize peq s
           else if etState (fst s) < etReadying
           then Some (((fst s)\<lparr>etState := etReadying\<rparr>, snd s),
                      ActionList_Send [] (ncNodes (etNetworkConfig (fst s))) (Msg_NewEpochReady msg))
           else et_advanceState psize peq s)"

definition et_moveLowWatermark :: "(Msg \<Rightarrow> nat) \<Rightarrow> u64 \<Rightarrow> target \<Rightarrow> targetResult" where
  [go_defs]: "et_moveLowWatermark psize seqNo s =
     (if etState (fst s) \<noteq> etInProgress then Some (s, [])
      else do {
        e \<leftarrow> etActiveEpoch (fst s);
        ((e, w), actions, isDone) \<leftarrow> ae_moveLowWatermark psize seqNo (e, twEpoch (snd s));
        let et = (fst s)\<lparr>etActiveEpoch := Some e\<rparr>;
        Some ((if isDone then et\<lparr>etState := etDone\<rparr> else et, (snd s)\<lparr>twEpoch := w\<rparr>), actions)
      })"

definition applySuspectMsg :: "u64 \<Rightarrow> epochTarget \<Rightarrow> epochTarget" where
  [go_defs]: "applySuspectMsg source et =
     (let et = et\<lparr>etSuspicions := ls_insert source (etSuspicions et)\<rparr> in
      if int (length (etSuspicions et)) \<ge> intersectionQuorum (etNetworkConfig et) then et\<lparr>etState := etDone\<rparr> else et)"

end
