(* ===== verification/Mir_EpochTracker.thy ===== *)
theory Mir_EpochTracker
  imports Mir_EpochTarget
begin

text \<open>
  \<open>pkg/statemachine/epoch_tracker.go\<close>: the target that is current, the messages of later epochs, and the
  step to the next epoch. The components the tracker shares are the \<open>targetWorld\<close> of \<open>Mir_EpochTarget\<close>.
  The map \<open>targets\<close> is never written and only read by \<open>status\<close>; it is left out.
\<close>

section \<open>Data\<close>

record epochTracker =
  trCurrentEpoch :: "epochTarget option"
  trNodeBuffers :: nodeBuffers
  trNetworkConfig :: "NetworkConfig option"
  trMyConfig :: InitialParameters
  trFutureMsgs :: "u64 \<rightharpoonup> msgBuffer"
  trNeedsStateTransfer :: bool
  trMaxEpochs :: "(u64, u64) gomap"
  trMaxCorrectEpoch :: u64
  trTicksOutOfCorrectEpoch :: int

type_synonym tracker = "epochTracker \<times> targetWorld"
type_synonym trackerResult = "(tracker \<times> ActionList) option"

definition newEpochTracker :: "nodeBuffers \<Rightarrow> InitialParameters \<Rightarrow> epochTracker" where
  [go_defs]: "newEpochTracker nbs myConfig =
     \<lparr>trCurrentEpoch = None, trNodeBuffers = nbs, trNetworkConfig = None, trMyConfig = myConfig, trFutureMsgs = Map.empty,
      trNeedsStateTransfer = False, trMaxEpochs = [], trMaxCorrectEpoch = 0, trTicksOutOfCorrectEpoch = 0\<rparr>"

text \<open>A method of the current target.\<close>

definition onCurrent :: "(target \<Rightarrow> targetResult) \<Rightarrow> tracker \<Rightarrow> trackerResult" where
  [go_defs]: "onCurrent f s =
     do {
       et \<leftarrow> trCurrentEpoch (fst s);
       ((et, w), out) \<leftarrow> f (et, snd s);
       Some (((fst s)\<lparr>trCurrentEpoch := Some et\<rparr>, w), out)
     }"

section \<open>Messages\<close>

definition epochForMsg :: "Msg \<Rightarrow> u64 option" where
  [go_defs]: "epochForMsg msg =
     (case msg of
        Msg_Preprepare _ epoch _ \<Rightarrow> Some epoch
      | Msg_Prepare _ epoch _ \<Rightarrow> Some epoch
      | Msg_Commit _ epoch _ \<Rightarrow> Some epoch
      | Msg_Suspect epoch \<Rightarrow> Some epoch
      | Msg_EpochChange ec \<Rightarrow> Some (ecmNewEpoch ec)
      | Msg_EpochChangeAck _ ec \<Rightarrow> Some (ecmNewEpoch ec)
      | Msg_NewEpoch ne \<Rightarrow> map_option (\<lambda>ne. epNumber (necConfig (neNewConfig ne))) ne
      | Msg_NewEpochEcho cfg \<Rightarrow> Some (epNumber (necConfig cfg))
      | Msg_NewEpochReady cfg \<Rightarrow> Some (epNumber (necConfig cfg))
      | _ \<Rightarrow> None)"

definition tr_filter :: "epochTracker \<Rightarrow> u64 \<Rightarrow> Msg \<Rightarrow> applyable option" where
  [go_defs]: "tr_filter et source msg =
     do {
       epochNumber \<leftarrow> epochForMsg msg;
       cur \<leftarrow> trCurrentEpoch et;
       Some (if epochNumber < etNumber cur then past else if epochNumber > etNumber cur then future else current)
     }"

definition tr_applyMsg :: "(Msg \<Rightarrow> nat) \<Rightarrow> protoEqual \<Rightarrow> u64 \<Rightarrow> Msg \<Rightarrow> tracker \<Rightarrow> trackerResult" where
  [go_defs]: "tr_applyMsg psize peq source msg s =
     (case msg of
        Msg_Preprepare _ _ _ \<Rightarrow> onCurrent (et_step psize source msg) s
      | Msg_Prepare _ _ _ \<Rightarrow> onCurrent (et_step psize source msg) s
      | Msg_Commit _ _ _ \<Rightarrow> onCurrent (et_step psize source msg) s
      | Msg_Suspect _ \<Rightarrow> onCurrent (\<lambda>(et, w). Some ((applySuspectMsg source et, w), [])) s
      | Msg_EpochChange ec \<Rightarrow> onCurrent (\<lambda>(et, w). Some ((et, w), applyEpochChangeMsg source ec et)) s
      | Msg_EpochChangeAck originator ec \<Rightarrow> onCurrent (\<lambda>t. Some (t, applyEpochChangeAckMsg source originator ec)) s
      | Msg_NewEpoch ne \<Rightarrow> do {
          ne \<leftarrow> ne;
          nc \<leftarrow> trNetworkConfig (fst s);
          assert (ncNodes nc \<noteq> []);
          if epNumber (necConfig (neNewConfig ne)) mod of_nat (length (ncNodes nc)) \<noteq> source then Some (s, [])
          else onCurrent (applyNewEpochMsg psize peq ne) s
        }
      | Msg_NewEpochEcho cfg \<Rightarrow> onCurrent (applyNewEpochEchoMsg psize peq source cfg) s
      | Msg_NewEpochReady cfg \<Rightarrow> onCurrent (applyNewEpochReadyMsg psize peq source cfg) s
      | _ \<Rightarrow> None)"

definition tr_step :: "(Msg \<Rightarrow> nat) \<Rightarrow> protoEqual \<Rightarrow> u64 \<Rightarrow> Msg \<Rightarrow> tracker \<Rightarrow> trackerResult" where
  [go_defs]: "tr_step psize peq source msg s =
     do {
       epochNumber \<leftarrow> epochForMsg msg;
       cur \<leftarrow> trCurrentEpoch (fst s);
       if epochNumber < etNumber cur then Some (s, [])
       else if epochNumber > etNumber cur
       then do {
         let maxEpoch = (case gm_lookup (trMaxEpochs (fst s)) source of None \<Rightarrow> 0 | Some e \<Rightarrow> e);
         let et = (if maxEpoch < epochNumber then (fst s)\<lparr>trMaxEpochs := gm_update source epochNumber (trMaxEpochs (fst s))\<rparr>
                   else fst s);
         b \<leftarrow> trFutureMsgs et source;
         Some ((et\<lparr>trFutureMsgs := (trFutureMsgs et)(source \<mapsto> store psize msg b)\<rparr>, snd s), [])
       }
       else tr_applyMsg psize peq source msg s
     }"

text \<open>The loop over the buffers of later epochs, for one node.\<close>

definition applyFuture :: "(Msg \<Rightarrow> nat) \<Rightarrow> protoEqual \<Rightarrow> u64 \<Rightarrow> tracker \<times> ActionList \<Rightarrow> trackerResult" where
  [go_defs]: "applyFuture psize peq i st =
     do {
       b \<leftarrow> trFutureMsgs (fst (fst st)) i;
       (b, (s, actions)) \<leftarrow> mb_iterate psize (\<lambda>(s, _). tr_filter (fst s))
         (\<lambda>source msg (s, actions). do {
            (s, out) \<leftarrow> tr_applyMsg psize peq source msg s;
            Some (s, ActionList_concat actions out)
          }) b st;
       Some (((fst s)\<lparr>trFutureMsgs := (trFutureMsgs (fst s))(i \<mapsto> b)\<rparr>, snd s), actions)
     }"

section \<open>Starting from the log\<close>

text \<open>The closure variables of \<open>reinitialize\<close>.\<close>

record lastSeen =
  lsN :: "NEntry option"
  lsEC :: "ECEntry option"
  lsF :: "FEntry option"
  lsHighestPreprepared :: u64

definition lastSeenIterator :: "lastSeen logIterator" where
  [go_defs]: "lastSeenIterator = noCallbacks\<lparr>
     onNEntry := \<lambda>nEntry ls. Some (ls\<lparr>lsN := Some nEntry\<rparr>),
     onFEntry := \<lambda>fEntry ls. Some (ls\<lparr>lsF := Some fEntry\<rparr>),
     onECEntry := \<lambda>ecEntry ls. Some (ls\<lparr>lsEC := Some ecEntry\<rparr>),
     onQEntry := \<lambda>qEntry ls.
       Some (if qeSeqNo qEntry > lsHighestPreprepared ls then ls\<lparr>lsHighestPreprepared := qeSeqNo qEntry\<rparr> else ls),
     onCEntry := \<lambda>cEntry ls.
       Some (if ceSeqNo cEntry > lsHighestPreprepared ls then ls\<lparr>lsHighestPreprepared := ceSeqNo cEntry\<rparr> else ls)\<rparr>"

text \<open>The loop that moves the starting sequence to the first one after a checkpoint, with whether it moved.\<close>

partial_function (option) alignStart :: "u64 \<Rightarrow> u64 \<Rightarrow> bool \<Rightarrow> (u64 \<times> bool) option" where
  "alignStart ci startingSeqNo moved =
     (if ci = 0 then None
      else if startingSeqNo mod ci \<noteq> 1 then alignStart ci (startingSeqNo + 1) True
      else Some (startingSeqNo, moved))"

definition resumeEpoch :: "NEntry \<Rightarrow> u64 \<Rightarrow> NetworkConfig \<Rightarrow> tracker \<Rightarrow> trackerResult" where
  [go_defs]: "resumeEpoch lastN highestPreprepared nc s =
     do {
       let number = epNumber (neEpochConfig lastN);
       et \<leftarrow> newEpochTarget number (trNodeBuffers (fst s)) nc (trMyConfig (fst s));
       (startingSeqNo, moved) \<leftarrow> alignStart (scast (ncCheckpointInterval nc)) (highestPreprepared + 1) False;
       let et = et\<lparr>etStartingSeqNo := startingSeqNo, etState := etResuming\<rparr>;
       (w, actions) \<leftarrow> logging (addSuspect number) (snd s, []);
       Some (((fst s)\<lparr>trCurrentEpoch := Some et, trNeedsStateTransfer := trNeedsStateTransfer (fst s) \<or> moved\<rparr>, w),
             ActionList_Send actions (ncNodes nc) (Msg_Suspect number))
     }"

text \<open>The target of an epoch for which our epoch change is (being) sent.\<close>

definition changeTarget :: "u64 \<Rightarrow> u64 list \<Rightarrow> NetworkConfig \<Rightarrow> tracker \<Rightarrow> (epochTarget \<times> EpochChangeMsg) option" where
  [go_defs]: "changeTarget number leaders nc s =
     do {
       ec \<leftarrow> constructEpochChange number (twPersisted (snd s));
       parsed \<leftarrow> (case newParsedEpochChange ec of Inl _ \<Rightarrow> None | Inr parsed \<Rightarrow> Some parsed);
       et \<leftarrow> newEpochTarget (ecmNewEpoch ec) (trNodeBuffers (fst s)) nc (trMyConfig (fst s));
       Some (et\<lparr>etMyEpochChange := Some parsed, etMyLeaderChoice := leaders\<rparr>, ec)
     }"

text \<open>The case of \<open>reinitialize\<close> in which our epoch change was persisted; the flag says that the buffered
  messages are still to be applied.\<close>

definition continueChange ::
  "(Msg \<Rightarrow> nat) \<Rightarrow> protoEqual \<Rightarrow> ECEntry \<Rightarrow> NetworkConfig \<Rightarrow> tracker \<times> ActionList \<Rightarrow> (tracker \<times> ActionList \<times> bool) option" where
  [go_defs]: "continueChange psize peq lastEC nc st =
     (case st of (s, actions) \<Rightarrow>
        if (case trCurrentEpoch (fst s) of None \<Rightarrow> False | Some cur \<Rightarrow> etNumber cur = eceEpochNumber lastEC)
        then do {
          (s, out) \<leftarrow> onCurrent (et_advanceState psize peq) s;
          Some (s, ActionList_concat actions out, False)
        }
        else do {
          (et, _) \<leftarrow> changeTarget (eceEpochNumber lastEC) (ncNodes nc) nc s;
          Some (((fst s)\<lparr>trCurrentEpoch := Some et\<rparr>, snd s), actions, True)
        })"

definition ecUpTo :: "u64 \<Rightarrow> lastSeen \<Rightarrow> bool" where
  [go_defs]: "ecUpTo number ls = (case lsEC ls of None \<Rightarrow> True | Some ec \<Rightarrow> eceEpochNumber ec \<le> number)"

text \<open>The epoch change entry to continue with: a new one when the last epoch ended gracefully and no epoch
  change was logged since, otherwise the last one of the log.\<close>

definition changeEntry :: "lastSeen \<Rightarrow> targetWorld \<Rightarrow> (ECEntry \<times> targetWorld \<times> ActionList) option" where
  [go_defs]: "changeEntry ls w =
     (case lsF ls of
        Some f \<Rightarrow>
          if ecUpTo (epNumber (feEndsEpochConfig f)) ls
          then do {
            let ec = \<lparr>eceEpochNumber = epNumber (feEndsEpochConfig f) + 1\<rparr>;
            (w, out) \<leftarrow> logging (addECEntry ec) (w, []);
            Some (ec, w, out)
          }
          else map_option (\<lambda>ec. (ec, w, [])) (lsEC ls)
      | None \<Rightarrow> map_option (\<lambda>ec. (ec, w, [])) (lsEC ls))"

definition tr_reinitialize :: "(Msg \<Rightarrow> nat) \<Rightarrow> protoEqual \<Rightarrow> tracker \<Rightarrow> trackerResult" where
  [go_defs]: "tr_reinitialize psize peq s =
     do {
       active \<leftarrow> csActiveState (twCommitState (snd s));
       let nc = nsConfig active;
       let bufs = fold
         (\<lambda>i bufs. bufs(i \<mapsto> (case trFutureMsgs (fst s) i of
             Some b \<Rightarrow> b
           | None \<Rightarrow> newMsgBuffer ''future-epochs'' (nodeBuffers_nodeBuffer i (trNodeBuffers (fst s))))))
         (ncNodes nc) Map.empty;
       let s = ((fst s)\<lparr>trNetworkConfig := Some nc, trFutureMsgs := bufs\<rparr>, snd s);
       ls \<leftarrow> iterate lastSeenIterator (twPersisted (snd s)) \<lparr>lsN = None, lsEC = None, lsF = None, lsHighestPreprepared = 0\<rparr>;
       assert (case (lsN ls, lsF ls) of
                 (Some n, Some f) \<Rightarrow> epNumber (neEpochConfig n) > epNumber (feEndsEpochConfig f)
               | (None, None) \<Rightarrow> False
               | _ \<Rightarrow> True);
       (s, actions, buffered) \<leftarrow>
         (case lsN ls of
            Some n \<Rightarrow>
              if ecUpTo (epNumber (neEpochConfig n)) ls
              then do { (s, out) \<leftarrow> resumeEpoch n (lsHighestPreprepared ls) nc s; Some (s, out, True) }
              else do { (ec, w, out) \<leftarrow> changeEntry ls (snd s); continueChange psize peq ec nc ((fst s, w), out) }
          | None \<Rightarrow> do { (ec, w, out) \<leftarrow> changeEntry ls (snd s); continueChange psize peq ec nc ((fst s, w), out) });
       if buffered then ofold (applyFuture psize peq) (ncNodes nc) (s, actions) else Some (s, actions)
     }"

section \<open>Advancing\<close>

definition tr_advanceState :: "(Msg \<Rightarrow> nat) \<Rightarrow> protoEqual \<Rightarrow> tracker \<Rightarrow> trackerResult" where
  [go_defs]: "tr_advanceState psize peq s =
     do {
       cur \<leftarrow> trCurrentEpoch (fst s);
       if etState cur < etDone then onCurrent (et_advanceState psize peq) s
       else if csCheckpointPending (twCommitState (snd s)) then Some (s, [])
       else do {
         let number = (if trMaxCorrectEpoch (fst s) > etNumber cur + 1 then trMaxCorrectEpoch (fst s) else etNumber cur + 1);
         nc \<leftarrow> trNetworkConfig (fst s);
         (et, ec) \<leftarrow> changeTarget number [ipId (trMyConfig (fst s))] nc s;
         (w, actions) \<leftarrow> logging (addECEntry \<lparr>eceEpochNumber = number\<rparr>) (snd s, []);
         ofold (applyFuture psize peq) (ncNodes nc)
           (((fst s)\<lparr>trCurrentEpoch := Some et\<rparr>, w), ActionList_Send actions (ncNodes nc) (Msg_EpochChange ec))
       }
     }"

definition tr_applyBatchHashResult :: "u64 \<Rightarrow> u64 \<Rightarrow> bytes \<Rightarrow> tracker \<Rightarrow> trackerResult" where
  [go_defs]: "tr_applyBatchHashResult epoch seqNo digest s =
     do {
       cur \<leftarrow> trCurrentEpoch (fst s);
       if epoch \<noteq> etNumber cur \<or> etState cur \<noteq> etInProgress then Some (s, [])
       else onCurrent (onActive (ae_applyBatchHashResult seqNo digest)) s
     }"

text \<open>The loop of \<open>tick\<close> over the highest epochs the nodes were heard in; \<open>matches\<close> starts at one.\<close>

definition noteMaxEpoch :: "epochTracker \<Rightarrow> u64 \<Rightarrow> u64 \<Rightarrow> u64 option" where
  [go_defs]: "noteMaxEpoch et maxEpoch correct =
     (if maxEpoch \<le> correct then Some correct
      else do {
        nc \<leftarrow> trNetworkConfig et;
        let matches = 1 + length (filter (\<lambda>(_, e). \<not> e < maxEpoch) (trMaxEpochs et));
        Some (if int matches < someCorrectQuorum nc then correct else maxEpoch)
      })"

definition tr_tick :: "tracker \<Rightarrow> trackerResult" where
  [go_defs]: "tr_tick s =
     do {
       correct \<leftarrow> ofold (noteMaxEpoch (fst s)) (map snd (trMaxEpochs (fst s))) (trMaxCorrectEpoch (fst s));
       cur \<leftarrow> trCurrentEpoch (fst s);
       let et = (fst s)\<lparr>trMaxCorrectEpoch := correct\<rparr>;
       let et = (if correct > etNumber cur
                 then let ticks = trTicksOutOfCorrectEpoch et + 1
                      in et\<lparr>trTicksOutOfCorrectEpoch := ticks,
                            trCurrentEpoch := Some (if ticks > 10 then cur\<lparr>etState := etDone\<rparr> else cur)\<rparr>
                 else et);
       onCurrent et_tick (et, snd s)
     }"

definition tr_moveLowWatermark :: "(Msg \<Rightarrow> nat) \<Rightarrow> u64 \<Rightarrow> tracker \<Rightarrow> trackerResult" where
  [go_defs]: "tr_moveLowWatermark psize seqNo s = onCurrent (et_moveLowWatermark psize seqNo) s"

definition tr_applyEpochChangeDigest ::
  "(Msg \<Rightarrow> nat) \<Rightarrow> protoEqual \<Rightarrow> u64 \<Rightarrow> u64 \<Rightarrow> EpochChangeMsg \<Rightarrow> bytes \<Rightarrow> tracker \<Rightarrow> trackerResult" where
  [go_defs]: "tr_applyEpochChangeDigest psize peq source origin msg digest s =
     do {
       cur \<leftarrow> trCurrentEpoch (fst s);
       if ecmNewEpoch msg < etNumber cur then Some (s, [])
       else do {
         assert (\<not> ecmNewEpoch msg > etNumber cur);
         onCurrent (et_applyEpochChangeDigest psize peq source origin msg digest) s
       }
     }"

end
