(* ===== verification/Mir_Checkpoints.thy ===== *)
theory Mir_Checkpoints
  imports Mir_MsgBuffers Mir_Persisted
begin

text \<open>
  \<open>pkg/statemachine/checkpoints.go\<close>: the checkpoints nodes report and the window between the stable one
  and the highest expected one. The elements of \<open>activeCheckpoints\<close> are pointers to checkpoints that
  are also in \<open>checkpointMap\<close>, so the list holds their sequence numbers and they are read through the
  map. \<open>[]byte(value)\<close> of a map key is never nil.
\<close>

section \<open>Data\<close>

datatype checkpointState = cpsIdle | cpsGarbageCollectable | cpsPendingReconfig | cpsStateTransfer

record checkpoint =
  cpwSeqNo :: u64
  cpwMyConfig :: InitialParameters
  cpwNetworkConfig :: NetworkConfig
  cpwValues :: "(byte list, u64 list) gomap"
  cpwCommittedValue :: bytes
  cpwMyValue :: bytes
  cpwStable :: bool

record checkpointTracker =
  ctState :: checkpointState
  ctHighestCheckpoints :: "(u64, u64) gomap"
  ctCheckpointMap :: "(u64, checkpoint) gomap"
  ctActiveCheckpoints :: "u64 list"
  ctMsgBuffers :: "u64 \<rightharpoonup> msgBuffer"
  ctNetworkConfig :: "NetworkConfig option"
  ctNodeBuffers :: nodeBuffers
  ctMyConfig :: InitialParameters

section \<open>One checkpoint\<close>

definition newCheckpoint :: "u64 \<Rightarrow> NetworkConfig \<Rightarrow> InitialParameters \<Rightarrow> checkpoint" where
  [go_defs]: "newCheckpoint seqNo nc myConfig =
     \<lparr>cpwSeqNo = seqNo, cpwMyConfig = myConfig, cpwNetworkConfig = nc, cpwValues = [],
      cpwCommittedValue = None, cpwMyValue = None, cpwStable = False\<rparr>"

definition cp_applyCheckpointMsg :: "u64 \<Rightarrow> bytes \<Rightarrow> checkpoint \<Rightarrow> checkpoint option" where
  [go_defs]: "cp_applyCheckpointMsg source v cw =
     (let nodes = (case gm_lookup (cpwValues cw) (bstr v) of None \<Rightarrow> [] | Some ns \<Rightarrow> ns) @ [source];
          cw = cw\<lparr>cpwValues := gm_update (bstr v) nodes (cpwValues cw)\<rparr>;
          agreements = int (length nodes);
          cw = (if agreements = someCorrectQuorum (cpwNetworkConfig cw) then cw\<lparr>cpwCommittedValue := v\<rparr> else cw);
          cw = (if source = ipId (cpwMyConfig cw) then cw\<lparr>cpwMyValue := v\<rparr> else cw)
      in if cpwMyValue cw \<noteq> None \<and> cpwCommittedValue cw \<noteq> None \<and> \<not> cpwStable cw
         then if \<not> bytes_equal v (cpwCommittedValue cw) then None
              else if agreements \<ge> intersectionQuorum (cpwNetworkConfig cw) then Some (cw\<lparr>cpwStable := True\<rparr>)
              else Some cw
         else Some cw)"

section \<open>The tracker\<close>

definition newCheckpointTracker :: "nodeBuffers \<Rightarrow> InitialParameters \<Rightarrow> checkpointTracker" where
  [go_defs]: "newCheckpointTracker nbs myConfig =
     \<lparr>ctState = cpsIdle, ctHighestCheckpoints = [], ctCheckpointMap = [], ctActiveCheckpoints = [],
      ctMsgBuffers = Map.empty, ctNetworkConfig = None, ctNodeBuffers = nbs, ctMyConfig = myConfig\<rparr>"

definition ct_checkpoint :: "u64 \<Rightarrow> checkpointTracker \<Rightarrow> (checkpoint \<times> checkpointTracker) option" where
  [go_defs]: "ct_checkpoint seqNo ct =
     (case gm_lookup (ctCheckpointMap ct) seqNo of
        Some cp \<Rightarrow> Some (cp, ct)
      | None \<Rightarrow>
          do {
            nc \<leftarrow> ctNetworkConfig ct;
            let cp = newCheckpoint seqNo nc (ctMyConfig ct);
            Some (cp, ct\<lparr>ctCheckpointMap := gm_update seqNo cp (ctCheckpointMap ct)\<rparr>)
          })"

definition ct_highWatermark :: "checkpointTracker \<Rightarrow> u64 option" where
  [go_defs]: "ct_highWatermark ct = (if ctActiveCheckpoints ct = [] then None else Some (last (ctActiveCheckpoints ct)))"

definition ct_lowWatermark :: "checkpointTracker \<Rightarrow> u64 option" where
  [go_defs]: "ct_lowWatermark ct = (case ctActiveCheckpoints ct of [] \<Rightarrow> None | s # _ \<Rightarrow> Some s)"

definition ct_filter :: "checkpointTracker \<Rightarrow> u64 \<Rightarrow> Msg \<Rightarrow> applyable option" where
  [go_defs]: "ct_filter ct source msg =
     (case msg of
        Msg_Checkpoint cpMsg \<Rightarrow>
          do {
            low \<leftarrow> ct_lowWatermark ct;
            high \<leftarrow> ct_highWatermark ct;
            Some (if cpSeqNo cpMsg < low then past else if cpSeqNo cpMsg > high then future else current)
          }
      | _ \<Rightarrow> None)"

definition ct_applyCheckpointMsg :: "u64 \<Rightarrow> u64 \<Rightarrow> bytes \<Rightarrow> checkpointTracker \<Rightarrow> checkpointTracker option" where
  [go_defs]: "ct_applyCheckpointMsg source seqNo v ct =
     do {
       high \<leftarrow> ct_highWatermark ct;
       low \<leftarrow> ct_lowWatermark ct;
       let above = (seqNo > high);
       let stale = (case gm_lookup (ctHighestCheckpoints ct) source of None \<Rightarrow> False | Some highest \<Rightarrow> highest \<le> seqNo);
       if above \<and> stale then Some ct
       else do {
         let ct = (if above then ct\<lparr>ctHighestCheckpoints := gm_update source seqNo (ctHighestCheckpoints ct)\<rparr> else ct);
         (cp, ct) \<leftarrow> ct_checkpoint seqNo ct;
         cp \<leftarrow> cp_applyCheckpointMsg source v cp;
         let ct = ct\<lparr>ctCheckpointMap := gm_update seqNo cp (ctCheckpointMap ct)\<rparr>;
         if cpwStable cp \<and> seqNo > low \<and> \<not> above then Some (ct\<lparr>ctState := cpsGarbageCollectable\<rparr>)
         else if \<not> above then Some ct
         else do {
           let referenced = ctActiveCheckpoints ct @ map snd (ctHighestCheckpoints ct);
           Some (ct\<lparr>ctCheckpointMap := filter (\<lambda>(s, _). s \<in> set referenced) (ctCheckpointMap ct)\<rparr>)
         }
       }
     }"

definition ct_applyMsg :: "u64 \<Rightarrow> Msg \<Rightarrow> checkpointTracker \<Rightarrow> checkpointTracker option" where
  [go_defs]: "ct_applyMsg source msg ct =
     (case msg of
        Msg_Checkpoint m \<Rightarrow> ct_applyCheckpointMsg source (cpSeqNo m) (cpValue m) ct
      | _ \<Rightarrow> None)"

definition ct_step :: "(Msg \<Rightarrow> nat) \<Rightarrow> u64 \<Rightarrow> Msg \<Rightarrow> checkpointTracker \<Rightarrow> checkpointTracker option" where
  [go_defs]: "ct_step psize source msg ct =
     do {
       a \<leftarrow> ct_filter ct source msg;
       case a of
         past \<Rightarrow> Some ct
       | future \<Rightarrow> do {
           buffer \<leftarrow> ctMsgBuffers ct source;
           ct_applyMsg source msg (ct\<lparr>ctMsgBuffers := (ctMsgBuffers ct)(source \<mapsto> store psize msg buffer)\<rparr>)
         }
       | current \<Rightarrow> ct_applyMsg source msg ct
       | invalid \<Rightarrow> Some ct
     }"

text \<open>The loop of \<open>garbageCollect\<close> over the stable prefix, returning the elements before the highest stable
  one and the rest from it on.\<close>

definition isStable :: "checkpointTracker \<Rightarrow> u64 \<Rightarrow> bool" where
  [go_defs]: "isStable ct s = (case gm_lookup (ctCheckpointMap ct) s of None \<Rightarrow> False | Some cp \<Rightarrow> cpwStable cp)"

definition stablePrefix :: "checkpointTracker \<Rightarrow> u64 list" where
  [go_defs]: "stablePrefix ct = takeWhile (isStable ct) (ctActiveCheckpoints ct)"

function fillActive :: "checkpointTracker \<Rightarrow> checkpointTracker option" where
  "fillActive ct =
     (if length (ctActiveCheckpoints ct) < 3
      then (case ct_highWatermark ct of
              None \<Rightarrow> None
            | Some high \<Rightarrow>
                (case ctNetworkConfig ct of
                   None \<Rightarrow> None
                 | Some nc \<Rightarrow>
                     (case ct_checkpoint (high + scast (ncCheckpointInterval nc)) ct of
                        None \<Rightarrow> None
                      | Some (cp, ct') \<Rightarrow>
                          fillActive (ct'\<lparr>ctActiveCheckpoints := ctActiveCheckpoints ct @ [high + scast (ncCheckpointInterval nc)]\<rparr>))))
      else Some ct)"
  by pat_completeness auto
termination
  by (relation "measure (\<lambda>ct. 3 - length (ctActiveCheckpoints ct))") auto

declare fillActive.simps [simp del]

definition iterateBuffer :: "(Msg \<Rightarrow> nat) \<Rightarrow> u64 \<Rightarrow> checkpointTracker \<Rightarrow> checkpointTracker option" where
  [go_defs]: "iterateBuffer psize i ct =
     do {
       buffer \<leftarrow> ctMsgBuffers ct i;
       (buffer, ct) \<leftarrow> mb_iterate psize ct_filter ct_applyMsg buffer ct;
       Some (ct\<lparr>ctMsgBuffers := (ctMsgBuffers ct)(i \<mapsto> buffer)\<rparr>)
     }"

definition garbageCollect :: "(Msg \<Rightarrow> nat) \<Rightarrow> checkpointTracker \<Rightarrow> (u64 \<times> checkpointTracker) option" where
  [go_defs]: "garbageCollect psize ct =
     do {
       let prefix = stablePrefix ct;
       assert (prefix \<noteq> []);
       let highestStable = last prefix;
       let ct = ct\<lparr>ctCheckpointMap := filter (\<lambda>(s, _). s \<notin> set (butlast prefix)) (ctCheckpointMap ct),
                   ctActiveCheckpoints := drop (length prefix - 1) (ctActiveCheckpoints ct)\<rparr>;
       ct \<leftarrow> fillActive ct;
       nc \<leftarrow> ctNetworkConfig ct;
       ct \<leftarrow> ofold (iterateBuffer psize) (ncNodes nc) ct;
       Some (highestStable, ct\<lparr>ctState := cpsIdle\<rparr>)
     }"

text \<open>The closure of \<open>reinitialize\<close>, over the tracker itself.\<close>

definition loadCheckpoint :: "CEntry \<Rightarrow> checkpointTracker \<Rightarrow> checkpointTracker option" where
  [go_defs]: "loadCheckpoint cEntry ct =
     do {
       let ct = (if ctNetworkConfig ct = None then ct\<lparr>ctNetworkConfig := Some (nsConfig (ceNetworkState cEntry))\<rparr> else ct);
       (cp, ct) \<leftarrow> ct_checkpoint (ceSeqNo cEntry) ct;
       cp \<leftarrow> cp_applyCheckpointMsg (ipId (ctMyConfig ct)) (ceCheckpointValue cEntry) cp;
       Some (ct\<lparr>ctCheckpointMap := gm_update (ceSeqNo cEntry) cp (ctCheckpointMap ct),
               ctActiveCheckpoints := ctActiveCheckpoints ct @ [ceSeqNo cEntry]\<rparr>)
     }"

definition replayCheckpoint ::
  "u64 list \<Rightarrow> u64 \<times> checkpoint \<Rightarrow> checkpointTracker \<Rightarrow> checkpointTracker option" where
  [go_defs]: "replayCheckpoint validNodes sc ct =
     (case sc of (seqNo, cp) \<Rightarrow>
      do {
        low \<leftarrow> ct_lowWatermark ct;
        if seqNo < low then Some ct
        else ofold
          (\<lambda>(v, agreements) ct.
             ofold (\<lambda>node ct. if node \<notin> set validNodes then Some ct else ct_applyCheckpointMsg node seqNo (Some v) ct)
               agreements ct)
          (cpwValues cp) ct
      })"

definition ct_reinitialize :: "(Msg \<Rightarrow> nat) \<Rightarrow> persisted \<Rightarrow> checkpointTracker \<Rightarrow> checkpointTracker option" where
  [go_defs]: "ct_reinitialize psize p ct =
     do {
       let oldCheckpointMap = ctCheckpointMap ct;
       let oldMsgBuffers = ctMsgBuffers ct;
       let ct = ct\<lparr>ctHighestCheckpoints := [], ctCheckpointMap := [], ctActiveCheckpoints := [],
                   ctMsgBuffers := Map.empty, ctNetworkConfig := None\<rparr>;
       ct \<leftarrow> iterate (noCallbacks\<lparr>onCEntry := loadCheckpoint\<rparr>) p ct;
       low \<leftarrow> ct_lowWatermark ct;
       first \<leftarrow> gm_lookup (ctCheckpointMap ct) low;
       let ct = ct\<lparr>ctCheckpointMap := gm_update low (first\<lparr>cpwStable := True\<rparr>) (ctCheckpointMap ct)\<rparr>;
       nc \<leftarrow> ctNetworkConfig ct;
       let ct = ct\<lparr>ctMsgBuffers := fold
          (\<lambda>i bufs. bufs(i \<mapsto> (case oldMsgBuffers i of
              Some buffer \<Rightarrow> buffer
            | None \<Rightarrow> newMsgBuffer ''checkpoints'' (nodeBuffers_nodeBuffer i (ctNodeBuffers ct)))))
          (ncNodes nc) (ctMsgBuffers ct)\<rparr>;
       ct \<leftarrow> ofold (replayCheckpoint (ncNodes nc)) oldCheckpointMap ct;
       (_, ct) \<leftarrow> garbageCollect psize ct;
       Some ct
     }"

section \<open>What nodes reported\<close>

definition reportedBy :: "byte list \<Rightarrow> checkpoint \<Rightarrow> u64 list" where
  "reportedBy k cw = (case gm_lookup (cpwValues cw) k of None \<Rightarrow> [] | Some ns \<Rightarrow> ns)"

definition cpRun :: "(u64 \<times> bytes) list \<Rightarrow> checkpoint \<Rightarrow> checkpoint option" where
  "cpRun votes cw = ofold (\<lambda>(source, v). cp_applyCheckpointMsg source v) votes cw"

lemma cp_applyCheckpointMsg_facts:
  assumes "cp_applyCheckpointMsg source v cw = Some cw'"
  shows "reportedBy k cw' = reportedBy k cw @ (if bstr v = k then [source] else [])"
    "cpwNetworkConfig cw' = cpwNetworkConfig cw" "cpwSeqNo cw' = cpwSeqNo cw" "cpwMyConfig cw' = cpwMyConfig cw"
    "cpwStable cw \<Longrightarrow> cpwStable cw'"
    "cpwStable cw' \<Longrightarrow> cpwStable cw \<or> intersectionQuorum (cpwNetworkConfig cw) \<le> int (length (reportedBy (bstr v) cw'))"
  using assms
  by (auto simp: cp_applyCheckpointMsg_def Let_def reportedBy_def update_conv' split: option.splits if_splits)

lemma cpRun_step:
  "cpRun ((s, v) # votes) cw = Some cw' \<longleftrightarrow> (\<exists>cw1. cp_applyCheckpointMsg s v cw = Some cw1 \<and> cpRun votes cw1 = Some cw')"
  by (auto simp: cpRun_def split: option.splits)

lemma cpRun_facts:
  assumes "cpRun votes cw = Some cw'"
  shows "(\<forall>k. reportedBy k cw' = reportedBy k cw @ map fst (filter (\<lambda>(_, v). bstr v = k) votes)) \<and>
    cpwNetworkConfig cw' = cpwNetworkConfig cw \<and>
    (cpwStable cw' \<longrightarrow> cpwStable cw \<or> (\<exists>k. intersectionQuorum (cpwNetworkConfig cw) \<le> int (length (reportedBy k cw'))))"
  using assms
proof (induction votes arbitrary: cw)
  case Nil
  then show ?case by (simp add: cpRun_def)
next
  case (Cons sv votes)
  obtain s v where sv: "sv = (s, v)" by (cases sv)
  with Cons.prems obtain cw1 where cw1: "cp_applyCheckpointMsg s v cw = Some cw1" "cpRun votes cw1 = Some cw'"
    by (auto simp: cpRun_step)
  note f = cp_applyCheckpointMsg_facts [OF cw1(1)] and IH = Cons.IH [OF cw1(2)]
  have le: "int (length (reportedBy (bstr v) cw1)) \<le> int (length (reportedBy (bstr v) cw'))" using IH by simp
  show ?case
  proof (intro conjI allI impI)
    show "reportedBy k cw' = reportedBy k cw @ map fst (filter (\<lambda>(_, v). bstr v = k) (sv # votes))" for k
      using IH f(1) [of k] by (simp add: sv)
    show "cpwNetworkConfig cw' = cpwNetworkConfig cw" using IH f(2) by simp
    assume "cpwStable cw'"
    then consider "cpwStable cw1" | k where "intersectionQuorum (cpwNetworkConfig cw) \<le> int (length (reportedBy k cw'))"
      using IH f(2) by metis
    then show "cpwStable cw \<or> (\<exists>k. intersectionQuorum (cpwNetworkConfig cw) \<le> int (length (reportedBy k cw')))"
      using f(6) le by cases (meson order_trans)+
  qed
qed

section \<open>The window\<close>

text \<open>The active checkpoints ascend in steps of the interval, exist, and the first one is stable.\<close>

fun spaced :: "u64 \<Rightarrow> u64 list \<Rightarrow> bool" where
  "spaced ci (x # y # zs) \<longleftrightarrow> y = x + ci \<and> spaced ci (y # zs)"
| "spaced ci _ \<longleftrightarrow> True"

definition ctInv :: "checkpointTracker \<Rightarrow> bool" where
  "ctInv ct \<longleftrightarrow> ctActiveCheckpoints ct \<noteq> [] \<and> sorted_wrt (<) (ctActiveCheckpoints ct) \<and>
     isStable ct (hd (ctActiveCheckpoints ct)) \<and>
     (\<forall>s \<in> set (ctActiveCheckpoints ct). gm_lookup (ctCheckpointMap ct) s \<noteq> None) \<and>
     (case ctNetworkConfig ct of
        None \<Rightarrow> False
      | Some nc \<Rightarrow> spaced (scast (ncCheckpointInterval nc)) (ctActiveCheckpoints ct))"

text \<open>What an operation may do to the tracker without moving the window.\<close>

definition ctKeeps :: "checkpointTracker \<Rightarrow> checkpointTracker \<Rightarrow> bool" where
  "ctKeeps ct ct' \<longleftrightarrow> ctActiveCheckpoints ct' = ctActiveCheckpoints ct \<and> ctNetworkConfig ct' = ctNetworkConfig ct \<and>
     ctMyConfig ct' = ctMyConfig ct \<and>
     (\<forall>s \<in> set (ctActiveCheckpoints ct). gm_lookup (ctCheckpointMap ct) s \<noteq> None \<longrightarrow>
        gm_lookup (ctCheckpointMap ct') s \<noteq> None \<and> (isStable ct s \<longrightarrow> isStable ct' s))"

lemma ctKeeps_refl [simp]: "ctKeeps ct ct"
  by (simp add: ctKeeps_def)

lemma ctKeeps_trans: "ctKeeps a b \<Longrightarrow> ctKeeps b c \<Longrightarrow> ctKeeps a c"
  by (auto simp: ctKeeps_def)

lemma ctKeeps_buffers [simp]: "ctKeeps a (b\<lparr>ctMsgBuffers := m\<rparr>) \<longleftrightarrow> ctKeeps a b"
  "ctKeeps (a\<lparr>ctMsgBuffers := m\<rparr>) b \<longleftrightarrow> ctKeeps a b" "ctKeeps a (b\<lparr>ctState := st\<rparr>) \<longleftrightarrow> ctKeeps a b"
  by (simp_all add: ctKeeps_def isStable_def)

lemma ctKeeps_inv: "ctInv ct \<Longrightarrow> ctKeeps ct ct' \<Longrightarrow> ctInv ct'"
  by (auto simp: ctInv_def ctKeeps_def split: option.splits)

lemma ct_checkpoint_facts:
  assumes "ct_checkpoint seqNo ct = Some (cp, ct1)"
  shows "gm_lookup (ctCheckpointMap ct1) seqNo = Some cp"
    "s \<noteq> seqNo \<Longrightarrow> gm_lookup (ctCheckpointMap ct1) s = gm_lookup (ctCheckpointMap ct) s"
    "gm_lookup (ctCheckpointMap ct) seqNo = Some cp0 \<Longrightarrow> cp = cp0"
    "ct1 = ct\<lparr>ctCheckpointMap := ctCheckpointMap ct1\<rparr>"
  using assms by (auto simp: ct_checkpoint_def Let_def bind_eq_Some_conv update_conv' split: option.splits)

lemma ct_checkpoint_total:
  "ctNetworkConfig ct = Some nc \<Longrightarrow> \<exists>cp ct1. ct_checkpoint seqNo ct = Some (cp, ct1)"
  by (cases "gm_lookup (ctCheckpointMap ct) seqNo") (auto simp: ct_checkpoint_def Let_def)

lemma ct_applyCheckpointMsg_keeps:
  assumes "ct_applyCheckpointMsg source seqNo v ct = Some ct'"
  shows "ctKeeps ct ct' \<and> ctMsgBuffers ct' = ctMsgBuffers ct"
proof (cases "ct' = ct")
  case False
  obtain high low where wm: "ct_highWatermark ct = Some high" "ct_lowWatermark ct = Some low"
    using assms by (auto simp: ct_applyCheckpointMsg_def bind_eq_Some_conv)
  define ct0 where "ct0 = (if high < seqNo then ct\<lparr>ctHighestCheckpoints := gm_update source seqNo (ctHighestCheckpoints ct)\<rparr> else ct)"
  obtain cp ct1 cp' where cp: "ct_checkpoint seqNo ct0 = Some (cp, ct1)" "cp_applyCheckpointMsg source v cp = Some cp'"
    using assms False by (auto simp: ct_applyCheckpointMsg_def wm Let_def ct0_def bind_eq_Some_conv split: if_splits)
  define ct2 where "ct2 = ct1\<lparr>ctCheckpointMap := gm_update seqNo cp' (ctCheckpointMap ct1)\<rparr>"
  note c = ct_checkpoint_facts [OF cp(1)] and c' = cp_applyCheckpointMsg_facts [OF cp(2)]
  have 0: "ctCheckpointMap ct0 = ctCheckpointMap ct" "ctActiveCheckpoints ct0 = ctActiveCheckpoints ct"
    "ctNetworkConfig ct0 = ctNetworkConfig ct" "ctMyConfig ct0 = ctMyConfig ct" "ctMsgBuffers ct0 = ctMsgBuffers ct"
    by (simp_all add: ct0_def)
  have same: "ctActiveCheckpoints ct2 = ctActiveCheckpoints ct" "ctNetworkConfig ct2 = ctNetworkConfig ct"
    "ctMyConfig ct2 = ctMyConfig ct" "ctMsgBuffers ct2 = ctMsgBuffers ct"
    unfolding ct2_def by (subst c(4), simp add: 0)+
  have look: "gm_lookup (ctCheckpointMap ct2) s = (if s = seqNo then Some cp' else gm_lookup (ctCheckpointMap ct) s)" for s
    using c(2) by (simp add: ct2_def update_conv' 0)
  have st: "isStable ct s \<Longrightarrow> isStable ct2 s" for s
    using c(3) c'(5) by (auto simp: isStable_def look 0 split: option.splits)
  have k2: "ctKeeps ct ct2" using st same by (auto simp: ctKeeps_def look)
  have "ct' \<in> {ct2\<lparr>ctState := cpsGarbageCollectable\<rparr>, ct2,
      ct2\<lparr>ctCheckpointMap := filter (\<lambda>(s, _). s \<in> set (ctActiveCheckpoints ct2 @ map snd (ctHighestCheckpoints ct2))) (ctCheckpointMap ct2)\<rparr>}"
    using assms False cp by (auto simp: ct_applyCheckpointMsg_def wm Let_def ct0_def ct2_def split: if_splits)
  moreover have "ctKeeps ct (ct2\<lparr>ctCheckpointMap := filter (\<lambda>(s, _). s \<in> set (ctActiveCheckpoints ct2 @ map snd (ctHighestCheckpoints ct2))) (ctCheckpointMap ct2)\<rparr>)"
    using k2 by (auto simp: ctKeeps_def isStable_def gm_lookup_filter)
  ultimately show ?thesis using k2 same by auto
qed simp

lemma ct_applyMsg_keeps:
  "ct_applyMsg source msg ct = Some ct' \<Longrightarrow> ctKeeps ct ct' \<and> ctMsgBuffers ct' = ctMsgBuffers ct"
  by (auto simp: ct_applyMsg_def ct_applyCheckpointMsg_keeps split: Msg.splits)

lemma ct_step_inv:
  assumes "ctInv ct" and "ct_step psize source msg ct = Some ct'"
  shows "ctInv ct' \<and> ctActiveCheckpoints ct' = ctActiveCheckpoints ct"
proof -
  obtain a where a: "ct_filter ct source msg = Some a" using assms(2) by (auto simp: ct_step_def bind_eq_Some_conv)
  have "ctKeeps ct ct'"
    using assms(2) by (cases a) (auto simp: ct_step_def a bind_eq_Some_conv dest!: ct_applyMsg_keeps)
  then show ?thesis using ctKeeps_inv assms(1) by (auto simp: ctKeeps_def)
qed

lemma iterateBuffer_keeps:
  assumes "iterateBuffer psize i ct = Some ct'"
  shows "ctKeeps ct ct'"
proof -
  obtain buffer buffer' ct1 where *: "mb_iterate psize ct_filter ct_applyMsg buffer ct = Some (buffer', ct1)"
      "ct' = ct1\<lparr>ctMsgBuffers := (ctMsgBuffers ct1)(i \<mapsto> buffer')\<rparr>"
    using assms by (auto simp: iterateBuffer_def bind_eq_Some_conv)
  have "ctKeeps ct ct1"
    by (rule iterateLoop_rel [OF *(1) [unfolded mb_iterate_def]]) (use ct_applyMsg_keeps ctKeeps_trans in auto)
  then show ?thesis using *(2) by simp
qed

lemma spaced_snoc: "spaced ci xs \<Longrightarrow> xs \<noteq> [] \<Longrightarrow> spaced ci (xs @ [last xs + ci])"
  by (induction ci xs rule: spaced.induct) auto

lemma fillActive_window:
  assumes "ctInv ct" and "ctNetworkConfig ct = Some nc" and "ci = (scast (ncCheckpointInterval nc) :: u64)" and "0 < ci"
    and "unat (last (ctActiveCheckpoints ct)) + (3 - length (ctActiveCheckpoints ct)) * unat ci < 2 ^ 64"
  shows "\<exists>ct' filled. fillActive ct = Some ct' \<and> ctInv ct' \<and> ctActiveCheckpoints ct' = ctActiveCheckpoints ct @ filled \<and>
    3 \<le> length (ctActiveCheckpoints ct') \<and> (3 \<le> length (ctActiveCheckpoints ct) \<longrightarrow> filled = []) \<and>
    ctNetworkConfig ct' = Some nc \<and> ctMsgBuffers ct' = ctMsgBuffers ct"
  using assms
proof (induction ct rule: fillActive.induct)
  case (1 ct)
  show ?case
  proof (cases "length (ctActiveCheckpoints ct) < 3")
    case False
    then show ?thesis using 1 by (intro exI [of _ ct] exI [of _ "[]"]) (auto simp: fillActive.simps)
  next
    case True
    let ?a = "ctActiveCheckpoints ct"
    let ?h = "last ?a"
    have ne: "?a \<noteq> []" using 1(2) by (simp add: ctInv_def)
    then have high: "ct_highWatermark ct = Some ?h" by (simp add: ct_highWatermark_def)
    obtain cp ct1 where cp: "ct_checkpoint (?h + ci) ct = Some (cp, ct1)"
      using ct_checkpoint_total 1(3) by blast
    note c = ct_checkpoint_facts [OF cp]
    define ct2 where "ct2 = ct1\<lparr>ctActiveCheckpoints := ?a @ [?h + ci]\<rparr>"
    have a2: "ctActiveCheckpoints ct2 = ?a @ [?h + ci]" "ctNetworkConfig ct2 = Some nc" "ctMsgBuffers ct2 = ctMsgBuffers ct"
      "ctCheckpointMap ct2 = ctCheckpointMap ct1"
      unfolding ct2_def using 1(3) by (simp, (subst c(4), simp)+)
    have room: "unat ?h + unat ci < 2 ^ 64" using 1(6) True
      by (cases "3 - length ?a") (auto simp: algebra_simps)
    then have add: "unat (?h + ci) = unat ?h + unat ci" by (intro unat_add_no_wrap) simp
    have less: "?h < ?h + ci" using 1(5) by (simp add: word_less_nat_alt add)
    have st: "isStable ct s \<Longrightarrow> isStable ct2 s" for s
      using c(1,2,3) by (cases "s = ?h + ci") (auto simp: isStable_def a2 split: option.splits)
    have look: "gm_lookup (ctCheckpointMap ct) s \<noteq> None \<Longrightarrow> gm_lookup (ctCheckpointMap ct2) s \<noteq> None" for s
      using c(1,2) by (cases "s = ?h + ci") (auto simp: a2)
    have inv2: "ctInv ct2"
      using 1(2) ne st look c(1) sorted_wrt_snoc_less [OF _ ne less] spaced_snoc [OF _ ne, of ci]
      by (auto simp: ctInv_def a2 1(3) 1(4))
    have bound: "unat (last (ctActiveCheckpoints ct2)) + (3 - length (ctActiveCheckpoints ct2)) * unat ci < 2 ^ 64"
    proof -
      have "3 - length ?a = Suc (3 - length (ctActiveCheckpoints ct2))" using True by (simp add: a2)
      then show ?thesis using 1(6) by (simp add: a2 add)
    qed
    have rec: "fillActive ct = fillActive ct2"
      using True high cp 1(3,4) by (subst fillActive.simps) (simp add: ct2_def)
    from 1(1) [OF True high 1(3) cp [unfolded 1(4)] refl, folded 1(4), folded ct2_def, OF inv2 a2(2) refl 1(5) bound]
    show ?thesis using True by (auto simp: rec a2)
  qed
qed

lemma spaced_appendD: "spaced ci (xs @ ys) \<Longrightarrow> spaced ci ys"
proof (induction xs)
  case (Cons x xs)
  then show ?case by (cases "xs @ ys") auto
qed simp

lemma iterateBuffer_empty:
  "ctMsgBuffers ct i = Some mb \<Longrightarrow> mbBuffer mb = [] \<Longrightarrow> iterateBuffer psize i ct = Some ct"
  by (auto simp: iterateBuffer_def mb_iterate_def fun_upd_idem)

lemma stablePrefix_split:
  assumes "ctInv ct"
  shows "\<exists>rest. stablePrefix ct \<noteq> [] \<and>
    ctActiveCheckpoints ct = butlast (stablePrefix ct) @ last (stablePrefix ct) # rest \<and>
    drop (length (stablePrefix ct) - 1) (ctActiveCheckpoints ct) = last (stablePrefix ct) # rest \<and>
    (\<forall>x \<in> set (stablePrefix ct). isStable ct x) \<and> (rest \<noteq> [] \<longrightarrow> \<not> isStable ct (hd rest))"
proof -
  let ?p = "stablePrefix ct" and ?a = "ctActiveCheckpoints ct"
  let ?r = "dropWhile (isStable ct) ?a"
  have ne: "?p \<noteq> []" using assms by (cases ?a) (auto simp: stablePrefix_def ctInv_def)
  have a: "?a = ?p @ ?r" by (simp add: stablePrefix_def)
  then have split: "?a = butlast ?p @ last ?p # ?r" using ne by (metis append.assoc append_Cons append_Nil append_butlast_last_id)
  then have "drop (length ?p - 1) ?a = last ?p # ?r"
    by (metis append_eq_conv_conj length_butlast)
  moreover have "\<forall>x \<in> set ?p. isStable ct x" by (auto simp: stablePrefix_def dest: set_takeWhileD)
  moreover have "?r \<noteq> [] \<longrightarrow> \<not> isStable ct (hd ?r)" using hd_dropWhile by blast
  ultimately show ?thesis using ne split by blast
qed

lemma ctInv_drop:
  assumes inv: "ctInv ct" and a: "ctActiveCheckpoints ct = dropped @ s # rest" and s: "isStable ct s"
  shows "ctInv (ct\<lparr>ctCheckpointMap := filter (\<lambda>(s, _). s \<notin> set dropped) (ctCheckpointMap ct), ctActiveCheckpoints := s # rest\<rparr>)"
proof -
  have "sorted_wrt (<) (dropped @ s # rest)" using inv by (simp add: ctInv_def a)
  then have apart: "x \<notin> set dropped" if "x \<in> set (s # rest)" for x
    using that by (fastforce simp: sorted_wrt_append)
  have "\<forall>x \<in> set (s # rest). gm_lookup (ctCheckpointMap ct) x \<noteq> None" using inv by (simp add: ctInv_def a)
  then show ?thesis using inv s apart spaced_appendD [of _ dropped "s # rest"]
    by (auto simp: ctInv_def a isStable_def gm_lookup_filter sorted_wrt_append split: option.splits)
qed

section \<open>Properties\<close>

text \<open>C27. Garbage collection moves the window to the last checkpoint of the stable prefix: the checkpoints
  before it are dropped, the first one kept is stable and the next one is not (or is missing), the
  window is filled up to at least three checkpoints one interval apart, and the watermark returned is
  the new low watermark. It returns whenever no buffered message is left to apply.\<close>

theorem garbageCollect_window:
  assumes inv: "ctInv ct" and nc: "ctNetworkConfig ct = Some nc"
    and ci: "ci = (scast (ncCheckpointInterval nc) :: u64)" "0 < ci"
    and room: "unat (last (ctActiveCheckpoints ct)) + 2 * unat ci < 2 ^ 64"
  shows "\<exists>dropped s rest. ctActiveCheckpoints ct = dropped @ s # rest \<and> (\<forall>x \<in> set dropped. isStable ct x) \<and>
    isStable ct s \<and> (rest \<noteq> [] \<longrightarrow> \<not> isStable ct (hd rest)) \<and>
    (\<forall>r ct'. garbageCollect psize ct = Some (r, ct') \<longrightarrow>
       r = s \<and> ctInv ct' \<and> ctState ct' = cpsIdle \<and> 3 \<le> length (ctActiveCheckpoints ct') \<and>
       (\<exists>filled. ctActiveCheckpoints ct' = s # rest @ filled)) \<and>
    ((\<forall>i \<in> set (ncNodes nc). \<exists>mb. ctMsgBuffers ct i = Some mb \<and> mbBuffer mb = []) \<longrightarrow>
       garbageCollect psize ct \<noteq> None)"
proof -
  let ?p = "stablePrefix ct"
  obtain rest where p: "?p \<noteq> []" "ctActiveCheckpoints ct = butlast ?p @ last ?p # rest"
      "drop (length ?p - 1) (ctActiveCheckpoints ct) = last ?p # rest"
      "\<forall>x \<in> set ?p. isStable ct x" "rest \<noteq> [] \<longrightarrow> \<not> isStable ct (hd rest)"
    using stablePrefix_split [OF inv] by blast
  define ct1 where "ct1 = ct\<lparr>ctCheckpointMap := filter (\<lambda>(s, _). s \<notin> set (butlast ?p)) (ctCheckpointMap ct),
      ctActiveCheckpoints := last ?p # rest\<rparr>"
  have inv1: "ctInv ct1" unfolding ct1_def using ctInv_drop [OF inv p(2)] p(1,4) by simp
  have last: "last (ctActiveCheckpoints ct1) = last (ctActiveCheckpoints ct)" by (simp add: ct1_def p(2))
  have "(3 - length (ctActiveCheckpoints ct1)) * unat ci \<le> 2 * unat ci" by (simp add: ct1_def)
  then have "unat (last (ctActiveCheckpoints ct1)) + (3 - length (ctActiveCheckpoints ct1)) * unat ci < 2 ^ 64"
    unfolding last by (rule le_less_trans [OF add_left_mono room])
  with fillActive_window [OF inv1 _ ci] nc obtain ct2 filled where f: "fillActive ct1 = Some ct2" "ctInv ct2"
      "ctActiveCheckpoints ct2 = ctActiveCheckpoints ct1 @ filled" "3 \<le> length (ctActiveCheckpoints ct2)"
      "ctNetworkConfig ct2 = Some nc" "ctMsgBuffers ct2 = ctMsgBuffers ct1"
    by (auto simp: ct1_def)
  have gc: "garbageCollect psize ct =
      map_option (\<lambda>ct. (last ?p, ct\<lparr>ctState := cpsIdle\<rparr>)) (ofold (iterateBuffer psize) (ncNodes nc) ct2)"
    using p(1) f(1,5)
    by (simp add: garbageCollect_def p(3) [unfolded One_nat_def] Let_def ct1_def [symmetric] map_conv_bind_option comp_def)
  show ?thesis
  proof (rule exI [of _ "butlast ?p"], rule exI [of _ "last ?p"], rule exI [of _ rest], intro conjI allI impI)
    fix r ct' assume "garbageCollect psize ct = Some (r, ct')"
    then obtain ct3 where ct3: "ofold (iterateBuffer psize) (ncNodes nc) ct2 = Some ct3" "r = last ?p"
        "ct' = ct3\<lparr>ctState := cpsIdle\<rparr>" by (auto simp: gc)
    have "ctKeeps ct2 ct3" by (rule ofold_rel [OF ct3(1)]) (use iterateBuffer_keeps ctKeeps_trans in auto)
    then have k: "ctKeeps ct2 ct'" by (simp add: ct3(3))
    show "r = last ?p" "ctState ct' = cpsIdle" by (simp_all add: ct3)
    show "ctInv ct'" by (rule ctKeeps_inv [OF f(2) k])
    have "ctActiveCheckpoints ct' = ctActiveCheckpoints ct2" using k by (simp add: ctKeeps_def)
    then show "3 \<le> length (ctActiveCheckpoints ct')" "\<exists>filled. ctActiveCheckpoints ct' = last ?p # rest @ filled"
      using f(3,4) by (simp_all add: ct1_def)
  next
    assume empty: "\<forall>i \<in> set (ncNodes nc). \<exists>mb. ctMsgBuffers ct i = Some mb \<and> mbBuffer mb = []"
    have "iterateBuffer psize i ct2 = Some ct2" if "i \<in> set (ncNodes nc)" for i
      using that empty iterateBuffer_empty [of ct2 i] f(6) by (auto simp: ct1_def)
    then have "\<exists>t. ofold (iterateBuffer psize) (ncNodes nc) ct2 = Some t \<and> t = ct2" by (intro ofold_total) auto
    then show "garbageCollect psize ct \<noteq> None" by (auto simp: gc)
  qed (use p in \<open>auto dest: in_set_butlastD\<close>)
qed

text \<open>A node of the four-node network that started from the checkpoint at 0.\<close>

definition cpParams :: InitialParameters where
  [go_defs]: "cpParams = \<lparr>ipId = 0, ipBatchSize = 1, ipHeartbeatTicks = 2, ipSuspectTicks = 4, ipNewEpochTimeoutTicks = 8,
     ipBufferSize = 100\<rparr>"

definition sampleCT :: checkpointTracker where
  "sampleCT = the (ct_reinitialize (\<lambda>_. 1) sampleLog (newCheckpointTracker (newNodeBuffers cpParams) cpParams))"

definition cpMsg :: "u64 \<Rightarrow> byte list \<Rightarrow> Msg" where
  [go_defs]: "cpMsg seqNo v = Msg_Checkpoint \<lparr>cpSeqNo = seqNo, cpValue = Some v\<rparr>"

definition sampleSteps :: "(u64 \<times> Msg) list \<Rightarrow> checkpointTracker option" where
  "sampleSteps ms = ofold (\<lambda>(source, msg). ct_step (\<lambda>_. 1) source msg) ms sampleCT"

definition sampleStable :: checkpointTracker where
  "sampleStable = the (sampleSteps [(0, cpMsg 5 [1]), (1, cpMsg 5 [1]), (2, cpMsg 5 [1])])"

theorem garbageCollect_window_witness:
  "garbageCollect (\<lambda>_. 1) sampleStable \<noteq> None \<and>
   (\<exists>dropped s rest. ctActiveCheckpoints sampleStable = dropped @ s # rest \<and> isStable sampleStable s)"
proof -
  have inv: "ctInv sampleStable" by code_simp
  have nc: "ctNetworkConfig sampleStable = Some sampleNet" by code_simp
  have ci: "5 = (scast (ncCheckpointInterval sampleNet) :: u64)" by code_simp
  have "last (ctActiveCheckpoints sampleStable) = 10" by code_simp
  then have room: "unat (last (ctActiveCheckpoints sampleStable)) + 2 * unat (5 :: u64) < 2 ^ 64" by simp
  have "list_all (\<lambda>i. map_option mbBuffer (ctMsgBuffers sampleStable i) = Some []) (ncNodes sampleNet)" by code_simp
  then have "\<forall>i \<in> set (ncNodes sampleNet). \<exists>mb. ctMsgBuffers sampleStable i = Some mb \<and> mbBuffer mb = []"
    by (auto simp: list_all_iff)
  moreover have "(0 :: u64) < 5" by simp
  note garbageCollect_window [OF inv nc ci this room, of "\<lambda>_. 1"]
  ultimately show ?thesis by blast
qed

text \<open>C3. Stable checkpoints of two replicas agree: when every node is heard at most once per checkpoint and a
  correct node reports one value, a checkpoint that is stable at both has a value a quorum reported to
  each, and it is the same value at both.\<close>

theorem checkpoint_agreement:
  assumes wf: "wf_config nc" and faulty: "finite faulty" "int (card faulty) \<le> sint (ncF nc)"
    and runA: "cpRun votesA (newCheckpoint seqNo nc cfgA) = Some cwA"
    and runB: "cpRun votesB (newCheckpoint seqNo nc cfgB) = Some cwB"
    and stable: "cpwStable cwA" "cpwStable cwB"
    and heard: "distinct (map fst votesA)" "distinct (map fst votesB)"
      "set (map fst votesA) \<subseteq> set (ncNodes nc)" "set (map fst votesB) \<subseteq> set (ncNodes nc)"
    and honest: "\<forall>(source, v) \<in> set votesA \<union> set votesB. source \<notin> faulty \<longrightarrow> bstr v = app source"
  shows "\<exists>k. intersectionQuorum nc \<le> int (card (set (reportedBy k cwA))) \<and>
    (\<forall>k'. intersectionQuorum nc \<le> int (card (set (reportedBy k' cwB))) \<longleftrightarrow> k' = k)"
proof -
  have voters: "reportedBy k cw = map fst (filter (\<lambda>(_, v). bstr v = k) votes)" "distinct (reportedBy k cw)"
      "set (reportedBy k cw) \<subseteq> set (ncNodes nc)"
      "cpwStable cw \<Longrightarrow> \<exists>k. intersectionQuorum nc \<le> int (length (reportedBy k cw))"
    if "cpRun votes (newCheckpoint seqNo nc cfg) = Some cw" "distinct (map fst votes)" "set (map fst votes) \<subseteq> set (ncNodes nc)"
    for k votes cfg cw
    using cpRun_facts [OF that(1)] that(2,3)
    by (auto simp: newCheckpoint_def reportedBy_def distinct_map inj_on_def)
  note A = voters [OF runA heard(1,3)] and B = voters [OF runB heard(2,4)]
  have same: "k = k'" if "intersectionQuorum nc \<le> int (card (set (reportedBy k cwA)))"
      "intersectionQuorum nc \<le> int (card (set (reportedBy k' cwB)))" for k k'
  proof -
    note q = that
    obtain c where c: "c \<in> set (reportedBy k cwA)" "c \<in> set (reportedBy k' cwB)" "c \<notin> faulty"
      using nq.strong_common_correct [OF wf A(3) B(3) q faulty] by blast
    then obtain vA vB where v: "(c, vA) \<in> set votesA" "bstr vA = k" "(c, vB) \<in> set votesB" "bstr vB = k'"
      unfolding A(1) B(1) by auto
    then show ?thesis using bspec [OF honest, of "(c, vA)"] bspec [OF honest, of "(c, vB)"] c(3) by simp
  qed
  obtain kA kB where k: "intersectionQuorum nc \<le> int (card (set (reportedBy kA cwA)))"
      "intersectionQuorum nc \<le> int (card (set (reportedBy kB cwB)))"
    using A(4) B(4) stable distinct_card [OF A(2)] distinct_card [OF B(2)] by auto
  then show ?thesis using same [OF k(1)] by blast
qed

definition sampleVotes :: "(u64 \<times> bytes) list" where
  "sampleVotes = [(3, Some [9]), (0, Some [1]), (1, Some [1]), (2, Some [1])]"

theorem checkpoint_agreement_witness:
  "\<exists>k. 3 \<le> int (card (set (reportedBy k (the (cpRun sampleVotes (newCheckpoint 5 sampleNet cpParams))))))"
proof -
  let ?cw = "the (cpRun sampleVotes (newCheckpoint 5 sampleNet cpParams))"
  have "cpRun sampleVotes (newCheckpoint 5 sampleNet cpParams) \<noteq> None" by code_simp
  then have run: "cpRun sampleVotes (newCheckpoint 5 sampleNet cpParams) = Some ?cw" by simp
  have stable: "cpwStable ?cw" by code_simp
  have heard: "distinct (map fst sampleVotes)" "set (map fst sampleVotes) \<subseteq> set (ncNodes sampleNet)" by code_simp+
  have "\<forall>(source, v) \<in> set sampleVotes \<union> set sampleVotes. source \<notin> {3} \<longrightarrow> bstr v = [1]" by code_simp
  moreover have "finite {3 :: u64}" "int (card {3 :: u64}) \<le> sint (ncF sampleNet)" by (simp_all add: sampleNet_def)
  ultimately show ?thesis
    using checkpoint_agreement [OF sampleNet_wf _ _ run run stable stable heard(1,1,2,2)] by fastforce
qed

section \<open>Where checkpoints go wrong\<close>

text \<open>The test for a diverged state looks at the value that arrives, not at ours: a node whose own value was
  first finds a different value stable without noticing, and a node that agrees with the network panics
  when one other node reports something else.\<close>

lemma diverged_checkpoint:
  "map_option (\<lambda>cw. (cpwStable cw, cpwMyValue cw, cpwCommittedValue cw))
     (cpRun [(0, Some [8]), (1, Some [1]), (2, Some [1]), (3, Some [1])] (newCheckpoint 5 sampleNet cpParams)) =
   Some (True, Some [8], Some [1])"
  "cpRun [(0, Some [1]), (1, Some [1]), (3, Some [8])] (newCheckpoint 5 sampleNet cpParams) = None"
  by code_simp+

text \<open>A checkpoint above the window is buffered and applied at once, then applied again when the window
  moves: its sender is counted twice.\<close>

lemma checkpoint_counted_twice:
  "map_option (\<lambda>ct. map_option (reportedBy [2]) (gm_lookup (ctCheckpointMap ct) 15))
     (Option.bind (sampleSteps [(1, cpMsg 15 [2]), (0, cpMsg 5 [1]), (1, cpMsg 5 [1]), (2, cpMsg 5 [1])])
        (\<lambda>ct. map_option snd (garbageCollect (\<lambda>_. 1) ct))) = Some (Some [1, 1])"
  by code_simp

end
