(* ===== verification/Mir_StateMachine.thy ===== *)
theory Mir_StateMachine
  imports Mir_EpochTracker Mir_Checkpoints
begin

text \<open>
  \<open>pkg/statemachine/state_machine.go\<close>: the state machine of a node. \<open>applyEvent\<close> takes an event and
  returns the actions the event causes; a panic, or a loop that does not end, is \<open>None\<close>. The components
  exist after \<open>initialize\<close>: the record \<open>smParts\<close>, with those the epochs share in its \<open>targetWorld\<close>.
\<close>

section \<open>Data\<close>

datatype stateMachineState = smUninitialized | smLoadingPersisted | smInitialized

record smParts =
  spMyConfig :: InitialParameters
  spNodeBuffers :: nodeBuffers
  spCheckpointTracker :: checkpointTracker
  spEpochTracker :: epochTracker
  spWorld :: targetWorld

record StateMachine =
  smState :: stateMachineState
  smParts :: "smParts option"

type_synonym smResult = "(smParts \<times> ActionList) option"

definition newStateMachine :: StateMachine where
  [go_defs]: "newStateMachine = \<lparr>smState = smUninitialized, smParts = None\<rparr>"

abbreviation spCommitState :: "smParts \<Rightarrow> commitState" where
  "spCommitState sp \<equiv> twCommitState (spWorld sp)"

text \<open>Methods of the epoch tracker, of the disseminator and of the commit state.\<close>

definition onTracker :: "(tracker \<Rightarrow> trackerResult) \<Rightarrow> smParts \<Rightarrow> smResult" where
  [go_defs]: "onTracker f sp =
     do {
       ((et, w), out) \<leftarrow> f (spEpochTracker sp, spWorld sp);
       Some (sp\<lparr>spEpochTracker := et, spWorld := w\<rparr>, out)
     }"

definition onClients :: "(clientSide \<Rightarrow> (clientSide \<times> ActionList) option) \<Rightarrow> smParts \<Rightarrow> smResult" where
  [go_defs]: "onClients f sp =
     do {
       (cd, out) \<leftarrow> f (clientSideOf (spWorld sp));
       Some (sp\<lparr>spWorld := putClientSide cd (spWorld sp)\<rparr>, out)
     }"

definition putCommitState :: "commitState \<Rightarrow> smParts \<Rightarrow> smParts" where
  [go_defs]: "putCommitState cs sp = sp\<lparr>spWorld := (spWorld sp)\<lparr>twEpoch := (twEpoch (spWorld sp))\<lparr>ewCommitState := cs\<rparr>\<rparr>\<rparr>"

definition putPersisted :: "persisted \<Rightarrow> smParts \<Rightarrow> smParts" where
  [go_defs]: "putPersisted p sp = sp\<lparr>spWorld := (spWorld sp)\<lparr>twEpoch := (twEpoch (spWorld sp))\<lparr>ewPersisted := p\<rparr>\<rparr>\<rparr>"

definition putTracker :: "clientTracker \<Rightarrow> smParts \<Rightarrow> smParts" where
  [go_defs]: "putTracker t sp = sp\<lparr>spWorld := (spWorld sp)\<lparr>twEpoch := (twEpoch (spWorld sp))\<lparr>ewTracker := t\<rparr>\<rparr>\<rparr>"

definition putBatches :: "batchTracker \<Rightarrow> smParts \<Rightarrow> smParts" where
  [go_defs]: "putBatches bt sp = sp\<lparr>spWorld := (spWorld sp)\<lparr>twBatches := bt\<rparr>\<rparr>"

section \<open>Initialization\<close>

definition sm_initialize :: "InitialParameters \<Rightarrow> StateMachine \<Rightarrow> StateMachine option" where
  [go_defs]: "sm_initialize parameters sm =
     do {
       assert (smState sm = smUninitialized);
       let nbs = newNodeBuffers parameters;
       let w = \<lparr>twEpoch = \<lparr>ewPersisted = newPersisted, ewCommitState = newCommitState,
                           ewTracker = newClientTracker parameters,
                           ewHeap = \<lparr>hpCr = Map.empty, hpNextCr = 0, hpCrn = Map.empty, hpNextCrn = 0\<rparr>\<rparr>,
                twHash = newClientHashDisseminator nbs parameters, twBatches = newBatchTracker\<rparr>;
       Some \<lparr>smState = smLoadingPersisted,
             smParts = Some \<lparr>spMyConfig = parameters, spNodeBuffers = nbs,
                             spCheckpointTracker = newCheckpointTracker nbs parameters,
                             spEpochTracker = newEpochTracker nbs parameters, spWorld = w\<rparr>\<rparr>
     }"

definition applyPersisted :: "u64 \<Rightarrow> Persistent \<Rightarrow> StateMachine \<Rightarrow> StateMachine option" where
  [go_defs]: "applyPersisted index data sm =
     do {
       assert (smState sm = smLoadingPersisted);
       sp \<leftarrow> smParts sm;
       p \<leftarrow> appendInitialLoad index data (twPersisted (spWorld sp));
       Some (sm\<lparr>smParts := Some (putPersisted p sp)\<rparr>)
     }"

text \<open>The closure of \<open>recoverLog\<close>: the last checkpoint, the log and the actions. The log is walked as it was
  before the truncations. The assertions compare a typed nil with nil and never fail.\<close>

definition recoverIterator :: "(CEntry option \<times> persisted \<times> ActionList) logIterator" where
  [go_defs]: "recoverIterator = noCallbacks\<lparr>
     onCEntry := \<lambda>cEntry (_, p, actions). Some (Some cEntry, p, actions),
     onFEntry := \<lambda>fEntry (lastC, p, actions). do {
       c \<leftarrow> lastC;
       let (p, out) = truncateLog (ceSeqNo c) p;
       Some (lastC, p, ActionList_concat actions out)
     }\<rparr>"

definition recoverLog :: "smParts \<Rightarrow> smResult" where
  [go_defs]: "recoverLog sp =
     do {
       let p = twPersisted (spWorld sp);
       (_, p, actions) \<leftarrow> iterate recoverIterator p (None, p, []);
       Some (putPersisted p sp, actions)
     }"

definition sm_reinitialize :: "(Msg \<Rightarrow> nat) \<Rightarrow> protoEqual \<Rightarrow> smParts \<Rightarrow> smResult" where
  [go_defs]: "sm_reinitialize psize peq sp =
     do {
       (sp, a1) \<leftarrow> recoverLog sp;
       let p = twPersisted (spWorld sp);
       (cs, a2) \<leftarrow> cs_reinitialize p (spCommitState sp);
       let sp = putCommitState cs sp;
       active \<leftarrow> csActiveState cs;
       let sp = putTracker (ctk_reinitialize active (ewTracker (twEpoch (spWorld sp)))) sp;
       (sp, a3) \<leftarrow> onClients (chd_reinitialize (csLowWatermark cs) active) sp;
       ct \<leftarrow> ct_reinitialize psize p (spCheckpointTracker sp);
       bt \<leftarrow> bt_reinitialize p (twBatches (spWorld sp));
       (sp, a4) \<leftarrow> onTracker (tr_reinitialize psize peq) (putBatches bt (sp\<lparr>spCheckpointTracker := ct\<rparr>));
       Some (sp, ActionList_concat (ActionList_concat (ActionList_concat a1 a2) a3) a4)
     }"

definition completeInitialization :: "(Msg \<Rightarrow> nat) \<Rightarrow> protoEqual \<Rightarrow> StateMachine \<Rightarrow> (StateMachine \<times> ActionList) option" where
  [go_defs]: "completeInitialization psize peq sm =
     do {
       assert (smState sm = smLoadingPersisted);
       sp \<leftarrow> smParts sm;
       (sp, out) \<leftarrow> sm_reinitialize psize peq sp;
       Some (sm\<lparr>smState := smInitialized, smParts := Some sp\<rparr>, out)
     }"

section \<open>Messages and results\<close>

definition sm_step :: "(Msg \<Rightarrow> nat) \<Rightarrow> protoEqual \<Rightarrow> u64 \<Rightarrow> Msg \<Rightarrow> smParts \<Rightarrow> smResult" where
  [go_defs]: "sm_step psize peq source msg sp =
     (case msg of
        Msg_RequestAck _ \<Rightarrow> onClients (chd_step psize source msg) sp
      | Msg_FetchRequest _ \<Rightarrow> onClients (chd_step psize source msg) sp
      | Msg_ForwardRequest _ _ \<Rightarrow> onClients (chd_step psize source msg) sp
      | Msg_Checkpoint _ \<Rightarrow> do {
          ct \<leftarrow> ct_step psize source msg (spCheckpointTracker sp);
          Some (sp\<lparr>spCheckpointTracker := ct\<rparr>, [])
        }
      | Msg_FetchBatch _ _ \<Rightarrow> do { out \<leftarrow> bt_step source msg (twBatches (spWorld sp)); Some (sp, out) }
      | Msg_ForwardBatch _ _ _ \<Rightarrow> do { out \<leftarrow> bt_step source msg (twBatches (spWorld sp)); Some (sp, out) }
      | _ \<Rightarrow> onTracker (tr_step psize peq source msg) sp)"

definition processHashResult :: "(Msg \<Rightarrow> nat) \<Rightarrow> protoEqual \<Rightarrow> bytes \<Rightarrow> HashOrigin \<Rightarrow> smParts \<Rightarrow> smResult" where
  [go_defs]: "processHashResult psize peq digest origin sp =
     (case origin of
        HashOrigin_Batch _ epoch seqNo acks \<Rightarrow>
          onTracker (tr_applyBatchHashResult epoch seqNo digest)
            (putBatches (addBatch seqNo digest acks (twBatches (spWorld sp))) sp)
      | HashOrigin_EpochChange source originNode ec \<Rightarrow>
          onTracker (tr_applyEpochChangeDigest psize peq source originNode ec digest) sp
      | HashOrigin_VerifyBatch _ _ acks expected \<Rightarrow> do {
          bt \<leftarrow> applyVerifyBatchHashResult digest acks expected (twBatches (spWorld sp));
          let sp = putBatches bt sp;
          if hasFetchInFlight bt then Some (sp, [])
          else do {
            cur \<leftarrow> trCurrentEpoch (spEpochTracker sp);
            if etState cur = etFetching then onTracker (onCurrent fetchNewEpochState) sp else Some (sp, [])
          }
        })"

definition processCheckpointResult :: "(Msg \<Rightarrow> nat) \<Rightarrow> CheckpointResult \<Rightarrow> smParts \<Rightarrow> smResult" where
  [go_defs]: "processCheckpointResult psize result sp =
     (let cs = spCommitState sp in
      if crSeqNo result < csLowWatermark cs then Some (sp, [])
      else do {
        active \<leftarrow> csActiveState cs;
        assert (csLowWatermark cs + checkpointInterval (nsConfig active) = crSeqNo result);
        cur \<leftarrow> trCurrentEpoch (spEpochTracker sp);
        (cs', p, a1) \<leftarrow> cs_applyCheckpointResult (map_option aeEpochConfig (etActiveEpoch cur)) result cs
          (twPersisted (spWorld sp));
        let sp = putPersisted p (putCommitState cs' sp);
        if csStopAtSeqNo cs < csStopAtSeqNo cs'
        then do {
          t \<leftarrow> ctk_allocate (ewHeap (twEpoch (spWorld sp))) (crSeqNo result) (crNetworkState result)
            (ewTracker (twEpoch (spWorld sp)));
          (sp, a2) \<leftarrow> onClients (chd_allocate psize (crSeqNo result) (crNetworkState result)) (putTracker t sp);
          Some (sp, ActionList_concat a1 a2)
        }
        else Some (sp, a1)
      })"

section \<open>Events\<close>

text \<open>The part of \<open>applyEvent\<close> that depends on the event, for an initialized state machine.\<close>

definition handleEvent :: "(Msg \<Rightarrow> nat) \<Rightarrow> protoEqual \<Rightarrow> Event \<Rightarrow> smParts \<Rightarrow> smResult" where
  [go_defs]: "handleEvent psize peq event sp =
     (case event of
        Event_TickElapsed \<Rightarrow> do {
          (sp, a1) \<leftarrow> onClients chd_tick sp;
          (sp, a2) \<leftarrow> onTracker tr_tick sp;
          Some (sp, ActionList_concat a1 a2)
        }
      | Event_Step source msg \<Rightarrow> sm_step psize peq source msg sp
      | Event_HashResult digest origin \<Rightarrow> processHashResult psize peq digest origin sp
      | Event_CheckpointResult result \<Rightarrow> processCheckpointResult psize result sp
      | Event_RequestPersisted ack \<Rightarrow> onClients (chd_applyNewRequest ack) sp
      | Event_StateTransferComplete seqNo v ns \<Rightarrow> do {
          assert (csTransferring (spCommitState sp));
          (p, a1) \<leftarrow> addCEntry \<lparr>ceSeqNo = seqNo, ceCheckpointValue = v, ceNetworkState = ns\<rparr> (twPersisted (spWorld sp));
          (sp, a2) \<leftarrow> sm_reinitialize psize peq (putPersisted p sp);
          Some (sp, ActionList_concat a1 a2)
        }
      | _ \<Rightarrow> None)"

text \<open>The move of the low watermark. The actions of the truncation of the log are dropped.\<close>

definition moveWatermark :: "(Msg \<Rightarrow> nat) \<Rightarrow> smParts \<Rightarrow> smResult" where
  [go_defs]: "moveWatermark psize sp =
     (if ctState (spCheckpointTracker sp) \<noteq> cpsGarbageCollectable then Some (sp, [])
      else do {
        (newLow, ct) \<leftarrow> garbageCollect psize (spCheckpointTracker sp);
        let sp = putPersisted (fst (truncateLog newLow (twPersisted (spWorld sp)))) (sp\<lparr>spCheckpointTracker := ct\<rparr>);
        nc \<leftarrow> ctNetworkConfig ct;
        let ci = scast (ncCheckpointInterval nc);
        let sp = (if newLow > ci then putBatches (bt_truncate (newLow - ci) (twBatches (spWorld sp))) sp else sp);
        onTracker (tr_moveLowWatermark psize newLow) sp
      })"

text \<open>The loop that commits and advances the epoch until nothing more is to be done.\<close>

partial_function (option) advanceLoop :: "(Msg \<Rightarrow> nat) \<Rightarrow> protoEqual \<Rightarrow> smParts \<Rightarrow> smResult" where
  "advanceLoop psize peq sp =
     do {
       (cs, a1) \<leftarrow> drain (spCommitState sp);
       (sp, a2) \<leftarrow> onTracker (tr_advanceState psize peq) (putCommitState cs sp);
       if ActionList_isEmpty a2 then Some (sp, a1)
       else do {
         (sp, a3) \<leftarrow> advanceLoop psize peq sp;
         Some (sp, ActionList_concat (ActionList_concat a1 a2) a3)
       }
     }"

text \<open>Events that are applied to an initialized state machine only; a transfer event finds no transfer in
  progress in any other.\<close>

definition applyEvent :: "(Msg \<Rightarrow> nat) \<Rightarrow> protoEqual \<Rightarrow> Event \<Rightarrow> StateMachine \<Rightarrow> (StateMachine \<times> ActionList) option" where
  [go_defs]: "applyEvent psize peq event sm =
     (case event of
        Event_Initialize parameters \<Rightarrow> map_option (\<lambda>sm. (sm, [])) (sm_initialize parameters sm)
      | Event_LoadPersistedEntry index entry \<Rightarrow> map_option (\<lambda>sm. (sm, [])) (applyPersisted index entry sm)
      | Event_CompleteInitialization \<Rightarrow> completeInitialization psize peq sm
      | Event_ActionsReceived \<Rightarrow> Some (sm, [])
      | _ \<Rightarrow> do {
          assert (smState sm = smInitialized);
          sp \<leftarrow> smParts sm;
          (sp, a1) \<leftarrow> handleEvent psize peq event sp;
          (sp, a2) \<leftarrow> moveWatermark psize sp;
          (sp, a3) \<leftarrow> advanceLoop psize peq sp;
          Some (sm\<lparr>smParts := Some sp\<rparr>, ActionList_concat (ActionList_concat a1 a2) a3)
        })"

end
