(* ===== verification/Mir_EpochOutput.thy ===== *)
theory Mir_EpochOutput
  imports Mir_StateMachine
begin

text \<open>
  What the active epoch does to the rest of the node, over all of its operations: the messages it asks
  to send, each with the log entry it needs, and the changes of the commit state, which are calls of
  \<open>commit\<close>.
\<close>

section \<open>Actions backed by the log\<close>

text \<open>The entry a vote has to be logged with: a preprepare and a prepare with the Q entry of the batch, a
  commit with the P entry, an echo of a new epoch with the N entry that starts it, a checkpoint with the
  C entry, a suspicion with its own entry.\<close>

fun backed :: "Persistent set \<Rightarrow> Msg \<Rightarrow> bool" where
  "backed es (Msg_Preprepare seqNo _ batch) \<longleftrightarrow>
     (\<exists>d. Persistent_QEntry \<lparr>qeSeqNo = seqNo, qeDigest = d, qeRequests = batch\<rparr> \<in> es)"
| "backed es (Msg_Prepare seqNo _ digest) \<longleftrightarrow>
     (\<exists>rs. Persistent_QEntry \<lparr>qeSeqNo = seqNo, qeDigest = digest, qeRequests = rs\<rparr> \<in> es)"
| "backed es (Msg_Commit seqNo _ digest) \<longleftrightarrow> Persistent_PEntry \<lparr>peSeqNo = seqNo, peDigest = digest\<rparr> \<in> es"
| "backed es (Msg_NewEpochEcho cfg) \<longleftrightarrow>
     Persistent_NEntry \<lparr>neSeqNo = cpSeqNo (necStartingCheckpoint cfg) + 1, neEpochConfig = necConfig cfg\<rparr> \<in> es"
| "backed es (Msg_Checkpoint cp) \<longleftrightarrow>
     (\<exists>ns. Persistent_CEntry \<lparr>ceSeqNo = cpSeqNo cp, ceCheckpointValue = cpValue cp, ceNetworkState = ns\<rparr> \<in> es)"
| "backed es (Msg_Suspect epoch) \<longleftrightarrow> Persistent_Suspect epoch \<in> es"
| "backed es _ \<longleftrightarrow> True"

definition entriesOf :: "ActionList \<Rightarrow> Persistent set" where
  "entriesOf out = snd ` set (writes_of out)"

definition writeAhead :: "ActionList \<Rightarrow> bool" where
  "writeAhead out \<longleftrightarrow> (\<forall>(targets, m) \<in> set (sends_of out). backed (entriesOf out) m)"

lemma backed_mono: "backed es m \<Longrightarrow> es \<subseteq> es' \<Longrightarrow> backed es' m"
  by (cases m) auto

lemma entriesOf_simps [simp]:
  "entriesOf [] = {}" "entriesOf (xs @ ys) = entriesOf xs \<union> entriesOf ys"
  by (auto simp: entriesOf_def)

lemma writeAhead_Nil [simp]: "writeAhead []"
  by (simp add: writeAhead_def)

lemma writeAhead_append: "writeAhead xs \<Longrightarrow> writeAhead ys \<Longrightarrow> writeAhead (xs @ ys)"
  by (auto simp: writeAhead_def ball_Un elim: backed_mono)

text \<open>The actions of an active epoch.\<close>

fun epochAct :: "Action \<Rightarrow> bool" where
  "epochAct (Action_Send _ (Msg_Preprepare _ _ _)) \<longleftrightarrow> True"
| "epochAct (Action_Send _ (Msg_Prepare _ _ _)) \<longleftrightarrow> True"
| "epochAct (Action_Send _ (Msg_Commit _ _ _)) \<longleftrightarrow> True"
| "epochAct (Action_Send _ (Msg_Suspect _)) \<longleftrightarrow> True"
| "epochAct (Action_Send _ _) \<longleftrightarrow> False"
| "epochAct (Action_Hash _ _) \<longleftrightarrow> True"
| "epochAct (Action_AppendWriteAhead _ _) \<longleftrightarrow> True"
| "epochAct (Action_ForwardRequest _ _) \<longleftrightarrow> True"
| "epochAct _ \<longleftrightarrow> False"

definition epochOut :: "ActionList \<Rightarrow> bool" where
  "epochOut out \<longleftrightarrow> writeAhead out \<and> list_all epochAct out"

lemma epochOut_Nil [simp]: "epochOut []"
  by (simp add: epochOut_def)

lemma epochOut_append: "epochOut xs \<Longrightarrow> epochOut ys \<Longrightarrow> epochOut (xs @ ys)"
  by (simp add: epochOut_def writeAhead_append)

section \<open>Sequences\<close>

lemma forwardMissing_out:
  "forwardMissing h nc rs acts = Some acts' \<Longrightarrow>
   \<exists>fs. acts' = acts @ fs \<and> sends_of fs = [] \<and> list_all epochAct fs"
proof (induction rs arbitrary: acts)
  case Nil
  then show ?case by simp
next
  case (Cons r rs)
  then show ?case by (fastforce split: option.splits)
qed

lemma writeAhead_send:
  assumes "sends_of fs = []" "backed {e} m"
  shows "writeAhead (Action_AppendWriteAhead i e # fs @ [Action_Send t m])"
  using assms by (auto simp: writeAhead_def entriesOf_def elim: backed_mono)

lemma prepare_out:
  assumes "prepare h s p = Some (s', p', out)"
  shows "epochOut out"
proof -
  define e where "e = Persistent_QEntry \<lparr>qeSeqNo = sqSeqNo s, qeDigest = sqDigest s, qeRequests = sqBatch s\<rparr>"
  obtain fs i m where fs: "sends_of fs = []" "list_all epochAct fs"
    and m: "m = Msg_Preprepare (sqSeqNo s) (sqEpoch s) (sqBatch s) \<or> m = Msg_Prepare (sqSeqNo s) (sqEpoch s) (sqDigest s)"
    and out: "out = Action_AppendWriteAhead i e # fs @ [Action_Send (ncNodes (sqNetworkConfig s)) m]"
  proof (cases "sqOwner s = ipId (sqMyConfig s)")
    case True
    with assms obtain acts where acts: "forwardMissing h (sqNetworkConfig s) (sqClientRequests s)
        [Action_AppendWriteAhead (pNextIndex p) e] = Some acts"
      "out = acts @ [Action_Send (ncNodes (sqNetworkConfig s)) (Msg_Preprepare (sqSeqNo s) (sqEpoch s) (sqBatch s))]"
      by (auto simp: prepare_def Let_def bind_eq_Some_conv addQEntry_def appendLogEntry_Some ActionList_Send_def e_def)
    with forwardMissing_out [OF acts(1)] that show ?thesis by force
  next
    case False
    with assms show ?thesis
      by (intro that [of "[]" "Msg_Prepare (sqSeqNo s) (sqEpoch s) (sqDigest s)" "pNextIndex p"])
        (auto simp: prepare_def Let_def bind_eq_Some_conv addQEntry_def appendLogEntry_Some ActionList_Send_def e_def)
  qed
  moreover from m have "backed {e} m" by (auto simp: e_def)
  ultimately show ?thesis using writeAhead_send [OF fs(1)] by (auto simp: epochOut_def)
qed

lemma checkPrepareQuorum_out:
  assumes "checkPrepareQuorum s p = Some (s', p', out)"
  shows "epochOut out"
proof (cases "out = []")
  case False
  obtain c s1 where c: "nodeChoice (ipId (sqMyConfig s)) s = (c, s1)" by force
  have s1: "sqSeqNo s1 = sqSeqNo s" "sqDigest s1 = sqDigest s" "sqEpoch s1 = sqEpoch s"
    using nodeChoice_frame [OF c] by simp_all
  from False assms obtain i t where "out = [Action_AppendWriteAhead i
      (Persistent_PEntry \<lparr>peSeqNo = sqSeqNo s, peDigest = sqDigest s\<rparr>),
      Action_Send t (Msg_Commit (sqSeqNo s) (sqEpoch s) (sqDigest s))]"
    by (auto simp: checkPrepareQuorum_def Let_def c s1 bind_eq_Some_conv addPEntry_def appendLogEntry_Some
        ActionList_Send_def split: if_splits)
  with writeAhead_send [of "[]"] show ?thesis by (simp add: epochOut_def)
qed simp

lemma advanceOnce_out: "advanceOnce h s p = Some (s', p', out) \<Longrightarrow> epochOut out"
  by (auto simp: advanceOnce_def split: sequenceState.splits if_splits intro: prepare_out checkPrepareQuorum_out)

lemma advanceState_out: "advanceState h s p = Some (s', p', out) \<Longrightarrow> epochOut out"
  using advanceState_rule [of h s p s' p' out "\<lambda>_ _ pre. epochOut pre" "[]"]
  by (simp add: epochOut_append advanceOnce_out)

lemma applyPrepareMsg_out: "applyPrepareMsg h i d s p = Some (s', p', out) \<Longrightarrow> epochOut out"
  by (auto simp: applyPrepareMsg_eq split: if_splits dest: advanceState_out)

lemma applyCommitMsg_out: "applyCommitMsg h i d s p = Some (s', p', out) \<Longrightarrow> epochOut out"
  by (auto simp: applyCommitMsg_eq split: if_splits dest: advanceState_out)

lemma applyBatchHashResult_out: "applyBatchHashResult h d s p = Some (s', p', out) \<Longrightarrow> epochOut out"
  by (auto simp: applyBatchHashResult_def dest: applyPrepareMsg_out)

lemma epochOut_hash: "epochOut out \<Longrightarrow> epochOut (Action_Hash d o1 # out)"
  by (simp add: epochOut_def writeAhead_def entriesOf_def)

lemma allocate_out: "allocate h acks outst s p = Some (s', p', out) \<Longrightarrow> epochOut out"
  by (auto simp: allocate_def bind_eq_Some_conv Let_def ActionList_Hash_def ActionList_concat_def split: if_splits
      dest: advanceState_out applyBatchHashResult_out intro!: epochOut_hash)

lemma satisfyOutstanding_out: "satisfyOutstanding h ack s p = Some (s', p', out) \<Longrightarrow> epochOut out"
  by (auto simp: satisfyOutstanding_def bind_eq_Some_conv dest: advanceState_out)

lemma allocateAsOwner_out: "allocateAsOwner h rs s p = Some (s', p', out) \<Longrightarrow> epochOut out"
  by (auto simp: allocateAsOwner_def bind_eq_Some_conv dest: allocate_out)

lemmas seq_out = applyPrepareMsg_out applyCommitMsg_out applyBatchHashResult_out allocate_out
  satisfyOutstanding_out allocateAsOwner_out

section \<open>Effects\<close>

text \<open>What a step may do to the commit state short of a checkpoint result: commit entries, begin a state transfer.\<close>

definition csMove :: "commitState \<Rightarrow> commitState \<Rightarrow> bool" where
  "csMove = (\<lambda>cs cs'. (\<exists>q. commit q cs = Some cs') \<or> cs' = cs\<lparr>csTransferring := True\<rparr>)\<^sup>*\<^sup>*"

definition does :: "(Action \<Rightarrow> bool) \<Rightarrow> commitState \<Rightarrow> ActionList \<Rightarrow> commitState \<Rightarrow> bool" where
  "does ok cs out cs' \<longleftrightarrow> csMove cs cs' \<and> writeAhead out \<and> list_all ok out"

definition grows :: "(Action \<Rightarrow> bool) \<Rightarrow> commitState \<times> ActionList \<Rightarrow> commitState \<times> ActionList \<Rightarrow> bool" where
  "grows ok s s' \<longleftrightarrow> (\<exists>out. snd s' = snd s @ out \<and> does ok (fst s) out (fst s'))"

lemma csMove_refl [simp]: "csMove cs cs"
  by (simp add: csMove_def)

lemma does_refl [simp]: "does ok cs [] cs"
  by (simp add: does_def csMove_def)

lemma does_trans: "does ok a x b \<Longrightarrow> does ok b y c \<Longrightarrow> does ok a (x @ y) c"
  unfolding does_def csMove_def by (auto intro: writeAhead_append)

lemma does_mono: "does ok a x b \<Longrightarrow> (\<And>act. ok act \<Longrightarrow> ok' act) \<Longrightarrow> does ok' a x b"
  unfolding does_def by (auto simp: list_all_iff)

lemma does_commit: "commit q a = Some b \<Longrightarrow> does ok a [] b"
  unfolding does_def csMove_def by auto

lemma does_drop: "does ok a x b \<Longrightarrow> does ok a [] b"
  by (simp add: does_def)

lemma does_out [simp]: "does epochAct cs out cs \<longleftrightarrow> epochOut out"
  by (simp add: does_def epochOut_def)

lemma grows_refl [simp]: "grows ok s s"
  by (simp add: grows_def)

lemma grows_trans: "grows ok a b \<Longrightarrow> grows ok b c \<Longrightarrow> grows ok a c"
  by (auto simp: grows_def intro: does_trans)

lemma grows_append: "grows ok (cs, xs) (cs', xs @ ys) \<longleftrightarrow> does ok cs ys cs'"
  by (auto simp: grows_def)

lemma grows_from_Nil: "grows ok (cs, []) (cs', out) \<longleftrightarrow> does ok cs out cs'"
  by (simp add: grows_def)

section \<open>The active epoch\<close>

abbreviation aeCs :: "aeState \<Rightarrow> commitState" where
  "aeCs ew \<equiv> ewCommitState (snd ew)"

lemma onSequence_does:
  assumes "onSequence f seq ew = Some (ew', out)"
    and "\<And>h s p s' p' out. f h s p = Some (s', p', out) \<Longrightarrow> epochOut out"
  shows "does epochAct (aeCs ew) out (aeCs ew')"
  using assms(1) by (auto simp: onSequence_def bind_eq_Some_conv split: prod.splits dest: assms(2))

lemma applyAcks_out:
  assumes "applyAcks h b sn batch ao sw = Some (Inr (ao', sw', out))"
  shows "epochOut out"
proof -
  from assms obtain bo r where "aoBuckets ao b = Some bo" "applyAckLoop b sn batch bo ao [] = Some r"
    by (auto simp: applyAcks_def bind_eq_Some_conv)
  with assms show ?thesis
    by (cases r) (auto simp: applyAcks_def bind_eq_Some_conv dest: allocate_out)
qed

lemma advanceRequest_out: "advanceRequest h ack ao w = Some (ao', w', out) \<Longrightarrow> epochOut out"
  by (auto simp: advanceRequest_def Let_def bind_eq_Some_conv split: option.splits dest: satisfyOutstanding_out)

lemma advanceRequests_out: "advanceRequests h ao w = Some (ao', w', out) \<Longrightarrow> epochOut out"
proof (induction h ao w arbitrary: ao' w' out rule: advanceRequests.induct)
  case (1 h ao w)
  show ?case
  proof (cases "al_hasNext (swAvailable w)")
    case True
    with 1(2) obtain ack al ao1 w1 o1 o2 where
      step: "al_next (swAvailable w) = Some (ack, al)" "advanceRequest h ack ao (w\<lparr>swAvailable := al\<rparr>) = Some (ao1, w1, o1)"
      and rest: "advanceRequests h ao1 w1 = Some (ao', w', o2)" and out: "out = o1 @ o2"
      by (subst (asm) advanceRequests.simps) (auto simp: ActionList_concat_def split: option.splits)
    have "epochOut o2" by (rule 1(1) [OF _ step(1) _ step(2) _ _ rest]) (simp_all add: True)
    with advanceRequest_out [OF step(2)] out show ?thesis by (simp add: epochOut_append)
  next
    case False
    with 1(2) show ?thesis by (subst (asm) advanceRequests.simps) simp
  qed
qed

lemma putSeqWorld_cs [simp]: "aeCs (putSeqWorld ao sw ew) = aeCs ew"
  by (simp add: putSeqWorld_def split: prod.splits)

lemma case_Inr_Some: "(case r of Inl _ \<Rightarrow> None | Inr x \<Rightarrow> f x) = Some y \<longleftrightarrow> (\<exists>x. r = Inr x \<and> f x = Some y)"
  by (cases r) auto

lemma ae_applyPreprepareMsg_does:
  assumes "ae_applyPreprepareMsg i sn b ew = Some (ew', out)"
  shows "does epochAct (aeCs ew) out (aeCs ew')"
proof -
  obtain e w where ew: "ew = (e, w)" by force
  from assms obtain seq where seq: "ae_sequence sn e = Some seq"
    by (auto simp: ae_applyPreprepareMsg_def ew bind_eq_Some_conv)
  show ?thesis
  proof (cases "sqOwner seq = ipId (aeMyConfig e)")
    case True
    with assms seq have "onSequence (\<lambda>h s. applyPrepareMsg h i (sqDigest s) s) seq (e, w) = Some (ew', out)"
      by (simp add: ae_applyPreprepareMsg_def ew)
    then show ?thesis unfolding ew by (rule onSequence_does) (rule applyPrepareMsg_out)
  next
    case False
    with assms seq show ?thesis
      by (auto simp: ae_applyPreprepareMsg_def ew bind_eq_Some_conv Let_def case_Inr_Some dest: applyAcks_out)
  qed
qed

lemma ae_applyPrepareMsg_does:
  "ae_applyPrepareMsg i sn d ew = Some (ew', out) \<Longrightarrow> does epochAct (aeCs ew) out (aeCs ew')"
  by (auto simp: ae_applyPrepareMsg_def bind_eq_Some_conv elim!: onSequence_does dest: applyPrepareMsg_out)

lemma commitLoop_does: "commitLoop ew = Some ew' \<Longrightarrow> does ok (aeCs ew) [] (aeCs ew')"
proof (induction ew ew' rule: commitLoop.raw_induct [rotated, consumes 1])
  case (1 f ew ew')
  from 1(2) consider "ew' = ew" | q cs e where "commit q (aeCs ew) = Some cs" "f (e, (snd ew)\<lparr>ewCommitState := cs\<rparr>) = Some ew'"
    by (auto simp: bind_eq_Some_conv split: if_splits)
  then show ?case
  proof cases
    case (2 q cs e)
    have "does ok cs [] (aeCs ew')" using 1(1) [OF 2(2)] by simp
    from does_trans [OF does_commit [OF 2(1)] this] show ?thesis by simp
  qed simp
qed

lemma ae_applyCommitMsg_does:
  assumes "ae_applyCommitMsg i sn d ew = Some (ew', out)"
  shows "does epochAct (aeCs ew) out (aeCs ew')"
proof -
  from assms obtain seq ew1 o1 where on: "onSequence (\<lambda>h. applyCommitMsg h i d) seq ew = Some (ew1, o1)"
    and out: "out = []" and rest: "ew' = ew1 \<or> commitLoop ew1 = Some ew'"
    by (auto simp: ae_applyCommitMsg_def bind_eq_Some_conv split: if_splits)
  have "does epochAct (aeCs ew) [] (aeCs ew1)"
    by (rule does_drop, rule onSequence_does [OF on], rule applyCommitMsg_out)
  with rest out show ?thesis
    by (auto dest!: commitLoop_does [where ok = epochAct] intro: does_trans [of _ _ "[]" _ "[]", simplified])
qed

lemma preprepareLoop_does:
  "preprepareLoop psize i b m ew = Some r \<Longrightarrow> does epochAct (aeCs ew) (snd r) (aeCs (fst r))"
proof (induction psize i b m ew r rule: preprepareLoop.raw_induct [rotated, consumes 1])
  case (1 f psize i b m ew r)
  from 1(2) obtain sn batch e1 w1 o1 e2 upcoming where
    first: "ae_applyPreprepareMsg i sn batch ew = Some ((e1, w1), o1)"
    and rest: "(case upcoming of None \<Rightarrow> Some ((e2, w1), o1)
      | Some msg \<Rightarrow> do { (ew, out') \<leftarrow> f psize i b msg (e2, w1); Some (ew, o1 @ out') }) = Some r"
    by (cases m) (auto simp: bind_eq_Some_conv Let_def ActionList_concat_def cong: option.case_cong intro: that)
  note d = ae_applyPreprepareMsg_does [OF first]
  show ?case
  proof (cases upcoming)
    case (Some msg)
    with rest obtain r' where r': "f psize i b msg (e2, w1) = Some r'" "r = (fst r', o1 @ snd r')"
      by (auto simp: bind_eq_Some_conv)
    have "does epochAct (aeCs (e1, w1)) (snd r') (aeCs (fst r'))" using 1(1) [OF r'(1)] by simp
    with does_trans [OF d this] r'(2) show ?thesis by simp
  qed (use rest d in auto)
qed

lemma ae_apply_does: "ae_apply psize i m ew = Some (ew', out) \<Longrightarrow> does epochAct (aeCs ew) out (aeCs ew')"
  by (auto simp: ae_apply_def bind_eq_Some_conv split: Msg.splits
      dest!: preprepareLoop_does dest: ae_applyPrepareMsg_does ae_applyCommitMsg_does)

lemma ae_step_does:
  assumes "ae_step psize i m ew = Some (ew', out)"
  shows "does epochAct (aeCs ew) out (aeCs ew')"
proof -
  from assms obtain a where "ae_filter ew i m = Some a" by (auto simp: ae_step_def bind_eq_Some_conv)
  with assms show ?thesis by (cases a) (auto simp: ae_step_def bind_eq_Some_conv dest: ae_apply_does)
qed

lemma drainBucket_grows:
  assumes "drainBucket psize i (ew, acts) = Some (ew', acts')"
  shows "grows epochAct (aeCs ew, acts) (aeCs ew', acts')"
proof -
  obtain e w where ew: "ew = (e, w)" by force
  from assms obtain e1 upcoming source where
    "(case upcoming of None \<Rightarrow> Some ((e1, w), acts)
      | Some msg \<Rightarrow> do { (ew, out) \<leftarrow> ae_apply psize source msg (e1, w); Some (ew, acts @ out) }) = Some (ew', acts')"
    by (auto simp: drainBucket_def ew bind_eq_Some_conv Let_def ActionList_concat_def cong: option.case_cong intro: that)
  then show ?thesis by (auto simp: ew bind_eq_Some_conv grows_append split: option.splits dest: ae_apply_does)
qed

lemma drainOther_grows:
  assumes "drainOther psize i (ew, acts) = Some (ew', acts')"
  shows "grows epochAct (aeCs ew, acts) (aeCs ew', acts')"
proof -
  from assms obtain b b' ew1 where it: "mb_iterate psize (\<lambda>(ew, _). ae_filter ew)
         (\<lambda>source msg (ew, actions). do { (ew, out) \<leftarrow> ae_apply psize source msg ew; Some (ew, ActionList_concat actions out) })
         b (ew, acts) = Some (b', (ew1, acts'))" and cs: "aeCs ew' = aeCs ew1"
    by (auto simp: drainOther_def bind_eq_Some_conv)
  have "grows epochAct (apfst aeCs (ew, acts)) (apfst aeCs (ew1, acts'))"
    by (rule iterateLoop_rel [OF it [unfolded mb_iterate_def], where R = "\<lambda>s t. grows epochAct (apfst aeCs s) (apfst aeCs t)"])
      (auto simp: bind_eq_Some_conv ActionList_concat_def grows_append dest!: ae_apply_does intro: grows_trans)
  with cs show ?thesis by simp
qed

lemma drainBuffers_does:
  assumes "drainBuffers psize ew = Some (ew', out)"
  shows "does epochAct (aeCs ew) out (aeCs ew')"
proof -
  let ?R = "\<lambda>s t. grows epochAct (apfst aeCs s) (apfst aeCs t)"
  from assms obtain s xs ys where s: "ofold (drainBucket psize) xs (ew, []) = Some s" "ofold (drainOther psize) ys s = Some (ew', out)"
    by (auto simp: drainBuffers_def bind_eq_Some_conv)
  have "?R (ew, []) s"
    by (rule ofold_rel [OF s(1)]) (auto intro: grows_trans dest!: drainBucket_grows)
  moreover have "?R s (ew', out)"
    by (rule ofold_rel [OF s(2)]) (auto intro: grows_trans dest!: drainOther_grows)
  ultimately show ?thesis using grows_trans by (fastforce simp: grows_from_Nil)
qed

lemma epochOut_write: "appendLogEntry e p = Some (p', out) \<Longrightarrow> epochOut out"
  by (auto simp: appendLogEntry_Some epochOut_def writeAhead_def)

lemma extendLoop_does: "extendLoop ew = Some r \<Longrightarrow> does epochAct (aeCs ew) (snd r) (aeCs (fst r))"
proof (induction ew r rule: extendLoop.raw_induct [rotated, consumes 1])
  case (1 f ew r)
  from 1(2) consider "r = (ew, [])"
    | ne p o1 e r' where "addNEntry ne (ewPersisted (snd ew)) = Some (p, o1)"
      "f (e, (snd ew)\<lparr>ewPersisted := p\<rparr>) = Some r'" "r = (fst r', o1 @ snd r')"
    by (auto simp: bind_eq_Some_conv Let_def ActionList_concat_def split: if_splits)
  then show ?case
  proof cases
    case (2 ne p o1 e r')
    have "does epochAct (aeCs ew) o1 (aeCs ew)" using 2(1) by (simp add: addNEntry_def epochOut_write)
    moreover have "does epochAct (aeCs ew) (snd r') (aeCs (fst r'))" using 1(1) [OF 2(2)] by simp
    ultimately have "does epochAct (aeCs ew) (o1 @ snd r') (aeCs (fst r'))" by (rule does_trans)
    with 2(3) show ?thesis by simp
  qed simp
qed

lemma propose_does:
  "onSequence (\<lambda>h. allocateAsOwner h crs) seq ew = Some (ew', out) \<Longrightarrow> does epochAct (aeCs ew) out (aeCs ew')"
  using onSequence_does allocateAsOwner_out by metis

lemma proposeBucket_does: "proposeBucket b ew = Some r \<Longrightarrow> does epochAct (aeCs ew) (snd r) (aeCs (fst r))"
proof (induction b ew r rule: proposeBucket.raw_induct [rotated, consumes 1])
  case (1 f b ew r)
  from 1(2) consider "r = (ew, [])" | e where "r = ((e, snd ew), [])"
    | e crs seq ew1 o1 e2 r' where "onSequence (\<lambda>h. allocateAsOwner h crs) seq (e, snd ew) = Some (ew1, o1)"
      "f b (e2, snd ew1) = Some r'" "r = (fst r', o1 @ snd r')"
    by (auto simp: bind_eq_Some_conv Let_def ActionList_concat_def case_prod_beta split: if_splits)
  then show ?case
  proof cases
    case (3 e crs seq ew1 o1 e2 r')
    have "does epochAct (aeCs ew) o1 (aeCs ew1)"
      using propose_does [OF 3(1)] by simp
    moreover have "does epochAct (aeCs ew1) (snd r') (aeCs (fst r'))" using 1(1) [OF 3(2)] by simp
    ultimately have "does epochAct (aeCs ew) (o1 @ snd r') (aeCs (fst r'))" by (rule does_trans)
    with 3(3) show ?thesis by simp
  qed simp_all
qed

lemma ae_advance_does:
  assumes "ae_advance psize ew = Some (ew', out)"
  shows "does epochAct (aeCs ew) out (aeCs ew')"
proof -
  let ?f = "\<lambda>i (ew, actions). if bucketOwner (of_nat i) (fst ew) \<noteq> ipId (aeMyConfig (fst ew)) then Some (ew, actions)
      else do { (ew, out) \<leftarrow> proposeBucket (of_nat i) ew; Some (ew, ActionList_concat actions out) }"
  from assms obtain ew1 a1 e2 w2 a2 e3 ct a3 xs where
    steps: "extendLoop ew = Some (ew1, a1)" "drainBuffers psize ew1 = Some ((e2, w2), a2)"
      "ofold ?f xs ((e3, w2\<lparr>ewTracker := ct\<rparr>), []) = Some (ew', a3)" and out: "out = (a1 @ a2) @ a3"
    by (auto simp: ae_advance_def bind_eq_Some_conv Let_def ActionList_concat_def)
  have "grows epochAct (apfst aeCs ((e3, w2\<lparr>ewTracker := ct\<rparr>), [])) (apfst aeCs (ew', a3))"
    by (rule ofold_rel [OF steps(3)])
      (auto simp: bind_eq_Some_conv ActionList_concat_def grows_append split: if_splits dest!: proposeBucket_does
        intro: grows_trans)
  then have "does epochAct (ewCommitState w2) a3 (aeCs ew')" by (simp add: grows_from_Nil)
  with does_trans [OF does_trans [OF extendLoop_does [OF steps(1)]]] drainBuffers_does [OF steps(2)] out
  show ?thesis by fastforce
qed

lemma ae_moveLowWatermark_does:
  "ae_moveLowWatermark psize sn ew = Some (ew', out, fin) \<Longrightarrow> does epochAct (aeCs ew) out (aeCs ew')"
  by (auto simp: ae_moveLowWatermark_def bind_eq_Some_conv split: if_splits dest!: ae_advance_does)

lemma ae_applyBatchHashResult_does:
  "ae_applyBatchHashResult sn d ew = Some (ew', out) \<Longrightarrow> does epochAct (aeCs ew) out (aeCs ew')"
  by (auto simp: ae_applyBatchHashResult_def bind_eq_Some_conv split: if_splits elim!: onSequence_does
      dest: applyBatchHashResult_out)

lemma heartbeat_grows:
  "heartbeat i (ew, acts) = Some (ew', acts') \<Longrightarrow> grows epochAct (aeCs ew, acts) (aeCs ew', acts')"
  by (auto simp: heartbeat_def bind_eq_Some_conv Let_def ActionList_concat_def case_prod_beta grows_append
      split: if_splits dest!: propose_does)

lemma epochOut_suspect:
  "addSuspect n p = Some (p', out) \<Longrightarrow> epochOut (Action_Send t (Msg_Suspect n) # out)"
  by (auto simp: addSuspect_def appendLogEntry_Some epochOut_def writeAhead_def entriesOf_def)

lemma ae_tick_does:
  assumes "ae_tick ew = Some (ew', out)"
  shows "does epochAct (aeCs ew) out (aeCs ew')"
proof -
  obtain e w where ew: "ew = (e, w)" by force
  let ?e = "e\<lparr>aeTicksSinceProgress := aeTicksSinceProgress e + 1\<rparr>"
  show ?thesis
  proof (cases "aeLastCommittedAtTick e < csHighestCommit (ewCommitState w)")
    case False
    obtain w1 a1 where w1: "ewCommitState w1 = ewCommitState w" and a1: "epochOut a1"
      and rest: "(ew', out) = ((?e, w1), a1) \<or>
        ofold heartbeat [0..<length (aeLowestUnallocated ?e)] ((?e, w1), a1) = Some (ew', out)"
    proof (cases "ipSuspectTicks (aeMyConfig e) < aeTicksSinceProgress e + 1")
      case True
      let ?m = "Action_Send (ncNodes (aeNetworkConfig e)) (Msg_Suspect (epNumber (aeEpochConfig e)))"
      from True False assms obtain p o1 where
        "addSuspect (epNumber (aeEpochConfig e)) (ewPersisted w) = Some (p, o1)"
        by (cases "addSuspect (epNumber (aeEpochConfig e)) (ewPersisted w)") (auto simp: ae_tick_def ew Let_def)
      with True False assms show ?thesis
        by (intro that [of "w\<lparr>ewPersisted := p\<rparr>" "?m # o1"])
          (auto simp: ae_tick_def ew Let_def ActionList_concat_def ActionList_Send_def split: if_splits
            intro: epochOut_suspect)
    next
      case no: False
      with False assms show ?thesis
        by (intro that [of w "[]"]) (auto simp: ae_tick_def ew Let_def split: if_splits)
    qed
    from rest have "grows epochAct (apfst aeCs ((?e, w1), a1)) (apfst aeCs (ew', out))"
    proof
      assume "ofold heartbeat [0..<length (aeLowestUnallocated ?e)] ((?e, w1), a1) = Some (ew', out)"
      then show ?thesis by (rule ofold_rel) (auto dest!: heartbeat_grows intro: grows_trans)
    qed simp
    then have "grows epochAct (ewCommitState w, a1) (aeCs ew', out)" by (simp add: w1)
    moreover have "grows epochAct (ewCommitState w, []) (ewCommitState w, a1)" by (simp add: grows_from_Nil a1)
    ultimately show ?thesis using grows_trans by (fastforce simp: ew grows_from_Nil)
  qed (use assms in \<open>auto simp: ae_tick_def ew\<close>)
qed

lemma newActiveEpoch_cs: "newActiveEpoch ec nbs ip w = Some (e, w') \<Longrightarrow> ewCommitState w' = ewCommitState w"
  by (auto simp: newActiveEpoch_def bind_eq_Some_conv Let_def)

end
