(* ===== verification/Mir_NodeOutput.thy ===== *)
theory Mir_NodeOutput
  imports Mir_EpochOutput
begin

text \<open>
  What the operations of the other components do to the rest of the node, up to the events of the state
  machine: every vote comes with its log entry, and entries are handed to the application
  by the commit state alone.
\<close>

section \<open>Clients\<close>

fun clientAct :: "Action \<Rightarrow> bool" where
  "clientAct (Action_Send _ (Msg_RequestAck _)) \<longleftrightarrow> True"
| "clientAct (Action_Send _ (Msg_FetchRequest _)) \<longleftrightarrow> True"
| "clientAct (Action_Send _ _) \<longleftrightarrow> False"
| "clientAct (Action_AllocatedRequest _ _) \<longleftrightarrow> True"
| "clientAct (Action_CorrectRequest _) \<longleftrightarrow> True"
| "clientAct (Action_ForwardRequest _ _) \<longleftrightarrow> True"
| "clientAct _ \<longleftrightarrow> False"

abbreviation clientOut :: "ActionList \<Rightarrow> bool" where
  "clientOut out \<equiv> list_all clientAct out"

lemma set_sends_of: "(t, m) \<in> set (sends_of out) \<longleftrightarrow> Action_Send t m \<in> set out"
  by (induction out) (auto split: Action.splits)

lemma clientOut_writeAhead: "clientOut out \<Longrightarrow> writeAhead out"
  unfolding writeAhead_def
proof safe
  fix t m
  assume "clientOut out" "(t, m) \<in> set (sends_of out)"
  then have "clientAct (Action_Send t m)" by (auto simp: list_all_iff set_sends_of)
  then show "backed (entriesOf out) m" by (cases m) simp_all
qed

text \<open>A property of the result of an operation that may panic, through its binds.\<close>

lemma pred_bind: "pred_option P (Option.bind m f) \<longleftrightarrow> (\<forall>x. m = Some x \<longrightarrow> pred_option P (f x))"
  by (cases m) simp_all

lemma client_outI: "r = Some (s, out) \<Longrightarrow> pred_option (\<lambda>(s, out). clientOut out) r \<Longrightarrow> clientOut out"
  by simp

lemma ofold_out:
  assumes "ofold f xs (s, acts) = Some (s', acts')" "clientOut acts"
    and "\<And>x s acts s' acts'. f x (s, acts) = Some (s', acts') \<Longrightarrow> clientOut acts \<Longrightarrow> clientOut acts'"
  shows "clientOut acts'"
  using ofold_invariant [OF assms(1), of "\<lambda>st. clientOut (snd st)"] assms(2,3) by fastforce

lemma cr_fetch_out: "cr_fetch r h = Some (h', out) \<Longrightarrow> clientOut out"
  by (auto simp: cr_fetch_def bind_eq_Some_conv Let_def split: if_splits)

lemma crn_applyNewRequest_out: "crn_applyNewRequest ack n h = Some (h', out) \<Longrightarrow> clientOut out"
  by (auto simp: crn_applyNewRequest_def bind_eq_Some_conv Let_def split: option.splits if_splits)

lemma tickNull_out: "tickNull n h = Some (h', out) \<Longrightarrow> clientOut out"
  by (auto simp: tickNull_def bind_eq_Some_conv split: if_splits)

lemma tickFetch_out: "tickFetch n h = Some (h', out) \<Longrightarrow> clientOut out"
  by (erule client_outI)
    (auto simp: tickFetch_def pred_bind pred_option_def split: list.split prod.split dest!: cr_fetch_out)

lemma tickRefetch_out: "tickRefetch n h = Some (h', out) \<Longrightarrow> clientOut out"
  by (auto simp: tickRefetch_def bind_eq_Some_conv Let_def elim!: ofold_out dest!: cr_fetch_out)

lemma tickResend_out: "tickResend n h = Some (h', out) \<Longrightarrow> clientOut out"
  by (auto simp: tickResend_def bind_eq_Some_conv split: if_splits)

lemma crn_tick_out: "crn_tick n h = Some (h', out) \<Longrightarrow> clientOut out"
  by (auto simp: crn_tick_def bind_eq_Some_conv split: if_splits
      dest!: tickNull_out tickFetch_out tickRefetch_out tickResend_out)

lemma cli_tick_out: "cli_tick c h = Some (h', out) \<Longrightarrow> clientOut out"
  by (auto simp: cli_tick_def bind_eq_Some_conv elim!: ofold_out dest!: crn_tick_out)

lemma chd_tick_out: "chd_tick cd = Some (cd', out) \<Longrightarrow> clientOut out"
  by (auto simp: chd_tick_def bind_eq_Some_conv elim!: ofold_out dest!: cli_tick_out)

lemma cli_ack_out: "cli_ack i ack cth = Some (cth', out, r) \<Longrightarrow> clientOut out"
  by (auto simp: cli_ack_def bind_eq_Some_conv Let_def split: prod.splits if_splits)

lemma chd_ack_out: "chd_ack i ack cd = Some (cd', out, r) \<Longrightarrow> clientOut out"
  by (auto simp: chd_ack_def bind_eq_Some_conv dest!: cli_ack_out)

lemma replyFetchRequest_out: "replyFetchRequest i req cd = Some out \<Longrightarrow> clientOut out"
  by (auto simp: replyFetchRequest_def bind_eq_Some_conv split: option.splits if_splits)

lemma chd_applyMsg_out: "chd_applyMsg i m cd = Some (cd', out) \<Longrightarrow> clientOut out"
  by (auto simp: chd_applyMsg_def bind_eq_Some_conv split: Msg.splits dest!: chd_ack_out replyFetchRequest_out)

lemma chd_step_out:
  assumes "chd_step psize i m cd = Some (cd', out)"
  shows "clientOut out"
proof -
  from assms obtain a where "chd_filter (cdHash cd) i m = Some a" by (auto simp: chd_step_def bind_eq_Some_conv)
  with assms show ?thesis by (cases a) (auto simp: chd_step_def bind_eq_Some_conv dest!: chd_applyMsg_out)
qed

lemma chd_applyNewRequest_out: "chd_applyNewRequest ack cd = Some (cd', out) \<Longrightarrow> clientOut out"
  by (auto simp: chd_applyNewRequest_def bind_eq_Some_conv split: option.splits if_splits dest!: crn_applyNewRequest_out)

lemma ofold_out3:
  assumes "ofold f xs (c, h, acts) = Some (c', h', acts')" "clientOut acts"
    and "\<And>x c h acts. clientOut acts \<Longrightarrow> pred_option (\<lambda>(c, h, acts). clientOut acts) (f x (c, h, acts))"
  shows "clientOut acts'"
proof -
  have "(\<lambda>(c, h, acts). clientOut acts) (c', h', acts')"
    by (rule ofold_invariant [OF assms(1)]) (use assms(2,3) in \<open>fastforce simp: pred_option_def\<close>)+
  then show ?thesis by simp
qed

lemma cli_reinitialize_out: "cli_reinitialize sn nc cst rc cth = Some (cth', out) \<Longrightarrow> clientOut out"
  by (erule client_outI)
    (auto simp: cli_reinitialize_def pred_bind Let_def split: prod.split option.split elim!: ofold_out3)

lemma fold_out3:
  assumes "fold f xs (c, h, acts) = (c', h', acts')" "clientOut acts"
    and "\<And>x c h acts. clientOut acts \<Longrightarrow> clientOut (snd (snd (f x (c, h, acts))))"
  shows "clientOut acts'"
proof -
  have "clientOut (snd (snd (fold f xs (c, h, acts))))"
    by (rule fold_invariant [where Q = "\<lambda>_. True"]) (use assms(2,3) in auto)
  then show ?thesis by (simp add: assms(1))
qed

lemma cli_allocate_out: "cli_allocate sn cst rc cth = Some (cth', out) \<Longrightarrow> clientOut out"
  by (erule client_outI)
    (auto simp: cli_allocate_def pred_bind Let_def split: prod.split elim!: fold_out3)

lemma chd_reinitialize_out: "chd_reinitialize sn ns cd = Some (cd', out) \<Longrightarrow> clientOut out"
  by (auto simp: chd_reinitialize_def bind_eq_Some_conv Let_def elim!: ofold_out dest!: cli_reinitialize_out)

lemma chd_iterate_out:
  assumes "chd_iterate psize i (cd, acts) = Some (cd', acts')" "clientOut acts"
  shows "clientOut acts'"
proof -
  from assms obtain b b' cd1 where it: "mb_iterate psize (\<lambda>(cd, _). chd_filter (cdHash cd))
         (\<lambda>source msg (cd, actions). do { (cd, out) \<leftarrow> chd_applyMsg source msg cd; Some (cd, ActionList_concat actions out) })
         b (cd, acts) = Some (b', (cd1, acts'))"
    by (auto simp: chd_iterate_def bind_eq_Some_conv)
  have "clientOut (snd (cd, acts)) \<longrightarrow> clientOut (snd (cd1, acts'))"
    by (rule iterateLoop_rel [OF it [unfolded mb_iterate_def], where R = "\<lambda>s t. clientOut (snd s) \<longrightarrow> clientOut (snd t)"])
      (auto simp: bind_eq_Some_conv dest!: chd_applyMsg_out)
  with assms show ?thesis by simp
qed

lemma chd_allocate_out:
  assumes "chd_allocate psize sn ns cd = Some (cd', out)"
  shows "clientOut out"
proof -
  from assms obtain xs cd1 acts ys where its: "ofold (\<lambda>clientState (cd, actions). do {
            c \<leftarrow> chdClients (cdHash cd) (clId clientState);
            (cth, out) \<leftarrow> cli_allocate sn clientState (length (nsPending ns) > 0) (c, cdTracker cd, cdHeap cd);
            Some (putClient (clId clientState) cth cd, ActionList_concat actions out)
          }) (nsClients ns) (xs, []) = Some (cd1, acts)" "ofold (chd_iterate psize) ys (cd1, acts) = Some (cd', out)"
    by (auto simp: chd_allocate_def bind_eq_Some_conv Let_def)
  have "clientOut acts" by (rule ofold_out [OF its(1)]) (auto simp: bind_eq_Some_conv dest!: cli_allocate_out)
  with its(2) show ?thesis by (rule ofold_out) (rule chd_iterate_out)
qed

section \<open>Targets\<close>

fun nodeAct :: "Action \<Rightarrow> bool" where
  "nodeAct (Action_Commit _) \<longleftrightarrow> False"
| "nodeAct (Action_Checkpoint _ _ _) \<longleftrightarrow> False"
| "nodeAct _ \<longleftrightarrow> True"

lemma epochAct_nodeAct: "epochAct a \<Longrightarrow> nodeAct a"
  by (cases a) auto

lemma clientAct_nodeAct: "clientAct a \<Longrightarrow> nodeAct a"
  by (cases a) auto

lemma does_client: "clientOut out \<Longrightarrow> does nodeAct cs out cs"
  unfolding does_def by (auto simp: clientOut_writeAhead list_all_iff intro: clientAct_nodeAct)

lemma does_send:
  assumes "does nodeAct a out b" "backed (entriesOf out) m"
  shows "does nodeAct a (out @ [Action_Send t m]) b"
proof -
  have "entriesOf [Action_Send t m] = {}" by (simp add: entriesOf_def)
  with assms show ?thesis by (auto simp: does_def writeAhead_def)
qed

lemma does_sends: "(\<And>es. backed es m) \<Longrightarrow> does nodeAct a [Action_Send t m] a"
  using does_send [OF does_refl, of m] by (metis append_Nil)

lemma does_Cons: "(\<And>es. backed es m) \<Longrightarrow> does nodeAct a out b \<Longrightarrow> does nodeAct a (Action_Send t m # out) b"
  using does_trans [OF does_sends [of m a t], of out b] by simp

lemma does_other: "sends_of out = [] \<Longrightarrow> list_all nodeAct out \<Longrightarrow> does nodeAct a out a"
  by (simp add: does_def writeAhead_def)

abbreviation tgCs :: "target \<Rightarrow> commitState" where
  "tgCs s \<equiv> twCommitState (snd s)"

lemma onActive_does:
  assumes "onActive f s = Some (s', out)"
    and "\<And>ew ew' out. f ew = Some (ew', out) \<Longrightarrow> does epochAct (aeCs ew) out (aeCs ew')"
  shows "does nodeAct (tgCs s) out (tgCs s')"
proof -
  from assms(1) obtain e e' w where "f (e, twEpoch (snd s)) = Some ((e', w), out)" "twEpoch (snd s') = w"
    by (auto simp: onActive_def bind_eq_Some_conv)
  with assms(2) [OF this(1)] show ?thesis by (auto elim: does_mono intro: epochAct_nodeAct)
qed

lemma logging_grows:
  assumes "logging f (w, acts) = Some (w', acts')"
    and "\<And>p p' out. f p = Some (p', out) \<Longrightarrow> \<exists>e. appendLogEntry e p = Some (p', out)"
  shows "grows nodeAct (twCommitState w, acts) (twCommitState w', acts')"
proof -
  from assms(1) obtain p out where f: "f (twPersisted w) = Some (p, out)" "acts' = acts @ out"
    "twCommitState w' = twCommitState w"
    by (auto simp: logging_def bind_eq_Some_conv)
  from assms(2) [OF f(1)] obtain i e where "out = [Action_AppendWriteAhead i e]" by (auto simp: appendLogEntry_Some)
  with f(2,3) show ?thesis by (simp add: grows_append does_other)
qed

lemma log_append:
  "addQEntry q p = Some (p', out) \<Longrightarrow> \<exists>e. appendLogEntry e p = Some (p', out)"
  "addPEntry pe p = Some (p', out) \<Longrightarrow> \<exists>e. appendLogEntry e p = Some (p', out)"
  "addNEntry n p = Some (p', out) \<Longrightarrow> \<exists>e. appendLogEntry e p = Some (p', out)"
  "addECEntry ec p = Some (p', out) \<Longrightarrow> \<exists>e. appendLogEntry e p = Some (p', out)"
  "addSuspect n' p = Some (p', out) \<Longrightarrow> \<exists>e. appendLogEntry e p = Some (p', out)"
  by (auto simp: addQEntry_def addPEntry_def addNEntry_def addECEntry_def addSuspect_def)

lemma log_grows:
  "logging (addQEntry q) (w, acts) = Some (w', acts') \<Longrightarrow> grows nodeAct (twCommitState w, acts) (twCommitState w', acts')"
  "logging (addPEntry pe) (w, acts) = Some (w', acts') \<Longrightarrow> grows nodeAct (twCommitState w, acts) (twCommitState w', acts')"
  "logging (addNEntry n) (w, acts) = Some (w', acts') \<Longrightarrow> grows nodeAct (twCommitState w, acts) (twCommitState w', acts')"
  "logging (addECEntry ec) (w, acts) = Some (w', acts') \<Longrightarrow> grows nodeAct (twCommitState w, acts) (twCommitState w', acts')"
  "logging (addSuspect n') (w, acts) = Some (w', acts') \<Longrightarrow> grows nodeAct (twCommitState w, acts) (twCommitState w', acts')"
  by (erule logging_grows, erule log_append)+

lemma et_step_does: "et_step psize i m s = Some (s', out) \<Longrightarrow> does nodeAct (tgCs s) out (tgCs s')"
  by (auto simp: et_step_def bind_eq_Some_conv split: if_splits elim!: onActive_does dest!: ae_step_does)

abbreviation grows3 :: "targetWorld \<times> ActionList \<times> 'a \<Rightarrow> targetWorld \<times> ActionList \<times> 'a \<Rightarrow> bool" where
  "grows3 s t \<equiv> grows nodeAct (twCommitState (fst s), fst (snd s)) (twCommitState (fst t), fst (snd t))"

lemma fetchRequest_grows:
  assumes "fetchRequest sources ack (w, acts, fp) = Some (w', acts', fp')"
  shows "grows nodeAct (twCommitState w, acts) (twCommitState w', acts')"
proof -
  from assms obtain w1 acts1 cr where it: "ofold (\<lambda>i (w, actions, cr). do {
             (cd, out, r) \<leftarrow> chd_ack i ack (clientSideOf w);
             Some (putClientSide cd w, ActionList_concat actions out, Some r)
           }) sources (w, acts, None) = Some (w1, acts1, cr)"
    and rest: "w' = w1 \<and> acts' = acts1 \<or> (\<exists>r h out. cr_fetch r (ewHeap (twEpoch w1)) = Some (h, out) \<and>
      w' = w1\<lparr>twEpoch := (twEpoch w1)\<lparr>ewHeap := h\<rparr>\<rparr> \<and> acts' = acts1 @ out)"
    by (auto simp: fetchRequest_def bind_eq_Some_conv split: if_splits)
  have "grows3 (w, acts, None) (w1, acts1, cr)"
    by (rule ofold_rel [OF it, where R = grows3])
      (auto simp: bind_eq_Some_conv grows_append putClientSide_def does_client dest!: chd_ack_out intro: grows_trans)
  moreover have "grows nodeAct (twCommitState w1, acts1) (twCommitState w', acts')"
    using rest by (auto simp: grows_append does_client dest!: cr_fetch_out)
  ultimately show ?thesis using grows_trans by fastforce
qed

lemma fetchBatch_out: "fetchBatch sn d srcs bt = (bt', out) \<Longrightarrow> does nodeAct cs out cs"
  by (auto simp: fetchBatch_def Let_def split: if_splits intro: does_sends)

lemma fetchRequests_grows: "ofold (fetchRequest srcs) acks st = Some st' \<Longrightarrow> grows3 st st'"
  by (erule ofold_rel [where R = grows3]) (auto dest!: fetchRequest_grows intro: grows_trans)

lemma fetchSequence_grows: "pred_option (grows3 st) (fetchSequence et leader idg st)"
proof -
  obtain i d w acts fp where "idg = (i, d)" "st = (w, acts, fp)" by (metis prod.exhaust)
  then show ?thesis
    by (auto simp: fetchSequence_def Let_def pred_bind grows_append fetchBatch_out split: option.split prod.split)
      (auto simp: pred_option_def dest!: fetchRequests_grows)
qed

lemma fetchSequences_grows:
  assumes "ofold (fetchSequence et leader) xs st = Some st'"
  shows "grows3 st st'"
  using assms
proof (rule ofold_rel [where R = grows3])
  show "grows3 s t" if "fetchSequence et leader x s = Some t" for x s t
    using fetchSequence_grows [of s et leader x] that by simp
qed (auto intro: grows_trans)

lemma persistPreprepare_grows:
  assumes "persistPreprepare et cfg idg (w, acts) = Some (w', acts')"
  shows "grows nodeAct (twCommitState w, acts) (twCommitState w', acts')"
proof -
  obtain i d where idg: "idg = (i, d)" by force
  have "pred_option (\<lambda>(w', acts'). grows nodeAct (twCommitState w, acts) (twCommitState w', acts'))
      (persistPreprepare et cfg idg (w, acts))"
    by (auto simp: persistPreprepare_def idg Let_def pred_bind pred_option_def dest!: log_grows intro: grows_trans)
  then show ?thesis by (simp add: assms)
qed

lemma logging_out:
  assumes "logging (addNEntry n) (w, acts) = Some (w', acts')"
  shows "\<exists>i. acts' = acts @ [Action_AppendWriteAhead i (Persistent_NEntry n)]"
  using assms by (auto simp: logging_def bind_eq_Some_conv addNEntry_def appendLogEntry_Some)

lemma does_transfer:
  assumes "transferTo sn v cs p = Some (cs', p', out)"
  shows "does nodeAct cs out cs'"
proof -
  from assms obtain i e where "cs' = cs\<lparr>csTransferring := True\<rparr>"
    and out: "out = [Action_AppendWriteAhead i e, Action_StateTransfer sn v]"
    by (auto simp: transferTo_def bind_eq_Some_conv addTEntry_def appendLogEntry_Some)
  then have "csMove cs cs'" unfolding csMove_def by auto
  with out show ?thesis by (simp add: does_def writeAhead_def)
qed

lemma fetchNewEpochState_does:
  assumes "fetchNewEpochState s = Some (s', out)"
  shows "does nodeAct (tgCs s) out (tgCs s')"
proof -
  obtain et w where s: "s = (et, w)" by force
  from assms obtain leader where leader: "etLeaderNewEpoch et = Some leader"
    by (auto simp: fetchNewEpochState_def s bind_eq_Some_conv)
  let ?cfg = "neNewConfig leader"
  let ?start = "cpSeqNo (necStartingCheckpoint ?cfg)"
  show ?thesis
  proof (cases "csTransferring (twCommitState w) \<or> ?start > csHighestCommit (twCommitState w)")
    case True
    with assms leader show ?thesis
      by (auto simp: fetchNewEpochState_def s bind_eq_Some_conv Let_def split: if_splits dest!: does_transfer)
  next
    case False
    with assms leader obtain w1 a1 fp where
      it: "ofold (fetchSequence et leader) (numbered (necFinalPreprepares ?cfg)) (w, [], False) = Some (w1, a1, fp)"
      by (auto simp: fetchNewEpochState_def s bind_eq_Some_conv Let_def)
    from fetchSequences_grows [OF it] have g1: "does nodeAct (twCommitState w) a1 (twCommitState w1)" by (simp add: grows_from_Nil)
    show ?thesis
    proof (cases "fp \<or> ?start > csLowWatermark (twCommitState w1)")
      case True
      with False assms leader it g1 show ?thesis
        by (auto simp: fetchNewEpochState_def s Let_def split: if_splits)
    next
      case late: False
      with False assms leader it obtain w2 a2 w3 a3 where
        n: "logging (addNEntry \<lparr>neSeqNo = ?start + 1, neEpochConfig = necConfig ?cfg\<rparr>) (w1, a1) = Some (w2, a2)"
        and pp: "ofold (persistPreprepare et ?cfg) (numbered (necFinalPreprepares ?cfg)) (w2, a2) = Some (w3, a3)"
        and out: "out = a3 @ [Action_Send (ncNodes (etNetworkConfig et)) (Msg_NewEpochEcho ?cfg)]" "snd s' = w3"
        by (auto simp: fetchNewEpochState_def s Let_def bind_eq_Some_conv)
      have g2: "grows nodeAct (twCommitState w1, a1) (twCommitState w2, a2)" using n by (rule log_grows)
      have g3: "grows nodeAct (apfst twCommitState (w2, a2)) (apfst twCommitState (w3, a3))"
        by (rule ofold_rel [OF pp]) (auto dest!: persistPreprepare_grows intro: grows_trans)
      have "grows nodeAct (twCommitState w, []) (twCommitState w3, a3)"
        by (rule grows_trans [OF grows_trans [OF _ g2] g3 [simplified]]) (simp add: grows_from_Nil g1)
      then have "does nodeAct (twCommitState w) a3 (twCommitState w3)" by (simp add: grows_from_Nil)
      moreover have "backed (entriesOf a3) (Msg_NewEpochEcho ?cfg)"
        using logging_out [OF n] g3 by (auto simp: grows_def entriesOf_def)
      ultimately show ?thesis using out s does_send by simp
    qed
  qed
qed

lemma repeatEpochChangeBroadcast_out: "repeatEpochChangeBroadcast et = Some out \<Longrightarrow> does nodeAct cs out cs"
  by (auto simp: repeatEpochChangeBroadcast_def bind_eq_Some_conv intro!: does_sends)

lemma tickPrepending_out: "tickPrepending et = Some out \<Longrightarrow> does nodeAct cs out cs"
  by (auto simp: tickPrepending_def bind_eq_Some_conv Let_def split: option.splits if_splits
      intro!: does_sends dest: repeatEpochChangeBroadcast_out)

lemma suspect_does:
  assumes "logging (addSuspect n) (w, [Action_Send t (Msg_Suspect n)]) = Some (w', out)"
  shows "does nodeAct (twCommitState w) out (twCommitState w')"
  using assms
  by (auto simp: logging_def bind_eq_Some_conv addSuspect_def appendLogEntry_Some does_def writeAhead_def entriesOf_def)

lemma tickPending_does:
  assumes "tickPending s = Some (s', out)"
  shows "does nodeAct (tgCs s) out (tgCs s')"
proof -
  have "pred_option (\<lambda>(s', out). does nodeAct (tgCs s) out (tgCs s')) (tickPending s)"
    by (auto simp: tickPending_def Let_def pred_bind repeatEpochChangeBroadcast_out split: prod.split
        intro!: does_sends dest!: suspect_does)
  then show ?thesis by (simp add: assms)
qed

lemma et_tick_does: "et_tick s = Some (s', out) \<Longrightarrow> does nodeAct (tgCs s) out (tgCs s')"
  by (auto simp: et_tick_def Let_def bind_eq_Some_conv split: if_splits dest!: tickPending_does tickPrepending_out)
    (auto dest!: onActive_does [OF _ ae_tick_does])

lemma applyEpochChangeMsg_out: "does nodeAct cs (applyEpochChangeMsg i m et) cs"
  unfolding applyEpochChangeMsg_def applyEpochChangeAckMsg_def
  by (auto simp: does_other intro!: does_Cons)

lemma applyEpochChangeAckMsg_out: "does nodeAct cs (applyEpochChangeAckMsg i j m) cs"
  by (simp add: applyEpochChangeAckMsg_def does_other)

lemma checkEpochQuorum_out: "checkEpochQuorum et = Some (et', out) \<Longrightarrow> does nodeAct cs out cs"
  by (auto simp: checkEpochQuorum_def bind_eq_Some_conv Let_def split: if_splits option.splits intro!: does_sends)

lemma checkNewEpochEchoQuorum_does:
  assumes "checkNewEpochEchoQuorum s = Some (s', out)"
  shows "does nodeAct (tgCs s) out (tgCs s')"
proof (cases "find (hasQuorum (etNetworkConfig (fst s))) (etEchos (fst s))")
  case None
  with assms show ?thesis by (auto simp: checkNewEpochEchoQuorum_def split: prod.splits)
next
  case (Some v)
  with assms obtain w a where pe: "ofold (\<lambda>(i, digest). logging (addPEntry
         \<lparr>peSeqNo = of_nat i + cpSeqNo (necStartingCheckpoint (fst v)) + 1, peDigest = digest\<rparr>))
       (numbered (necFinalPreprepares (fst v))) (snd s, []) = Some (w, a)"
    and out: "out = a @ [Action_Send (ncNodes (etNetworkConfig (fst s))) (Msg_NewEpochReady (fst v))]" "snd s' = w"
    by (auto simp: checkNewEpochEchoQuorum_def bind_eq_Some_conv split: prod.splits)
  have "grows nodeAct (apfst twCommitState (snd s, [])) (apfst twCommitState (w, a))"
    by (rule ofold_rel [OF pe]) (auto dest!: log_grows intro: grows_trans)
  with out show ?thesis by (simp add: grows_from_Nil does_send)
qed

lemma iterate_invariant:
  assumes "iterate li p s = Some s'" "P s" and "\<And>e s s'. P s \<Longrightarrow> dispatch li e s = Some s' \<Longrightarrow> P s'"
  shows "P s'"
proof -
  have "iterateEntries li es s = Some s' \<Longrightarrow> P s \<Longrightarrow> P s'" for es s
    by (induction es arbitrary: s) (auto simp: bind_eq_Some_conv split: if_splits intro: assms(3))
  with assms(1,2) show ?thesis by (simp add: iterate_def)
qed

lemma readyIterator_does:
  assumes "iterate (readyIterator cfg) p (cur, cs) = Some (cur', cs')"
  shows "does nodeAct cs [] cs'"
proof -
  have step: "does nodeAct cs [] (snd t)" if "does nodeAct cs [] (snd s)" "dispatch (readyIterator cfg) e s = Some t" for e s t
    using that does_trans [of nodeAct cs "[]" "snd s" "[]" "snd t"] does_commit [of _ "snd s" "snd t" nodeAct]
    by (cases e) (auto simp: readyIterator_def noCallbacks_def dispatch_def bind_eq_Some_conv split: if_splits prod.splits)
  have "(\<lambda>st. does nodeAct cs [] (snd st)) (cur', cs')"
    by (rule iterate_invariant [OF assms]) (auto intro: step)
  then show ?thesis by simp
qed

lemma checkNewEpochReadyQuorum_does:
  assumes "checkNewEpochReadyQuorum s = Some s'"
  shows "does nodeAct (tgCs s) [] (tgCs s')"
  using assms unfolding checkNewEpochReadyQuorum_def
proof (rule ofold_rel [where R = "\<lambda>s t. does nodeAct (tgCs s) [] (tgCs t)"])
  show "does nodeAct (tgCs a) [] (tgCs c)" if "does nodeAct (tgCs a) [] (tgCs b)" "does nodeAct (tgCs b) [] (tgCs c)" for a b c
    using does_trans [OF that] by simp
qed (auto simp: bind_eq_Some_conv split: if_splits dest!: readyIterator_does)

lemma checkEpochResumed_cs [simp]: "tgCs (checkEpochResumed s) = tgCs s"
  by (simp add: checkEpochResumed_def Let_def)

lemma applyPrestart_grows:
  assumes "applyPrestart psize i (s, acts) = Some (s', acts')"
  shows "grows nodeAct (tgCs s, acts) (tgCs s', acts')"
proof -
  from assms obtain b b' s1 where it: "mb_iterate psize (\<lambda>_ _ _. Some current)
         (\<lambda>source msg (s, actions). do { (s, out) \<leftarrow> onActive (ae_step psize source msg) s; Some (s, ActionList_concat actions out) })
         b (s, acts) = Some (b', (s1, acts'))" and cs: "tgCs s' = tgCs s1"
    by (auto simp: applyPrestart_def bind_eq_Some_conv)
  have "grows nodeAct (apfst tgCs (s, acts)) (apfst tgCs (s1, acts'))"
    by (rule iterateLoop_rel [OF it [unfolded mb_iterate_def], where R = "\<lambda>s t. grows nodeAct (apfst tgCs s) (apfst tgCs t)"])
      (auto simp: bind_eq_Some_conv grows_append dest!: onActive_does [OF _ ae_step_does] intro: grows_trans)
  with cs show ?thesis by simp
qed

lemma startEpoch_does:
  assumes "startEpoch psize s = Some (s', out)"
  shows "does nodeAct (tgCs s) out (tgCs s')"
proof -
  obtain et w where s: "s = (et, w)" by force
  from assms obtain cfg e ew s1 a1 s2 a2 a3 et1 where
    new: "newActiveEpoch cfg (etNodeBuffers et) (etMyConfig et) (twEpoch w) = Some (e, ew)"
    and adv: "onActive (ae_advance psize) (et\<lparr>etActiveEpoch := Some e\<rparr>, w\<lparr>twEpoch := ew\<rparr>) = Some (s1, a1)"
    and pre: "ofold (applyPrestart psize) (ncNodes (etNetworkConfig et)) ((et1, snd s1), a1) = Some (s2, a2)"
    and dr: "onActive (drainBuffers psize) s2 = Some (s', a3)" and out: "out = a2 @ a3"
    by (auto simp: startEpoch_def s bind_eq_Some_conv)
  have "does nodeAct (tgCs s) a1 (tgCs s1)"
    using onActive_does [OF adv] ae_advance_does newActiveEpoch_cs [OF new] s by auto
  moreover have "grows nodeAct (apfst tgCs ((et1, snd s1), a1)) (apfst tgCs (s2, a2))"
    by (rule ofold_rel [OF pre]) (auto dest!: applyPrestart_grows intro: grows_trans)
  ultimately have "does nodeAct (tgCs s) a2 (tgCs s2)"
    using grows_trans [of nodeAct "(tgCs s, [])" "(tgCs s1, a1)" "(tgCs s2, a2)"] by (simp add: grows_from_Nil)
  from does_trans [OF this onActive_does [OF dr drainBuffers_does]] out show ?thesis by simp
qed

lemma ae_advanceRequests_does:
  "ae_advanceRequests ew = Some (ew', out) \<Longrightarrow> does epochAct (aeCs ew) out (aeCs ew')"
  by (auto simp: ae_advanceRequests_def bind_eq_Some_conv dest!: advanceRequests_out)

lemma advanceRound_does:
  assumes "advanceRound psize s = Some (s', out)"
  shows "does nodeAct (tgCs s) out (tgCs s')"
proof (cases "etState (fst s) = etInProgress")
  case True
  with assms obtain s1 a1 a2 where "onActive ae_advanceRequests s = Some (s1, a1)" "onActive (ae_advance psize) s1 = Some (s', a2)"
    and out: "out = a1 @ a2"
    by (auto simp: advanceRound_def bind_eq_Some_conv)
  then show ?thesis
    unfolding out by (intro does_trans [OF onActive_does [OF _ ae_advanceRequests_does] onActive_does [OF _ ae_advance_does]])
next
  case False
  with assms show ?thesis
    by (cases "etState (fst s)")
      (auto simp: advanceRound_def bind_eq_Some_conv split: if_splits dest: fetchNewEpochState_does
        checkNewEpochEchoQuorum_does checkNewEpochReadyQuorum_does startEpoch_does checkEpochQuorum_out)
qed

lemma et_advanceState_does:
  "et_advanceState psize peq s = Some r \<Longrightarrow> does nodeAct (tgCs s) (snd r) (tgCs (fst r))"
proof (induction psize peq s r rule: et_advanceState.raw_induct [rotated, consumes 1])
  case (1 f psize peq s r)
  let ?round = "if etState (fst s) = etVerifying
     then do {
       verified \<leftarrow> verifyNewEpochState peq (fst s);
       if verified then f psize peq ((fst s)\<lparr>etState := etFetching\<rparr>, snd s) else Some (s, [])
     }
     else advanceRound psize s"
  from 1(2) obtain s' out where round: "?round = Some (s', out)"
    and rest: "r = (s', out) \<or> (\<exists>r'. f psize peq s' = Some r' \<and> r = (fst r', out @ snd r'))"
    by (cases ?round) (auto simp: bind_eq_Some_conv split: if_splits)
  have first: "does nodeAct (tgCs s) out (tgCs s')"
  proof (cases "etState (fst s) = etVerifying")
    case True
    with round consider "s' = s" "out = []" | "f psize peq ((fst s)\<lparr>etState := etFetching\<rparr>, snd s) = Some (s', out)"
      by (auto simp: bind_eq_Some_conv split: if_splits)
    then show ?thesis using 1(1) [of psize peq "((fst s)\<lparr>etState := etFetching\<rparr>, snd s)" "(s', out)"] by cases simp_all
  next
    case False
    with round show ?thesis by (simp add: advanceRound_does)
  qed
  from rest show ?case
  proof (elim disjE exE conjE)
    fix r' assume "f psize peq s' = Some r'" and r: "r = (fst r', out @ snd r')"
    from 1(1) [OF this(1)] have "does nodeAct (tgCs s) (out @ snd r') (tgCs (fst r'))" by (rule does_trans [OF first])
    with r show ?thesis by simp
  qed (use first in simp)
qed

lemma et_applyEpochChangeDigest_does:
  "et_applyEpochChangeDigest psize peq i j m d s = Some (s', out) \<Longrightarrow> does nodeAct (tgCs s) out (tgCs s')"
  by (auto simp: et_applyEpochChangeDigest_def Let_def bind_eq_Some_conv split: if_splits dest!: et_advanceState_does)

lemma applyNewEpochMsg_does:
  "applyNewEpochMsg psize peq m s = Some (s', out) \<Longrightarrow> does nodeAct (tgCs s) out (tgCs s')"
  by (auto simp: applyNewEpochMsg_def dest!: et_advanceState_does)

lemma applyNewEpochEchoMsg_does:
  "applyNewEpochEchoMsg psize peq i m s = Some (s', out) \<Longrightarrow> does nodeAct (tgCs s) out (tgCs s')"
  by (auto simp: applyNewEpochEchoMsg_def dest!: et_advanceState_does)

lemma applyNewEpochReadyMsg_does:
  "applyNewEpochReadyMsg psize peq i m s = Some (s', out) \<Longrightarrow> does nodeAct (tgCs s) out (tgCs s')"
  by (auto simp: applyNewEpochReadyMsg_def Let_def split: if_splits dest!: et_advanceState_does intro!: does_sends)

lemma et_moveLowWatermark_does:
  assumes "et_moveLowWatermark psize sn s = Some (s', out)"
  shows "does nodeAct (tgCs s) out (tgCs s')"
  using assms
  by (auto simp: et_moveLowWatermark_def bind_eq_Some_conv Let_def split: if_splits dest!: ae_moveLowWatermark_does
      elim!: does_mono intro: epochAct_nodeAct)

section \<open>The epoch tracker\<close>

abbreviation trCs :: "tracker \<Rightarrow> commitState" where
  "trCs s \<equiv> twCommitState (snd s)"

lemma onCurrent_does:
  assumes "onCurrent f s = Some (s', out)"
    and "\<And>t t' out. f t = Some (t', out) \<Longrightarrow> does nodeAct (tgCs t) out (tgCs t')"
  shows "does nodeAct (trCs s) out (trCs s')"
proof -
  from assms(1) obtain et et' w where "f (et, snd s) = Some ((et', w), out)" "snd s' = w"
    by (auto simp: onCurrent_def bind_eq_Some_conv)
  with assms(2) [OF this(1)] show ?thesis by simp
qed

lemma tr_applyMsg_does:
  assumes "tr_applyMsg psize peq i m s = Some (s', out)"
  shows "does nodeAct (trCs s) out (trCs s')"
  using assms
  by (cases m)
    (auto simp: tr_applyMsg_def bind_eq_Some_conv applyEpochChangeMsg_out applyEpochChangeAckMsg_out split: if_splits
      elim!: onCurrent_does dest!: et_step_does applyNewEpochMsg_does applyNewEpochEchoMsg_does applyNewEpochReadyMsg_does)

lemma tr_step_does: "tr_step psize peq i m s = Some (s', out) \<Longrightarrow> does nodeAct (trCs s) out (trCs s')"
  by (auto simp: tr_step_def bind_eq_Some_conv Let_def split: if_splits dest!: tr_applyMsg_does)

lemma applyFuture_grows:
  assumes "applyFuture psize peq i (s, acts) = Some (s', acts')"
  shows "grows nodeAct (trCs s, acts) (trCs s', acts')"
proof -
  from assms obtain b b' s1 where it: "mb_iterate psize (\<lambda>(s, _). tr_filter (fst s))
         (\<lambda>source msg (s, actions). do { (s, out) \<leftarrow> tr_applyMsg psize peq source msg s; Some (s, ActionList_concat actions out) })
         b (s, acts) = Some (b', (s1, acts'))" and cs: "trCs s' = trCs s1"
    by (auto simp: applyFuture_def bind_eq_Some_conv)
  have "grows nodeAct (apfst trCs (s, acts)) (apfst trCs (s1, acts'))"
    by (rule iterateLoop_rel [OF it [unfolded mb_iterate_def], where R = "\<lambda>s t. grows nodeAct (apfst trCs s) (apfst trCs t)"])
      (auto simp: bind_eq_Some_conv grows_append dest!: tr_applyMsg_does intro: grows_trans)
  with cs show ?thesis by simp
qed

lemma applyFutures_grows:
  assumes "ofold (applyFuture psize peq) ns (s, acts) = Some (s', acts')"
  shows "grows nodeAct (trCs s, acts) (trCs s', acts')"
proof -
  have "grows nodeAct (apfst trCs (s, acts)) (apfst trCs (s', acts'))"
    by (rule ofold_rel [OF assms]) (auto dest!: applyFuture_grows intro: grows_trans)
  then show ?thesis by simp
qed

lemma tr_advanceState_does:
  assumes "tr_advanceState psize peq s = Some (s', out)"
  shows "does nodeAct (trCs s) out (trCs s')"
proof -
  from assms obtain cur where cur: "trCurrentEpoch (fst s) = Some cur" by (auto simp: tr_advanceState_def bind_eq_Some_conv)
  show ?thesis
  proof (cases "etState cur < etDone \<or> csCheckpointPending (trCs s)")
    case True
    with assms cur show ?thesis
      by (auto simp: tr_advanceState_def split: if_splits elim!: onCurrent_does dest!: et_advanceState_does)
  next
    case False
    with assms cur obtain ec w acts ns m et where ec: "logging (addECEntry ec) (snd s, []) = Some (w, acts)"
      and fu: "ofold (applyFuture psize peq) ns (((fst s)\<lparr>trCurrentEpoch := Some et\<rparr>, w), acts @ [Action_Send ns (Msg_EpochChange m)]) =
        Some (s', out)"
      by (auto simp: tr_advanceState_def bind_eq_Some_conv Let_def)
    have "does nodeAct (trCs s) acts (twCommitState w)" using log_grows(4) [OF ec] by (simp add: grows_from_Nil)
    then have "grows nodeAct (trCs s, []) (twCommitState w, acts @ [Action_Send ns (Msg_EpochChange m)])"
      by (simp add: grows_from_Nil does_send)
    from grows_trans [OF this applyFutures_grows [OF fu, simplified]] show ?thesis by (simp add: grows_from_Nil)
  qed
qed

lemma tr_applyBatchHashResult_does:
  "tr_applyBatchHashResult ep sn d s = Some (s', out) \<Longrightarrow> does nodeAct (trCs s) out (trCs s')"
  by (auto simp: tr_applyBatchHashResult_def bind_eq_Some_conv split: if_splits
      elim!: onCurrent_does dest!: onActive_does [OF _ ae_applyBatchHashResult_does])

lemma tr_tick_does: "tr_tick s = Some (s', out) \<Longrightarrow> does nodeAct (trCs s) out (trCs s')"
  by (auto simp: tr_tick_def bind_eq_Some_conv Let_def dest!: onCurrent_does [OF _ et_tick_does])

lemma tr_moveLowWatermark_does:
  "tr_moveLowWatermark psize sn s = Some (s', out) \<Longrightarrow> does nodeAct (trCs s) out (trCs s')"
  by (auto simp: tr_moveLowWatermark_def dest!: onCurrent_does [OF _ et_moveLowWatermark_does])

lemma tr_applyEpochChangeDigest_does:
  "tr_applyEpochChangeDigest psize peq i j m d s = Some (s', out) \<Longrightarrow> does nodeAct (trCs s) out (trCs s')"
  by (auto simp: tr_applyEpochChangeDigest_def bind_eq_Some_conv split: if_splits
      dest!: onCurrent_does [OF _ et_applyEpochChangeDigest_does])

end
