(* ===== verification/Mir_Node.thy ===== *)
theory Mir_Node
  imports Mir_NodeOutput
begin

text \<open>
  Properties of whole events of the state machine of a node: nothing is sent without its log entry, and the
  application is handed the committed entries in order.
\<close>

section \<open>A network of one node\<close>

text \<open>The examples below are about a node that is a network of its own, started from two logs: that of a new
  network, and that of an epoch that had begun.\<close>

declare et_advanceState.simps [code] advanceLoop.simps [code] alignStart.simps [code] advanceReadyLoop.simps [code]
  commitLoop.simps [code] preprepareLoop.simps [code] extendLoop.simps [code] proposeBucket.simps [code]
  skipPreviouslyCommitted.simps [code]

definition oneNode :: NetworkConfig where
  "oneNode = \<lparr>ncNodes = [0], ncCheckpointInterval = 2, ncMaxEpochLength = 100, ncNumberOfBuckets = 1, ncF = 0\<rparr>"

definition oneParameters :: InitialParameters where
  "oneParameters = \<lparr>ipId = 0, ipBatchSize = 1, ipHeartbeatTicks = 1, ipSuspectTicks = 4, ipNewEpochTimeoutTicks = 8,
     ipBufferSize = 1000\<rparr>"

definition oneState :: NetworkState where
  "oneState = \<lparr>nsConfig = oneNode, nsClients = [], nsPending = [], nsReconfigured = False\<rparr>"

definition newLog :: "Persistent list" where
  "newLog = [Persistent_CEntry \<lparr>ceSeqNo = 0, ceCheckpointValue = Some [1], ceNetworkState = oneState\<rparr>,
     Persistent_FEntry \<lparr>feEndsEpochConfig = \<lparr>epNumber = 0, epLeaders = [0], epPlannedExpiration = 0\<rparr>\<rparr>]"

definition begunLog :: "Persistent list" where
  "begunLog = newLog @ [Persistent_ECEntry \<lparr>eceEpochNumber = 1\<rparr>,
     Persistent_NEntry \<lparr>neSeqNo = 1, neEpochConfig = \<lparr>epNumber = 1, epLeaders = [0], epPlannedExpiration = 100\<rparr>\<rparr>]"

definition loaded :: "Persistent list \<Rightarrow> StateMachine option" where
  "loaded log = do {
     (sm, _) \<leftarrow> applyEvent (\<lambda>_. 1) (=) (Event_Initialize oneParameters) newStateMachine;
     ofold (\<lambda>(i, e) sm. map_option fst (applyEvent (\<lambda>_. 1) (=) (Event_LoadPersistedEntry (of_nat i) e) sm))
       (zip [1..<Suc (length log)] log) sm
   }"

definition started :: "Persistent list \<Rightarrow> (StateMachine \<times> ActionList) option" where
  "started log = do { sm \<leftarrow> loaded log; applyEvent (\<lambda>_. 1) (=) Event_CompleteInitialization sm }"

section \<open>Restarts\<close>

text \<open>The other operations of a restart; the commit state is built anew there, so only what is sent counts.\<close>

lemma does_writeAhead: "does ok a out b \<Longrightarrow> writeAhead out"
  by (simp add: does_def)

lemma writeAhead_other: "sends_of out = [] \<Longrightarrow> writeAhead out"
  by (simp add: writeAhead_def)

lemma recoverLog_sends:
  assumes "recoverLog sp = Some (sp', out)"
  shows "writeAhead out"
proof -
  from assms obtain c p where it: "iterate recoverIterator (twPersisted (spWorld sp)) (None, twPersisted (spWorld sp), []) = Some (c, p, out)"
    by (auto simp: recoverLog_def bind_eq_Some_conv Let_def)
  have trunc: "sends_of (snd (truncateLog sn q)) = []" for sn q
    by (rule truncateLog_cases [of sn q]) simp_all
  have "(\<lambda>(c, p, acts). sends_of acts = []) (c, p, out)"
    by (rule iterate_invariant [OF it])
      (auto simp: recoverIterator_def noCallbacks_def dispatch_def bind_eq_Some_conv Let_def trunc case_prod_beta
        split: Persistent.splits)
  then show ?thesis by (simp add: writeAhead_other)
qed

lemma cs_reinitialize_sends:
  assumes "cs_reinitialize p cs = Some (cs', out)"
  shows "writeAhead out"
proof -
  have "pred_option (\<lambda>(cs, out). sends_of out = []) (cs_reinitialize p cs)"
    by (simp add: cs_reinitialize_def pred_bind Let_def case_prod_beta split: option.split)
  with assms show ?thesis by (simp add: writeAhead_other)
qed

lemma resumeEpoch_does:
  assumes "resumeEpoch n hp nc s = Some (s', out)"
  shows "does nodeAct (trCs s) out (trCs s')"
  using assms
  by (auto simp: resumeEpoch_def bind_eq_Some_conv Let_def logging_def addSuspect_def appendLogEntry_Some does_def
      writeAhead_def entriesOf_def)

lemma changeEntry_does:
  assumes "changeEntry ls w = Some (ec, w', out)"
  shows "does nodeAct (twCommitState w) out (twCommitState w')"
  using assms
  by (auto simp: changeEntry_def bind_eq_Some_conv Let_def split: option.splits if_splits dest!: log_grows)
    (auto simp: grows_from_Nil)

lemma onCurrent_advance:
  "onCurrent (et_advanceState psize peq) s = Some (s', out) \<Longrightarrow> does nodeAct (trCs s) out (trCs s')"
  by (erule onCurrent_does) (use et_advanceState_does in fastforce)

lemma continueChange_grows:
  assumes "continueChange psize peq ec nc (s, acts) = Some (s', acts', fl)"
  shows "grows nodeAct (trCs s, acts) (trCs s', acts')"
  using assms
  by (auto simp: continueChange_def bind_eq_Some_conv grows_append split: if_splits option.splits
      dest!: onCurrent_advance)

lemma tr_reinitialize_does:
  assumes "tr_reinitialize psize peq s = Some (s', out)"
  shows "does nodeAct (trCs s) out (trCs s')"
proof -
  have change: "pred_option (\<lambda>(s1, acts, fl). does nodeAct (trCs s) acts (trCs s1))
      (do { (ec, w, out) \<leftarrow> changeEntry ls (snd t); continueChange psize peq ec nc ((fst t, w), out) })"
    if t: "snd t = snd s" for t ls nc
    by (auto simp: pred_bind pred_option_def t dest!: changeEntry_does continueChange_grows)
      (metis grows_from_Nil grows_trans)
  from assms obtain t ls nc s1 acts fl where t: "snd t = snd s"
    and mid: "(case lsN ls of
            Some n \<Rightarrow>
              if ecUpTo (epNumber (neEpochConfig n)) ls
              then do { (s, out) \<leftarrow> resumeEpoch n (lsHighestPreprepared ls) nc t; Some (s, out, True) }
              else do { (ec, w, out) \<leftarrow> changeEntry ls (snd t); continueChange psize peq ec nc ((fst t, w), out) }
          | None \<Rightarrow> do { (ec, w, out) \<leftarrow> changeEntry ls (snd t); continueChange psize peq ec nc ((fst t, w), out) }) = Some (s1, acts, fl)"
    and rest: "(if fl then ofold (applyFuture psize peq) (ncNodes nc) (s1, acts) else Some (s1, acts)) = Some (s', out)"
    unfolding tr_reinitialize_def Let_def bind_eq_Some_conv by auto
  have "does nodeAct (trCs s) acts (trCs s1)"
  proof (cases "\<exists>n. lsN ls = Some n \<and> ecUpTo (epNumber (neEpochConfig n)) ls")
    case True
    with mid t show ?thesis by (auto simp: bind_eq_Some_conv dest!: resumeEpoch_does)
  next
    case False
    with mid change [OF t, of ls nc] show ?thesis by (auto split: option.splits if_splits)
  qed
  with rest show ?thesis
    by (auto split: if_splits dest!: applyFutures_grows) (metis grows_from_Nil grows_trans)
qed

section \<open>Events\<close>

lemma put_cs [simp]:
  "spCommitState (putCommitState cs sp) = cs" "spCommitState (putPersisted p sp) = spCommitState sp"
  "spCommitState (putTracker t sp) = spCommitState sp" "spCommitState (putBatches bt sp) = spCommitState sp"
  by (simp_all add: putCommitState_def putPersisted_def putTracker_def putBatches_def)

lemma onTracker_does:
  assumes "onTracker f sp = Some (sp', out)"
    and "\<And>t t' out. f t = Some (t', out) \<Longrightarrow> does nodeAct (trCs t) out (trCs t')"
  shows "does nodeAct (spCommitState sp) out (spCommitState sp')"
proof -
  from assms(1) obtain et w where "f (spEpochTracker sp, spWorld sp) = Some ((et, w), out)" "spWorld sp' = w"
    by (auto simp: onTracker_def bind_eq_Some_conv)
  with assms(2) [OF this(1)] show ?thesis by simp
qed

lemma onClients_does:
  assumes "onClients f sp = Some (sp', out)"
    and "\<And>cd cd' out. f cd = Some (cd', out) \<Longrightarrow> clientOut out"
  shows "does nodeAct (spCommitState sp) out (spCommitState sp')"
  using assms by (auto simp: onClients_def putClientSide_def bind_eq_Some_conv does_client)

lemma bt_step_out: "bt_step i m bt = Some out \<Longrightarrow> does nodeAct cs out cs"
  by (auto simp: bt_step_def replyFetchBatch_def applyForwardBatchMsg_def split: Msg.splits option.splits
      intro!: does_sends does_other)

lemma sm_step_does:
  assumes "sm_step psize peq i m sp = Some (sp', out)"
  shows "does nodeAct (spCommitState sp) out (spCommitState sp')"
  using assms
  by (cases m)
    (auto simp: sm_step_def bind_eq_Some_conv bt_step_out elim!: onTracker_does onClients_does
      dest!: tr_step_does chd_step_out)

lemma processHashResult_does:
  assumes "processHashResult psize peq d origin sp = Some (sp', out)"
  shows "does nodeAct (spCommitState sp) out (spCommitState sp')"
proof (cases origin)
  case (HashOrigin_Batch i ep sn acks)
  with assms show ?thesis
    by (auto simp: processHashResult_def dest!: onTracker_does [OF _ tr_applyBatchHashResult_does])
next
  case (HashOrigin_EpochChange i j ec)
  with assms show ?thesis
    by (auto simp: processHashResult_def dest!: onTracker_does [OF _ tr_applyEpochChangeDigest_does])
next
  case (HashOrigin_VerifyBatch i sn acks ex)
  have "onTracker (onCurrent fetchNewEpochState) sp = Some (sp', out) \<Longrightarrow>
      does nodeAct (spCommitState sp) out (spCommitState sp')" for sp
    by (erule onTracker_does, erule onCurrent_does, rule fetchNewEpochState_does)
  with assms HashOrigin_VerifyBatch show ?thesis
    by (fastforce simp: processHashResult_def bind_eq_Some_conv Let_def split: if_splits)
qed

lemma moveWatermark_does:
  assumes "moveWatermark psize sp = Some (sp', out)"
  shows "does nodeAct (spCommitState sp) out (spCommitState sp')"
  using assms
  by (auto simp: moveWatermark_def bind_eq_Some_conv Let_def split: if_splits
      dest!: onTracker_does [OF _ tr_moveLowWatermark_does])

lemma tickElapsed_does:
  assumes "handleEvent psize peq Event_TickElapsed sp = Some (sp', out)"
  shows "does nodeAct (spCommitState sp) out (spCommitState sp')"
proof -
  from assms obtain sp1 a1 a2 where "onClients chd_tick sp = Some (sp1, a1)" "onTracker tr_tick sp1 = Some (sp', a2)"
    and out: "out = a1 @ a2"
    by (auto simp: handleEvent_def bind_eq_Some_conv)
  then show ?thesis
    unfolding out by (intro does_trans [OF onClients_does [OF _ chd_tick_out] onTracker_does [OF _ tr_tick_does]])
qed

fun ordinary :: "Event \<Rightarrow> bool" where
  "ordinary Event_TickElapsed \<longleftrightarrow> True"
| "ordinary (Event_Step _ _) \<longleftrightarrow> True"
| "ordinary (Event_HashResult _ _) \<longleftrightarrow> True"
| "ordinary (Event_RequestPersisted _) \<longleftrightarrow> True"
| "ordinary _ \<longleftrightarrow> False"

lemma handleEvent_does:
  assumes "handleEvent psize peq ev sp = Some (sp', out)" "ordinary ev"
  shows "does nodeAct (spCommitState sp) out (spCommitState sp')"
proof (cases "ev = Event_TickElapsed")
  case True
  with assms show ?thesis by (simp add: tickElapsed_does)
next
  case False
  with assms show ?thesis
    by (cases ev)
      (auto simp: handleEvent_def dest!: sm_step_does processHashResult_does onClients_does [OF _ chd_applyNewRequest_out])
qed

lemma result_sends:
  assumes "cs_applyCheckpointResult ec r cs p = Some (cs', p', out)"
  shows "writeAhead out" "commits_of out = []"
  using assms
  by (auto simp: cs_applyCheckpointResult_def bind_eq_Some_conv Let_def addCEntry_def appendLogEntry_Some
      writeAhead_def entriesOf_def split: if_splits)

lemma processCheckpointResult_sends:
  assumes "processCheckpointResult psize r sp = Some (sp', out)"
  shows "writeAhead out"
proof -
  have "pred_option (\<lambda>(sp', out). writeAhead out) (processCheckpointResult psize r sp)"
    by (auto simp: processCheckpointResult_def Let_def pred_bind result_sends
        intro!: writeAhead_append dest!: onClients_does [OF _ chd_allocate_out] does_writeAhead)
  then show ?thesis by (simp add: assms)
qed

lemma reinitialize_clients_sends: "onClients (chd_reinitialize sn ns) sp = Some (sp', out) \<Longrightarrow> writeAhead out"
  by (erule does_writeAhead [OF onClients_does]) (rule chd_reinitialize_out)

lemma reinitialize_tracker_sends: "onTracker (tr_reinitialize psize peq) sp = Some (sp', out) \<Longrightarrow> writeAhead out"
  by (erule does_writeAhead [OF onTracker_does]) (rule tr_reinitialize_does)

lemma sm_reinitialize_sends:
  assumes "sm_reinitialize psize peq sp = Some (sp', out)"
  shows "writeAhead out"
proof -
  from assms obtain sp1 a1 p cs cs' a2 sp2 sp3 a3 sp4 a4 sn ns where
    "recoverLog sp = Some (sp1, a1)" "cs_reinitialize p cs = Some (cs', a2)"
    "onClients (chd_reinitialize sn ns) sp2 = Some (sp3, a3)" "onTracker (tr_reinitialize psize peq) sp4 = Some (sp', a4)"
    and out: "out = ((a1 @ a2) @ a3) @ a4"
    by (auto simp: sm_reinitialize_def bind_eq_Some_conv Let_def)
  then have "writeAhead a1" "writeAhead a2" "writeAhead a3" "writeAhead a4"
    by (blast intro: recoverLog_sends cs_reinitialize_sends reinitialize_clients_sends reinitialize_tracker_sends)+
  then show ?thesis unfolding out by (intro writeAhead_append)
qed

lemma writeAhead_write: "writeAhead out \<Longrightarrow> writeAhead (Action_AppendWriteAhead i e # out)"
  using writeAhead_append [OF writeAhead_other [of "[Action_AppendWriteAhead i e]"]] by simp

lemma handleEvent_sends:
  assumes "handleEvent psize peq ev sp = Some (sp', out)"
  shows "writeAhead out"
proof (cases "ordinary ev")
  case True
  with assms show ?thesis by (blast intro: does_writeAhead handleEvent_does)
next
  case False
  with assms show ?thesis
    by (cases ev)
      (auto simp: handleEvent_def bind_eq_Some_conv addCEntry_def appendLogEntry_Some processCheckpointResult_sends
        intro!: writeAhead_write dest: sm_reinitialize_sends)
qed

lemma drainLoop_sends: "drainLoop ci cs = Some (cs', out) \<Longrightarrow> sends_of out = []"
proof (induction ci cs arbitrary: cs' out rule: drainLoop.induct)
  case (1 ci cs)
  have chk: "drainCheckpoint ci cs = Some (cs1, a) \<Longrightarrow> sends_of a = []" for cs1 a
    by (auto simp: drainCheckpoint_def bind_eq_Some_conv split: if_splits)
  from 1(2) 1(1) show ?case
    by (subst (asm) drainLoop.simps) (auto split: if_splits option.splits prod.splits dest: chk)
qed

lemma drain_sends: "drain cs = Some (cs', out) \<Longrightarrow> writeAhead out"
  by (auto simp: drain_def bind_eq_Some_conv intro!: writeAhead_other dest: drainLoop_sends)

lemma advanceLoop_sends: "advanceLoop psize peq sp = Some r \<Longrightarrow> writeAhead (snd r)"
proof (induction psize peq sp r rule: advanceLoop.raw_induct [rotated, consumes 1])
  case (1 f psize peq sp r)
  from 1(2) obtain cs a1 sp1 a2 where dr: "drain (spCommitState sp) = Some (cs, a1)"
    and adv: "onTracker (tr_advanceState psize peq) (putCommitState cs sp) = Some (sp1, a2)"
    and rest: "r = (sp1, a1) \<or> (\<exists>r'. f psize peq sp1 = Some r' \<and> r = (fst r', (a1 @ a2) @ snd r'))"
    by (auto simp: bind_eq_Some_conv split: if_splits)
  have "writeAhead a2" by (rule does_writeAhead [OF onTracker_does [OF adv]]) (rule tr_advanceState_does)
  with rest drain_sends [OF dr] 1(1) show ?case by (auto intro!: writeAhead_append)
qed

lemma event_writeAhead:
  assumes "applyEvent psize peq event sm = Some (sm', actions)"
  shows "writeAhead actions"
proof (cases "ordinary event \<or> (\<exists>r. event = Event_CheckpointResult r) \<or> (\<exists>n v s. event = Event_StateTransferComplete n v s)")
  case True
  then obtain sp sp1 a1 sp2 a2 sp3 a3 where "handleEvent psize peq event sp = Some (sp1, a1)"
    "moveWatermark psize sp1 = Some (sp2, a2)" "advanceLoop psize peq sp2 = Some (sp3, a3)"
    and out: "actions = (a1 @ a2) @ a3"
    using assms by (cases event) (auto simp: applyEvent_def bind_eq_Some_conv)
  then show ?thesis
    unfolding out using handleEvent_sends moveWatermark_does does_writeAhead advanceLoop_sends
    by (intro writeAhead_append) fastforce+
next
  case False
  with assms show ?thesis
    by (cases event)
      (auto simp: applyEvent_def completeInitialization_def handleEvent_def bind_eq_Some_conv dest: sm_reinitialize_sends)
qed

text \<open>Nothing is said that is not written down: whatever the state, the actions of an event contain, with
  every preprepare, prepare, commit, echo, checkpoint and suspicion that is to be sent, the log
  entry that records it.\<close>

theorem votes_are_logged:
  assumes "applyEvent psize peq event sm = Some (sm', actions)"
    and "(targets, msg) \<in> set (sends_of actions)"
  shows "backed (entriesOf actions) msg"
  using event_writeAhead [OF assms(1)] assms(2) by (auto simp: writeAhead_def)

lemma started_begunLog:
  "map_option (\<lambda>(sm, acts). (smState sm, sends_of acts)) (started begunLog) = Some (smInitialized, [([0], Msg_Suspect 1)])"
  by code_simp

theorem votes_are_logged_witness:
  "\<exists>sm sm' actions. applyEvent (\<lambda>_. 1) (=) Event_CompleteInitialization sm = Some (sm', actions) \<and>
     ([0], Msg_Suspect 1) \<in> set (sends_of actions) \<and> backed (entriesOf actions) (Msg_Suspect 1)"
proof -
  from started_begunLog obtain sm sm' actions where
    e: "applyEvent (\<lambda>_. 1) (=) Event_CompleteInitialization sm = Some (sm', actions)"
    and s: "sends_of actions = [([0], Msg_Suspect 1)]"
    by (auto simp: started_def bind_eq_Some_conv)
  from s have m: "([0], Msg_Suspect 1) \<in> set (sends_of actions)" by simp
  from e m votes_are_logged [OF e m] show ?thesis by blast
qed

section \<open>Commits of a run\<close>

definition progress :: "u64 \<Rightarrow> commitState \<Rightarrow> ActionList \<Rightarrow> commitState \<Rightarrow> bool" where
  "progress ci cs out cs' \<longleftrightarrow> csInv ci cs \<longrightarrow> csInv ci cs' \<and> csLastAppliedCommit cs \<le> csLastAppliedCommit cs' \<and>
     map qeSeqNo (commits_of out) =
       consecutive (csLastAppliedCommit cs) (unat (csLastAppliedCommit cs') - unat (csLastAppliedCommit cs))"

lemma progress_trans:
  assumes "progress ci a x b" "progress ci b y c"
  shows "progress ci a (x @ y) c"
  unfolding progress_def
proof
  assume "csInv ci a"
  with assms(1) have b: "csInv ci b" "csLastAppliedCommit a \<le> csLastAppliedCommit b"
    "map qeSeqNo (commits_of x) = consecutive (csLastAppliedCommit a) (unat (csLastAppliedCommit b) - unat (csLastAppliedCommit a))"
    by (simp_all add: progress_def)
  with assms(2) have c: "csInv ci c" "csLastAppliedCommit b \<le> csLastAppliedCommit c"
    "map qeSeqNo (commits_of y) = consecutive (csLastAppliedCommit b) (unat (csLastAppliedCommit c) - unat (csLastAppliedCommit b))"
    by (simp_all add: progress_def)
  let ?a = "unat (csLastAppliedCommit a)" let ?b = "unat (csLastAppliedCommit b)" let ?c = "unat (csLastAppliedCommit c)"
  have "csLastAppliedCommit b = csLastAppliedCommit a + of_nat (?b - ?a)"
    using b(2) by (simp add: of_nat_diff word_le_nat_alt)
  then have "map qeSeqNo (commits_of (x @ y)) = consecutive (csLastAppliedCommit a) (?b - ?a + (?c - ?b))"
    using b(3) c(3) consecutive_append [of "csLastAppliedCommit a" "?b - ?a" "?c - ?b"] by simp
  then show "csInv ci c \<and> csLastAppliedCommit a \<le> csLastAppliedCommit c \<and>
      map qeSeqNo (commits_of (x @ y)) = consecutive (csLastAppliedCommit a) (?c - ?a)"
    using b(2) c(1,2) by (auto simp: word_le_nat_alt)
qed

lemma progress_still:
  assumes "commits_of out = []" "csInv ci cs \<Longrightarrow> csInv ci cs'" "csInv ci cs \<Longrightarrow> csLastAppliedCommit cs' = csLastAppliedCommit cs"
  shows "progress ci cs out cs'"
  using assms by (auto simp: progress_def consecutive_def)

lemma csMove_inv:
  assumes "csMove cs cs'"
  shows "csInv ci cs \<longrightarrow> csInv ci cs' \<and> csLastAppliedCommit cs' = csLastAppliedCommit cs"
  using assms unfolding csMove_def
proof (induction rule: rtranclp_induct)
  case (step a b)
  have "csInv ci a \<Longrightarrow> csInv ci (a\<lparr>csTransferring := True\<rparr>)" by (simp add: csInv_def)
  with step show ?case using commit_inv [of ci a _ b] by auto
qed simp

lemma nodeAct_commits: "list_all nodeAct out \<Longrightarrow> commits_of out = []"
  by (induction out) (auto split: Action.splits)

lemma does_progress: "does nodeAct cs out cs' \<Longrightarrow> progress ci cs out cs'"
  using csMove_inv [of cs cs' ci] by (auto simp: does_def nodeAct_commits intro!: progress_still)

lemma drain_progress:
  assumes "drain cs = Some (cs', out)"
  shows "progress ci cs out cs'"
  unfolding progress_def
proof
  assume inv: "csInv ci cs"
  have d: "drained ci cs cs' out" "csInv ci cs'" using drain_run [OF inv assms] by simp_all
  then show "csInv ci cs' \<and> csLastAppliedCommit cs \<le> csLastAppliedCommit cs' \<and> map qeSeqNo (commits_of out) =
      consecutive (csLastAppliedCommit cs) (unat (csLastAppliedCommit cs') - unat (csLastAppliedCommit cs))"
    using drained_commits(1) [OF inv d(1)] by (simp add: drained_def)
qed

text \<open>A checkpoint result the state machine may be given: one that is old, or the result of the checkpoint that
  was asked for, with the checkpoint interval unchanged and room for another interval.\<close>

definition resultExpected :: "u64 \<Rightarrow> CheckpointResult \<Rightarrow> commitState \<Rightarrow> bool" where
  "resultExpected ci r cs \<longleftrightarrow> crSeqNo r < csLowWatermark cs \<or> csTransferring cs \<or>
     csCheckpointPending cs \<and> checkpointInterval (nsConfig (crNetworkState r)) = ci \<and>
     uint (csLowWatermark cs) + 3 * uint ci < 2 ^ 64"

lemma result_progress:
  assumes r: "cs_applyCheckpointResult ec r cs p = Some (cs', p', out)" and ex: "resultExpected ci r cs"
    and new: "\<not> crSeqNo r < csLowWatermark cs"
  shows "progress ci cs out cs'"
proof (cases "csTransferring cs")
  case True
  with r show ?thesis by (auto simp: cs_applyCheckpointResult_def bind_eq_Some_conv intro: progress_still)
next
  case False
  with ex new have ok: "csCheckpointPending cs" "checkpointInterval (nsConfig (crNetworkState r)) = ci"
    and "uint (csLowWatermark cs) + 3 * uint ci < 2 ^ 64" by (simp_all add: resultExpected_def)
  then have "int (unat (csLowWatermark cs) + 3 * unat ci) < int (2 ^ 64)" by simp
  then have "unat (csLowWatermark cs) + 3 * unat ci < 2 ^ 64" by (simp only: of_nat_less_iff)
  with ok show ?thesis using result_inv [OF _ r False] by (intro progress_still) (use result_sends [OF r] in auto)
qed

lemma processCheckpointResult_progress:
  assumes "processCheckpointResult psize r sp = Some (sp', out)" "resultExpected ci r (spCommitState sp)"
  shows "progress ci (spCommitState sp) out (spCommitState sp')"
proof (cases "crSeqNo r < csLowWatermark (spCommitState sp)")
  case True
  with assms(1) show ?thesis by (auto simp: processCheckpointResult_def Let_def intro: progress_still)
next
  case False
  with assms(1) obtain ec cs p a1 where r: "cs_applyCheckpointResult ec r (spCommitState sp) (twPersisted (spWorld sp)) = Some (cs, p, a1)"
    and rest: "(spCommitState sp' = cs \<and> out = a1) \<or> (\<exists>sp1 a2. spCommitState sp1 = cs \<and>
      onClients (chd_allocate psize (crSeqNo r) (crNetworkState r)) sp1 = Some (sp', a2) \<and> out = a1 @ a2)"
    by (auto simp: processCheckpointResult_def Let_def bind_eq_Some_conv split: if_splits) fastforce+
  note p = result_progress [OF r assms(2) False]
  from rest show ?thesis
  proof (elim disjE exE conjE)
    fix sp1 a2
    assume "spCommitState sp1 = cs" "onClients (chd_allocate psize (crSeqNo r) (crNetworkState r)) sp1 = Some (sp', a2)"
      and out: "out = a1 @ a2"
    then have "progress ci cs a2 (spCommitState sp')"
      by (metis does_progress onClients_does chd_allocate_out)
    with p out show ?thesis by (auto intro: progress_trans)
  qed (use p in simp)
qed

lemma advanceLoop_progress:
  "advanceLoop psize peq sp = Some r \<Longrightarrow> progress ci (spCommitState sp) (snd r) (spCommitState (fst r))"
proof (induction psize peq sp r rule: advanceLoop.raw_induct [rotated, consumes 1])
  case (1 f psize peq sp r)
  from 1(2) obtain cs a1 sp1 a2 where dr: "drain (spCommitState sp) = Some (cs, a1)"
    and adv: "onTracker (tr_advanceState psize peq) (putCommitState cs sp) = Some (sp1, a2)"
    and rest: "a2 = [] \<and> r = (sp1, a1) \<or> (\<exists>r'. f psize peq sp1 = Some r' \<and> r = (fst r', (a1 @ a2) @ snd r'))"
    by (auto simp: bind_eq_Some_conv split: if_splits)
  have "does nodeAct (spCommitState (putCommitState cs sp)) a2 (spCommitState sp1)"
    by (rule onTracker_does [OF adv]) (rule tr_advanceState_does)
  then have p: "progress ci (spCommitState sp) (a1 @ a2) (spCommitState sp1)"
    by (intro progress_trans [OF drain_progress [OF dr]]) (simp add: does_progress)
  from rest show ?case
  proof (elim disjE exE conjE)
    fix r' assume "f psize peq sp1 = Some r'" and r: "r = (fst r', (a1 @ a2) @ snd r')"
    from progress_trans [OF p 1(1) [OF this(1)]] r show ?thesis by simp
  qed (use p in simp)
qed

fun expected :: "u64 \<Rightarrow> Event \<Rightarrow> StateMachine \<Rightarrow> bool" where
  "expected ci (Event_CheckpointResult r) sm =
     (case smParts sm of None \<Rightarrow> False | Some sp \<Rightarrow> resultExpected ci r (spCommitState sp))"
| "expected ci event sm = ordinary event"

inductive smRun :: "(Msg \<Rightarrow> nat) \<Rightarrow> protoEqual \<Rightarrow> u64 \<Rightarrow> StateMachine \<Rightarrow> ActionList \<Rightarrow> StateMachine \<Rightarrow> bool"
  for psize peq ci sm0 where
  start: "smRun psize peq ci sm0 [] sm0"
| step: "smRun psize peq ci sm0 acts sm \<Longrightarrow> expected ci event sm \<Longrightarrow> applyEvent psize peq event sm = Some (sm', out) \<Longrightarrow>
    smRun psize peq ci sm0 (acts @ out) sm'"

lemma applyEvent_progress:
  assumes "applyEvent psize peq event sm = Some (sm', out)" "expected ci event sm" "smParts sm = Some sp"
  shows "\<exists>sp'. smParts sm' = Some sp' \<and> progress ci (spCommitState sp) out (spCommitState sp')"
proof -
  from assms obtain sp1 a1 sp2 a2 sp3 a3 where h: "handleEvent psize peq event sp = Some (sp1, a1)"
    and m: "moveWatermark psize sp1 = Some (sp2, a2)" and l: "advanceLoop psize peq sp2 = Some (sp3, a3)"
    and out: "out = (a1 @ a2) @ a3" and sm': "smParts sm' = Some sp3"
    by (cases event) (auto simp: applyEvent_def bind_eq_Some_conv)
  have "progress ci (spCommitState sp) a1 (spCommitState sp1)"
  proof (cases "ordinary event")
    case True
    then show ?thesis using handleEvent_does [OF h] by (simp add: does_progress)
  next
    case False
    with assms(2,3) h show ?thesis
      by (cases event) (auto simp: handleEvent_def intro: processCheckpointResult_progress)
  qed
  moreover have "progress ci (spCommitState sp1) a2 (spCommitState sp2)" by (rule does_progress [OF moveWatermark_does [OF m]])
  moreover have "progress ci (spCommitState sp2) a3 (spCommitState sp3)" using advanceLoop_progress [OF l] by simp
  ultimately show ?thesis unfolding out using sm' by (blast intro: progress_trans)
qed

lemma smRun_progress:
  assumes "smRun psize peq ci sm0 acts sm" "smParts sm0 = Some sp0"
  shows "\<exists>sp. smParts sm = Some sp \<and> progress ci (spCommitState sp0) acts (spCommitState sp)"
  using assms
proof (induction rule: smRun.induct)
  case start
  then show ?case by (auto intro: progress_still)
next
  case (step acts sm event sm' out)
  then obtain sp where sp: "smParts sm = Some sp" "progress ci (spCommitState sp0) acts (spCommitState sp)" by auto
  from applyEvent_progress [OF step(3,2) sp(1)] sp(2) show ?case by (blast intro: progress_trans)
qed

text \<open>The application is handed the committed entries in order and without a gap by the node as a whole:
  over any sequence of events short of a state transfer, whatever messages arrive, the sequence numbers of the
  commit actions are the consecutive ones after the last that was applied, up to the last applied now.\<close>

theorem node_commits_in_order:
  assumes "smRun psize peq ci sm0 actions sm"
    and "smParts sm0 = Some sp0" "csInv ci (spCommitState sp0)" "smParts sm = Some sp"
  shows "map qeSeqNo (commits_of actions) = consecutive (csLastAppliedCommit (spCommitState sp0))
    (unat (csLastAppliedCommit (spCommitState sp)) - unat (csLastAppliedCommit (spCommitState sp0)))"
  using smRun_progress [OF assms(1,2)] assms(3,4) by (auto simp: progress_def)

text \<open>The example: the node of the new network after the sequences 1 and 2 were committed.\<close>

definition oneQ :: "u64 \<Rightarrow> QEntry" where
  "oneQ n = \<lparr>qeSeqNo = n, qeDigest = None, qeRequests = []\<rparr>"

definition oneParts :: "smParts option" where
  "oneParts = do {
     (sm, _) \<leftarrow> started newLog;
     sp \<leftarrow> smParts sm;
     cs \<leftarrow> commit (oneQ 1) (spCommitState sp);
     cs \<leftarrow> commit (oneQ 2) cs;
     Some (putCommitState cs sp)
   }"

definition oneMachine :: StateMachine where
  "oneMachine = \<lparr>smState = smInitialized, smParts = oneParts\<rparr>"

lemma oneParts_fields:
  "map_option (\<lambda>sp. let cs = spCommitState sp in
       (csLowWatermark cs, csLastAppliedCommit cs, csStopAtSeqNo cs, csCheckpointPending cs)) oneParts =
     Some (0, 0, 4, False)"
  "map_option (\<lambda>sp. let cs = spCommitState sp in (csLowerHalfCommits cs, csUpperHalfCommits cs)) oneParts =
     Some ([Some (oneQ 1), Some (oneQ 2)], [None, None])"
  "map_option (\<lambda>sp. map_option (checkpointInterval \<circ> nsConfig) (csActiveState (spCommitState sp))) oneParts = Some (Some 2)"
  by code_simp+

lemma oneParts_inv:
  assumes "oneParts = Some sp"
  shows "csInv 2 (spCommitState sp)"
proof -
  have "slotsOk 0 [Some (oneQ 1), Some (oneQ 2)]"
    by (auto simp: slotsOk_def oneQ_def less_Suc_eq nth_Cons')
  moreover have "slotsOk (0 + 2) [None, None]" by (auto simp: slotsOk_def less_Suc_eq nth_Cons')
  ultimately show ?thesis using oneParts_fields [unfolded assms option.map] by (simp add: csInv_def Let_def)
qed

lemma oneMachine_tick:
  "map_option (\<lambda>(sm, acts). (smParts sm \<noteq> None, map qeSeqNo (commits_of acts)))
     (applyEvent (\<lambda>_. 1) (=) Event_TickElapsed oneMachine) = Some (True, [1, 2])"
  by code_simp

theorem node_commits_in_order_witness:
  "\<exists>actions sm sp. smRun (\<lambda>_. 1) (=) 2 oneMachine actions sm \<and> smParts sm = Some sp \<and>
     map qeSeqNo (commits_of actions) = [1, 2] \<and>
     consecutive 0 (unat (csLastAppliedCommit (spCommitState sp))) = [1, 2]"
proof -
  from oneMachine_tick obtain sm actions sp where
    e: "applyEvent (\<lambda>_. 1) (=) Event_TickElapsed oneMachine = Some (sm, actions)" and sp: "smParts sm = Some sp"
    and c: "map qeSeqNo (commits_of actions) = [1, 2]"
    by auto
  obtain sp0 where sp0: "oneParts = Some sp0" "csLastAppliedCommit (spCommitState sp0) = 0"
    using oneParts_fields(1) by (auto simp: Let_def)
  have run: "smRun (\<lambda>_. 1) (=) 2 oneMachine actions sm"
    using smRun.step [OF smRun.start _ e] by simp
  have "smParts oneMachine = Some sp0" by (simp add: oneMachine_def sp0)
  from node_commits_in_order [OF run this oneParts_inv [OF sp0(1)] sp] sp0(2) c run sp show ?thesis by auto
qed

end
