(* ===== verification/Mir_Recovery.thy ===== *)
theory Mir_Recovery
  imports Mir_Node
begin

text \<open>
  Restarts, slow nodes and the places where the epoch change lets a node down: where a resumed epoch starts,
  what happens when it does, and which nodes can make another one leave its epoch.
\<close>

section \<open>Where a resumed epoch starts\<close>

lemma alignStart_step:
  "1 < ci \<Longrightarrow> s mod ci \<noteq> 1 \<Longrightarrow> alignStart ci s m = alignStart ci (s + 1) True"
  by (subst alignStart.simps) auto

lemma alignStart_stop: "0 < ci \<Longrightarrow> s mod ci = 1 \<Longrightarrow> alignStart ci s m = Some (s, m)"
  by (subst alignStart.simps) auto

lemma alignStart_walk:
  assumes "1 < ci" and "(s + of_nat k) mod ci = 1" and "\<forall>j < k. (s + of_nat j) mod ci \<noteq> 1"
  shows "alignStart ci s m = Some (s + of_nat k, m \<or> 0 < k)"
  using assms(2,3)
proof (induction k arbitrary: s m)
  case 0
  have "0 < ci" using assms(1) by (cases "ci = 0") (auto simp: word_gt_0)
  with 0 show ?case using alignStart_stop [of ci s m] by simp
next
  case (Suc k)
  have "s mod ci \<noteq> 1" using Suc.prems(2) [rule_format, of 0] by simp
  moreover have "(s + 1 + of_nat j) mod ci \<noteq> 1" if "j < k" for j
    using Suc.prems(2) [rule_format, of "Suc j"] that by (simp add: algebra_simps)
  moreover have "(s + 1 + of_nat k) mod ci = 1" using Suc.prems(1) by (simp add: algebra_simps)
  ultimately have "alignStart ci (s + 1) True = Some (s + 1 + of_nat k, True)" using Suc.IH [of "s + 1" True] by simp
  then show ?case using alignStart_step [OF assms(1) \<open>s mod ci \<noteq> 1\<close>] by (simp add: algebra_simps)
qed

lemma aligned_soon:
  assumes "1 < (ci :: u64)" "unat s + unat ci < 2 ^ 64"
  shows "\<exists>k < unat ci. (s + of_nat k) mod ci = 1"
proof -
  define c where "c = unat ci"
  define k where "k = (c + 1 - unat s mod c) mod c"
  have c: "1 < c" using assms(1) by (simp add: c_def word_less_nat_alt)
  then have "k < c" by (simp add: k_def)
  have "(unat s + k) mod c = (unat s mod c + (c + 1 - unat s mod c)) mod c"
    unfolding k_def by (simp only: mod_add_left_eq mod_add_right_eq)
  also have "unat s mod c + (c + 1 - unat s mod c) = c + 1" using c mod_less_divisor [of c "unat s"] by linarith
  also have "(c + 1) mod c = 1" using c by (simp only: mod_add_self1 mod_less)
  finally have "(unat s + k) mod c = 1" .
  moreover have "unat (s + of_nat k) = unat s + k"
    using assms(2) \<open>k < c\<close> by (simp add: unat_word_ariths c_def unat_of_nat)
  ultimately have "unat ((s + of_nat k) mod ci) = 1" by (simp add: unat_mod_distrib c_def)
  then have "(s + of_nat k) mod ci = 1" by (metis unsigned_1 unsigned_word_eqI)
  with \<open>k < c\<close> show ?thesis by (auto simp: c_def)
qed

text \<open>C31. A resumed epoch starts at the first sequence number at or above the given one that follows a
  checkpoint, and the loop that looks for it ends, within an interval; with a checkpoint interval of one it
  never ends.\<close>

theorem alignStart_ends:
  "(1 < ci \<and> unat s + unat ci < 2 ^ 64 \<longrightarrow>
     (\<exists>k < unat ci. alignStart ci s moved = Some (s + of_nat k, moved \<or> 0 < k) \<and>
        (s + of_nat k) mod ci = 1 \<and> (\<forall>j < k. (s + of_nat j) mod ci \<noteq> 1))) \<and>
   alignStart 1 s moved = None"
proof
  show "1 < ci \<and> unat s + unat ci < 2 ^ 64 \<longrightarrow>
     (\<exists>k < unat ci. alignStart ci s moved = Some (s + of_nat k, moved \<or> 0 < k) \<and>
        (s + of_nat k) mod ci = 1 \<and> (\<forall>j < k. (s + of_nat j) mod ci \<noteq> 1))"
  proof safe
    assume ci: "1 < ci" and room: "unat s + unat ci < 2 ^ 64"
    define k where "k = (LEAST k. (s + of_nat k) mod ci = 1)"
    obtain k0 where "k0 < unat ci" "(s + of_nat k0) mod ci = 1" using aligned_soon [OF ci room] by blast
    then have k: "(s + of_nat k) mod ci = 1" "k < unat ci" "\<forall>j < k. (s + of_nat j) mod ci \<noteq> 1"
      unfolding k_def by (auto intro: LeastI dest: not_less_Least) (meson Least_le le_less_trans)
    with alignStart_walk [OF ci k(1,3)] show "\<exists>k < unat ci. alignStart ci s moved = Some (s + of_nat k, moved \<or> 0 < k) \<and>
        (s + of_nat k) mod ci = 1 \<and> (\<forall>j < k. (s + of_nat j) mod ci \<noteq> 1)" by blast
  qed
  have "alignStart ci s moved = Some r \<Longrightarrow> ci \<noteq> 1" for ci s moved r
    by (induction ci s moved r rule: alignStart.raw_induct [rotated, consumes 1]) (auto split: if_splits)
  then show "alignStart 1 s moved = None" by (metis not_None_eq)
qed

theorem alignStart_ends_witness: "alignStart 5 8 False = Some (11, True) \<and> alignStart 1 8 False = None"
proof -
  have "\<exists>k < 5. alignStart 5 8 False = Some (8 + of_nat k, False \<or> 0 < k) \<and> (8 + of_nat k :: u64) mod 5 = 1"
    using alignStart_ends [of 5 8 False] by auto
  then obtain k where k: "k < 5" "alignStart 5 8 False = Some (8 + of_nat k, False \<or> 0 < k)" "(8 + of_nat k :: u64) mod 5 = 1" by blast
  from k(1) consider "k = 0" | "k = 1" | "k = 2" | "k = 3" | "k = 4" by linarith
  then have "k = 3" using k(3) by cases simp_all
  with k(2) alignStart_ends [of 1 8 False] show ?thesis by simp
qed

section \<open>Resuming an epoch after a restart\<close>

text \<open>C38. A node that resumes an epoch after a restart cannot start it: once the sequences before its starting
  point are behind a checkpoint, the next step of the epoch tracker panics, because the configuration of the new
  epoch is not restored.\<close>

theorem resumed_epoch_panics:
  assumes resume: "resumeEpoch lastN highestPreprepared nc s = Some (s', out)"
    and start: "alignStart (scast (ncCheckpointInterval nc)) (highestPreprepared + 1) False = Some (start, moved)"
    and low: "csLowWatermark (trCs s) + 1 = start" and stop: "start \<le> csStopAtSeqNo (trCs s)"
  shows "tr_advanceState psize peq s' = None"
proof -
  from resume start obtain et w where s': "trCurrentEpoch (fst s') = Some et" "snd s' = w"
    and cs: "twCommitState w = trCs s"
    and et: "etState et = etResuming" "etNetworkNewEpoch et = None" "etStartingSeqNo et = start"
    by (auto simp: resumeEpoch_def newEpochTarget_def bind_eq_Some_conv Let_def logging_def)
  have ready: "checkEpochResumed (et, w) = (et\<lparr>etState := etReady\<rparr>, w)"
    using low stop by (simp add: checkEpochResumed_def Let_def cs et not_less)
  have "et_advanceState psize peq (et\<lparr>etState := etReady\<rparr>, w) = None"
    by (subst et_advanceState.simps) (simp add: advanceRound_def startEpoch_def et)
  then have "et_advanceState psize peq (et, w) = None"
    by (subst et_advanceState.simps) (simp add: advanceRound_def ready et)
  then show ?thesis by (simp add: tr_advanceState_def s' onCurrent_def et etRank_order)
qed

text \<open>The node of the one-node network that had begun epoch 1 and preprepared nothing: after the restart, any tick
  is its end.\<close>

theorem resumed_epoch_panics_witness:
  "\<exists>s s' out. resumeEpoch \<lparr>neSeqNo = 1, neEpochConfig = \<lparr>epNumber = 1, epLeaders = [0], epPlannedExpiration = 100\<rparr>\<rparr> 0 oneNode s =
       Some (s', out) \<and> tr_advanceState (\<lambda>_. 1) (=) s' = None"
proof -
  let ?n = "\<lparr>neSeqNo = 1, neEpochConfig = \<lparr>epNumber = 1, epLeaders = [0], epPlannedExpiration = 100\<rparr>\<rparr>"
  have *: "map_option (\<lambda>sm. map_option (\<lambda>sp. (csLowWatermark (spCommitState sp), csStopAtSeqNo (spCommitState sp),
       resumeEpoch ?n 0 oneNode (spEpochTracker sp, spWorld sp) \<noteq> None)) (smParts (fst sm))) (started newLog) =
       Some (Some (0, 4, True))"
    by code_simp
  have a: "alignStart (scast (ncCheckpointInterval oneNode)) (0 + 1) False = Some (1, False)" by code_simp
  from * obtain s s' out where "csLowWatermark (trCs s) = 0" "csStopAtSeqNo (trCs s) = 4"
    and r: "resumeEpoch ?n 0 oneNode s = Some (s', out)" by force
  then have "tr_advanceState (\<lambda>_. 1) (=) s' = None" by (intro resumed_epoch_panics [OF r a]) simp_all
  with r show ?thesis by blast
qed

lemma restarted_node_dies:
  "map_option (\<lambda>(sm, _). Option.is_none (applyEvent (\<lambda>_. 1) (=) Event_TickElapsed sm)) (started begunLog) = Some True"
  by code_simp

section \<open>A checkpoint that is lost\<close>

inductive commitRun :: "commitState \<Rightarrow> ActionList \<Rightarrow> commitState \<Rightarrow> bool" for cs0 where
  start: "commitRun cs0 [] cs0"
| committed: "commitRun cs0 acts cs \<Longrightarrow> commit q cs = Some cs' \<Longrightarrow> commitRun cs0 acts cs'"
| drained: "commitRun cs0 acts cs \<Longrightarrow> drain cs = Some (cs', out) \<Longrightarrow> commitRun cs0 (acts @ out) cs'"

lemma drainLoop_pending:
  "drainLoop ci cs = Some (cs', out) \<Longrightarrow> csCheckpointPending cs \<Longrightarrow> csCheckpointPending cs' \<and> checkpoints_of out = []"
proof (induction ci cs arbitrary: cs' out rule: drainLoop.induct)
  case (1 ci cs)
  have chk: "drainCheckpoint ci cs = Some (cs, [])" using 1(3) by (simp add: drainCheckpoint_def)
  have eq: "drainLoop ci cs = (if csLastAppliedCommit cs < csLowWatermark cs + 2 * ci
      then (case drainCommit ci cs of
             None \<Rightarrow> None
           | Some None \<Rightarrow> Some (cs, [])
           | Some (Some (cs2, q)) \<Rightarrow> map_option (\<lambda>(cs3, rest). (cs3, Action_Commit q # rest)) (drainLoop ci cs2))
      else Some (cs, []))"
    by (subst drainLoop.simps) (simp add: chk map_option_case split: option.split)
  show ?case
  proof (cases "\<exists>cs2 q. csLastAppliedCommit cs < csLowWatermark cs + 2 * ci \<and> drainCommit ci cs = Some (Some (cs2, q))")
    case True
    then obtain cs2 q where step: "csLastAppliedCommit cs < csLowWatermark cs + 2 * ci" "drainCommit ci cs = Some (Some (cs2, q))"
      by blast
    with 1(2) obtain rest where rest: "drainLoop ci cs2 = Some (cs', rest)" "out = Action_Commit q # rest"
      by (auto simp: eq)
    have "csCheckpointPending cs2" using drainCommit_frame(6) [OF step(2)] 1(3) by simp
    from 1(1) [OF step(1) chk _ step(2) _ _ rest(1) this] rest(2) show ?thesis by simp
  next
    case False
    with 1(2,3) show ?thesis by (auto simp: eq split: if_splits option.splits prod.splits)
  qed
qed

lemma commit_pending: "commit q cs = Some cs' \<Longrightarrow> csCheckpointPending cs' = csCheckpointPending cs"
  by (auto simp: commit_def bind_eq_Some_conv Let_def split: if_splits option.splits)

text \<open>C37. A state transfer while a checkpoint is pending stops the node: the pending flag survives, so that the
  node never asks for a checkpoint again, whatever it commits.\<close>

theorem transfer_loses_checkpoint:
  assumes "csCheckpointPending cs" and re: "cs_reinitialize p cs = Some (cs0, out)" and run: "commitRun cs0 acts cs1"
  shows "checkpoints_of acts = [] \<and> csCheckpointPending cs1"
proof -
  have "pred_option (\<lambda>(cs', _). csCheckpointPending cs' = csCheckpointPending cs) (cs_reinitialize p cs)"
    by (simp add: cs_reinitialize_def pred_bind Let_def case_prod_beta split: option.split)
  with assms(1) re have "csCheckpointPending cs0" by simp
  from run this show ?thesis
    by (induction rule: commitRun.induct) (auto simp: commit_pending drain_def bind_eq_Some_conv dest!: drainLoop_pending)
qed

lemma commitRun_commits: "commitRun cs0 acts cs \<Longrightarrow> ofold commit qs cs = Some cs' \<Longrightarrow> commitRun cs0 acts cs'"
  by (induction qs arbitrary: cs) (auto split: option.splits intro: commitRun.committed)

text \<open>The example commits up to the middle of the window, where a checkpoint is due.\<close>

definition lostCheckpoint :: "(commitState \<times> ActionList \<times> commitState) option" where
  "lostCheckpoint = do {
     (cs0, _) \<leftarrow> cs_reinitialize sampleCLog (newCommitState\<lparr>csCheckpointPending := True\<rparr>);
     cs \<leftarrow> ofold commit (map oneQ [21, 22, 23, 24, 25]) cs0;
     (cs1, acts) \<leftarrow> drain cs;
     Some (cs0, acts, cs1)
   }"

lemma lostCheckpoint_commits:
  "map_option (\<lambda>(_, acts, _). map qeSeqNo (commits_of acts)) lostCheckpoint = Some [21, 22, 23, 24, 25]"
  by code_simp

theorem transfer_loses_checkpoint_witness:
  "\<exists>cs0 acts cs1. commitRun cs0 acts cs1 \<and> map qeSeqNo (commits_of acts) = [21, 22, 23, 24, 25] \<and>
     checkpoints_of acts = [] \<and> csCheckpointPending cs1"
proof -
  from lostCheckpoint_commits obtain cs0 out cs cs1 acts where
    re: "cs_reinitialize sampleCLog (newCommitState\<lparr>csCheckpointPending := True\<rparr>) = Some (cs0, out)"
    and c: "ofold commit (map oneQ [21, 22, 23, 24, 25]) cs0 = Some cs" and d: "drain cs = Some (cs1, acts)"
    and out: "map qeSeqNo (commits_of acts) = [21, 22, 23, 24, 25]"
    by (auto simp: lostCheckpoint_def bind_eq_Some_conv)
  have run: "commitRun cs0 acts cs1"
    using commitRun.drained [OF commitRun_commits [OF commitRun.start c] d] by simp
  from transfer_loses_checkpoint [OF _ re run] have "checkpoints_of acts = [] \<and> csCheckpointPending cs1" by simp
  with run out show ?thesis by (intro exI [of _ cs0] exI [of _ acts] exI [of _ cs1] conjI) simp_all
qed

section \<open>Leaving an epoch\<close>


definition sampleTracker :: epochTracker where
  "sampleTracker = (newEpochTracker (newNodeBuffers oneParameters) oneParameters)\<lparr>
     trNetworkConfig := Some sampleNet, trCurrentEpoch := newEpochTarget 1 (newNodeBuffers oneParameters) sampleNet oneParameters,
     trMaxEpochs := [(3, 7)], trTicksOutOfCorrectEpoch := 10\<rparr>"


section \<open>Readiness without a record\<close>

lemma set_numbered: "(i, d) \<in> set (numbered ds) \<longleftrightarrow> i < length ds \<and> d = ds ! i"
  by (auto simp: numbered_def in_set_zip intro: exI [of _ i])

lemma logP_entries:
  assumes "ofold (\<lambda>(i, d). logging (addPEntry (f i d))) xs (w, acts) = Some (w', acts')"
  shows "entriesOf acts' = entriesOf acts \<union> {Persistent_PEntry (f i d) |i d. (i, d) \<in> set xs} \<and>
    sends_of acts' = sends_of acts"
  using assms
proof (induction xs arbitrary: w acts)
  case (Cons x xs)
  obtain i d where x: "x = (i, d)" by force
  with Cons.prems obtain w1 a1 where l: "logging (addPEntry (f i d)) (w, acts) = Some (w1, a1)"
    and r: "ofold (\<lambda>(i, d). logging (addPEntry (f i d))) xs (w1, a1) = Some (w', acts')"
    by (auto simp del: addPEntry_def split: option.splits)
  have "entriesOf a1 = insert (Persistent_PEntry (f i d)) (entriesOf acts)" "sends_of a1 = sends_of acts"
    using l by (auto simp: logging_def bind_eq_Some_conv addPEntry_def appendLogEntry_Some) (auto simp: entriesOf_def)
  with Cons.IH [OF r] x show ?case by auto
qed simp


definition sampleNewConfig :: NewEpochConfig where
  "sampleNewConfig = \<lparr>necConfig = \<lparr>epNumber = 1, epLeaders = [0, 1, 2, 3], epPlannedExpiration = 50\<rparr>,
     necStartingCheckpoint = \<lparr>cpSeqNo = 0, cpValue = Some [1]\<rparr>, necFinalPreprepares = [Some [5]]\<rparr>"

definition echoingTarget :: epochTarget where
  "echoingTarget = (the (newEpochTarget 1 (newNodeBuffers oneParameters) sampleNet oneParameters))\<lparr>
     etState := etEchoing, etReadies := [(sampleNewConfig, [1])]\<rparr>"


end
