(* ===== verification/Mir_Processor.thy ===== *)
theory Mir_Processor
  imports Mir_Actions "HOL-Library.Sublist"
begin

text \<open>
  \<open>processor.go\<close>: carrying out the actions of the state machine. The hasher, the link, the application and
  the write-ahead log are interfaces the user of the library implements: the record \<open>services\<close>. Each of
  their answers may depend on all the calls made so far; the calls are the trace \<open>Process\<close> extends.
\<close>

section \<open>Calls and services\<close>

datatype call =
    WAL_Write u64 Persistent
  | WAL_Truncate u64
  | WAL_Sync
  | App_Apply QEntry
  | App_Snap NetworkConfig "ClientState list"
  | App_TransferTo u64 bytes
  | Link_Send u64 Msg

text \<open>The functions that say whether a call fails return the error, if any.\<close>

record 'e services =
  svSum :: "bytes list \<Rightarrow> bytes"
  svWrite :: "call list \<Rightarrow> u64 \<Rightarrow> Persistent \<Rightarrow> 'e option"
  svTruncate :: "call list \<Rightarrow> u64 \<Rightarrow> 'e option"
  svSync :: "call list \<Rightarrow> 'e option"
  svApply :: "call list \<Rightarrow> QEntry \<Rightarrow> 'e option"
  svSnap :: "call list \<Rightarrow> NetworkConfig \<Rightarrow> ClientState list \<Rightarrow> 'e + bytes \<times> Reconfiguration list"
  svTransferTo :: "call list \<Rightarrow> u64 \<Rightarrow> bytes \<Rightarrow> 'e + NetworkState"

datatype 'e processError =
    WriteFailed u64 'e
  | TruncateFailed u64 'e
  | CommitFailed 'e
  | SnapFailed 'e
  | SyncFailed 'e

section \<open>Process\<close>

text \<open>The first loop of \<open>Process\<close>: everything that is not a network send.\<close>

fun processLocal :: "'e services \<Rightarrow> ActionList \<Rightarrow> EventList \<Rightarrow> call list \<Rightarrow> call list \<times> ('e processError + EventList)" where
  "processLocal sv [] events tr = (tr, Inr events)"
| "processLocal sv (action # rest) events tr =
     (case action of
        Action_Hash data origin \<Rightarrow> processLocal sv rest (EventList_HashResult events (svSum sv data) origin) tr
      | Action_AppendWriteAhead index data \<Rightarrow>
          (let tr' = tr @ [WAL_Write index data] in
           case svWrite sv tr index data of
             Some err \<Rightarrow> (tr', Inl (WriteFailed index err))
           | None \<Rightarrow> processLocal sv rest events tr')
      | Action_TruncateWriteAhead index \<Rightarrow>
          (let tr' = tr @ [WAL_Truncate index] in
           case svTruncate sv tr index of
             Some err \<Rightarrow> (tr', Inl (TruncateFailed index err))
           | None \<Rightarrow> processLocal sv rest events tr')
      | Action_Commit batch \<Rightarrow>
          (let tr' = tr @ [App_Apply batch] in
           case svApply sv tr batch of
             Some err \<Rightarrow> (tr', Inl (CommitFailed err))
           | None \<Rightarrow> processLocal sv rest events tr')
      | Action_Checkpoint seqNo networkConfig clientStates \<Rightarrow>
          (let tr' = tr @ [App_Snap networkConfig clientStates] in
           case svSnap sv tr networkConfig clientStates of
             Inl err \<Rightarrow> (tr', Inl (SnapFailed err))
           | Inr (value, pendingReconf) \<Rightarrow>
               processLocal sv rest (EventList_CheckpointResult events value pendingReconf seqNo networkConfig clientStates) tr')
      | Action_StateTransfer seqNo value \<Rightarrow>
          (let tr' = tr @ [App_TransferTo seqNo value] in
           case svTransferTo sv tr seqNo value of
             Inl _ \<Rightarrow> processLocal sv rest (EventList_StateTransferFailed events seqNo value) tr'
           | Inr state \<Rightarrow> processLocal sv rest (EventList_StateTransferComplete events state seqNo value) tr')
      | _ \<Rightarrow> processLocal sv rest events tr)"

text \<open>The second loop: a message to the node itself becomes an event.\<close>

definition transmitTo :: "u64 \<Rightarrow> Msg \<Rightarrow> u64 \<Rightarrow> EventList \<times> call list \<Rightarrow> EventList \<times> call list" where
  [go_defs]: "transmitTo nodeID msg replica s =
     (case s of (events, tr) \<Rightarrow>
        if replica = nodeID then (EventList_Step events replica msg, tr) else (events, tr @ [Link_Send replica msg]))"

fun transmit :: "u64 \<Rightarrow> ActionList \<Rightarrow> EventList \<times> call list \<Rightarrow> EventList \<times> call list" where
  "transmit nodeID [] s = s"
| "transmit nodeID (action # rest) s =
     transmit nodeID rest
       (case action of Action_Send targets msg \<Rightarrow> fold (transmitTo nodeID msg) targets s | _ \<Rightarrow> s)"

definition Process :: "'e services \<Rightarrow> u64 \<Rightarrow> ActionList \<Rightarrow> call list \<Rightarrow> call list \<times> ('e processError + EventList)" where
  [go_defs]: "Process sv nodeID actions tr =
     (case processLocal sv actions [] tr of
        (tr, Inl err) \<Rightarrow> (tr, Inl err)
      | (tr, Inr events) \<Rightarrow>
          (case svSync sv tr of
             Some err \<Rightarrow> (tr @ [WAL_Sync], Inl (SyncFailed err))
           | None \<Rightarrow>
               (let (events, tr) = transmit nodeID actions (events, tr @ [WAL_Sync]) in (tr, Inr events))))"

section \<open>What is called, and when\<close>

text \<open>The calls the actions ask for that are not network sends.\<close>

fun localCall :: "Action \<Rightarrow> call list" where
  "localCall (Action_AppendWriteAhead index data) = [WAL_Write index data]"
| "localCall (Action_TruncateWriteAhead index) = [WAL_Truncate index]"
| "localCall (Action_Commit batch) = [App_Apply batch]"
| "localCall (Action_Checkpoint _ networkConfig clientStates) = [App_Snap networkConfig clientStates]"
| "localCall (Action_StateTransfer seqNo value) = [App_TransferTo seqNo value]"
| "localCall _ = []"

definition localCalls :: "ActionList \<Rightarrow> call list" where
  "localCalls actions = concat (map localCall actions)"

text \<open>The messages for other nodes, one by one, and those for the node itself.\<close>

definition remoteSends :: "u64 \<Rightarrow> ActionList \<Rightarrow> call list" where
  "remoteSends nodeID actions =
     concat (map (\<lambda>(targets, msg). map (\<lambda>r. Link_Send r msg) (filter (\<lambda>r. r \<noteq> nodeID) targets)) (sends_of actions))"

definition ownSteps :: "u64 \<Rightarrow> ActionList \<Rightarrow> EventList" where
  "ownSteps nodeID actions =
     concat (map (\<lambda>(targets, msg). map (\<lambda>r. Event_Step r msg) (filter (\<lambda>r. r = nodeID) targets)) (sends_of actions))"

lemma transmitTo_fold:
  "fold (transmitTo nodeID msg) targets (events, tr) =
     (events @ map (\<lambda>r. Event_Step r msg) (filter (\<lambda>r. r = nodeID) targets),
      tr @ map (\<lambda>r. Link_Send r msg) (filter (\<lambda>r. r \<noteq> nodeID) targets))"
  by (induction targets arbitrary: events tr) (auto simp: transmitTo_def)

lemma transmit_eq: "transmit nodeID actions (events, tr) = (events @ ownSteps nodeID actions, tr @ remoteSends nodeID actions)"
  by (induction actions arbitrary: events tr)
    (auto simp: ownSteps_def remoteSends_def transmitTo_fold split: Action.split)

text \<open>The events the calls result in.\<close>

fun localEvent :: "'e services \<Rightarrow> call list \<Rightarrow> Action \<Rightarrow> EventList" where
  "localEvent sv tr (Action_Hash data origin) = [Event_HashResult (svSum sv data) origin]"
| "localEvent sv tr (Action_Checkpoint seqNo nc clients) =
     (case svSnap sv tr nc clients of
        Inl _ \<Rightarrow> []
      | Inr (value, pending) \<Rightarrow> EventList_CheckpointResult [] value pending seqNo nc clients)"
| "localEvent sv tr (Action_StateTransfer seqNo value) =
     (case svTransferTo sv tr seqNo value of
        Inl _ \<Rightarrow> [Event_StateTransferFailed seqNo value]
      | Inr state \<Rightarrow> [Event_StateTransferComplete seqNo value state])"
| "localEvent sv tr _ = []"

fun localEvents :: "'e services \<Rightarrow> ActionList \<Rightarrow> call list \<Rightarrow> EventList" where
  "localEvents sv [] tr = []"
| "localEvents sv (action # rest) tr = localEvent sv tr action @ localEvents sv rest (tr @ localCall action)"

lemma processLocal_step:
  "processLocal sv (action # rest) events tr =
     processLocal sv rest (events @ localEvent sv tr action) (tr @ localCall action) \<or>
   (\<exists>err. processLocal sv (action # rest) events tr = (tr @ localCall action, Inl err))"
  by (cases action) (auto simp: Let_def split: option.split sum.split)

lemma processLocal_calls:
  assumes "processLocal sv actions events tr = (tr', r)"
  shows "\<exists>cs. tr' = tr @ cs \<and> prefix cs (localCalls actions) \<and>
    (isl r \<or> cs = localCalls actions \<and> r = Inr (events @ localEvents sv actions tr))"
  using assms
proof (induction actions arbitrary: events tr)
  case (Cons action rest)
  from processLocal_step [of sv action rest events tr] show ?case
  proof (elim disjE exE)
    assume "processLocal sv (action # rest) events tr =
      processLocal sv rest (events @ localEvent sv tr action) (tr @ localCall action)"
    with Cons.prems Cons.IH obtain cs where "tr' = tr @ localCall action @ cs" "prefix cs (localCalls rest)"
      "isl r \<or> cs = localCalls rest \<and> r = Inr ((events @ localEvent sv tr action) @ localEvents sv rest (tr @ localCall action))"
      by fastforce
    then show ?thesis by (auto simp: localCalls_def)
  next
    fix err assume "processLocal sv (action # rest) events tr = (tr @ localCall action, Inl err)"
    with Cons.prems show ?thesis by (auto simp: localCalls_def)
  qed
qed (simp add: localCalls_def)

lemma process_calls:
  "case Process sv nodeID actions tr of
     (tr', Inr events) \<Rightarrow> tr' = tr @ localCalls actions @ [WAL_Sync] @ remoteSends nodeID actions \<and>
       events = localEvents sv actions tr @ ownSteps nodeID actions
   | (tr', Inl err) \<Rightarrow> \<exists>cs. tr' = tr @ cs \<and> prefix cs (localCalls actions @ [WAL_Sync])"
proof -
  obtain tr1 r1 where l: "processLocal sv actions [] tr = (tr1, r1)" by force
  from processLocal_calls [OF this] obtain cs where
    cs: "tr1 = tr @ cs" "prefix cs (localCalls actions)"
      "isl r1 \<or> cs = localCalls actions \<and> r1 = Inr (localEvents sv actions tr)" by auto
  then show ?thesis
    by (cases r1) (auto simp: Process_def l transmit_eq split: option.split intro: prefix_order.trans)
qed

text \<open>A message leaves the node only when everything of its batch of actions is on disk: the calls
  \<open>Process\<close> makes are the writes and truncations of the log and the calls of the application, in the order of the
  actions, then one sync, then the sends, each message to each other target once; when a call fails, it is
  the last one, and nothing is sent. The events are the results of the calls, and then the messages to the
  node itself.\<close>

theorem process_syncs_before_sends:
  "case Process sv nodeID actions tr of
     (tr', Inr events) \<Rightarrow> tr' = tr @ localCalls actions @ [WAL_Sync] @ remoteSends nodeID actions \<and>
       events = localEvents sv actions tr @ ownSteps nodeID actions
   | (tr', Inl err) \<Rightarrow> \<exists>cs. tr' = tr @ cs \<and> prefix cs (localCalls actions @ [WAL_Sync])"
  by (rule process_calls)

end
