(* ===== verification/Mir_EndToEnd.thy ===== *)
theory Mir_EndToEnd
  imports Mir_Recovery Mir_Processor
begin

text \<open>
  The state machine and the processor together: what is on disk when a message leaves the node, and what the
  application is called with.
\<close>

definition writtenIn :: "call list \<Rightarrow> Persistent set" where
  "writtenIn tr = {p. \<exists>i. WAL_Write i p \<in> set tr}"

lemma writtenIn_append [simp]: "writtenIn (xs @ ys) = writtenIn xs \<union> writtenIn ys"
  by (auto simp: writtenIn_def)

lemma localCalls_written: "writtenIn (localCalls actions) = entriesOf actions"
proof (induction actions)
  case (Cons a actions)
  have "writtenIn (localCall a) = entriesOf [a]" by (cases a) (auto simp: writtenIn_def entriesOf_def)
  then show ?case using Cons entriesOf_simps(2) [of "[a]" actions] by (simp add: localCalls_def)
qed (simp add: writtenIn_def localCalls_def)

lemma localCalls_not_send: "Link_Send dest msg \<notin> set (localCalls actions)"
proof (induction actions)
  case (Cons a actions)
  then show ?case by (cases a) (simp_all add: localCalls_def)
qed (simp add: localCalls_def)

lemma remoteSends_set:
  "Link_Send dest msg \<in> set (remoteSends nodeID actions) \<Longrightarrow> \<exists>targets. (targets, msg) \<in> set (sends_of actions)"
  by (auto simp: remoteSends_def)

lemma split_before:
  assumes "pre @ y # post = A @ B" "y \<notin> set A"
  shows "\<exists>C. pre = A @ C \<and> y \<in> set B"
proof (cases "length A \<le> length pre")
  case True
  with assms(1) obtain C where "pre = A @ C" by (auto simp: append_eq_append_conv2)
  with assms(1) show ?thesis by auto
next
  case False
  with assms(1) obtain C where "A = pre @ C" "C \<noteq> []" "C @ B = y # post" by (auto simp: append_eq_append_conv2)
  then have "y \<in> set A" by (cases C) auto
  with assms(2) show ?thesis by simp
qed


text \<open>Four nodes, the first of them restarted in epoch 1, on services that never fail.\<close>

definition fourState :: NetworkState where
  "fourState = \<lparr>nsConfig = \<lparr>ncNodes = [0, 1, 2, 3], ncCheckpointInterval = 4, ncMaxEpochLength = 100, ncNumberOfBuckets = 4, ncF = 1\<rparr>,
     nsClients = [], nsPending = [], nsReconfigured = False\<rparr>"

definition fourLog :: "Persistent list" where
  "fourLog = [Persistent_CEntry \<lparr>ceSeqNo = 0, ceCheckpointValue = Some [1], ceNetworkState = fourState\<rparr>,
     Persistent_FEntry \<lparr>feEndsEpochConfig = \<lparr>epNumber = 0, epLeaders = [0, 1, 2, 3], epPlannedExpiration = 0\<rparr>\<rparr>,
     Persistent_ECEntry \<lparr>eceEpochNumber = 1\<rparr>,
     Persistent_NEntry \<lparr>neSeqNo = 1, neEpochConfig = \<lparr>epNumber = 1, epLeaders = [0, 1, 2, 3], epPlannedExpiration = 100\<rparr>\<rparr>]"

definition faultless :: "unit services" where
  "faultless = \<lparr>svSum = (\<lambda>_. None), svWrite = (\<lambda>_ _ _. None), svTruncate = (\<lambda>_ _. None), svSync = (\<lambda>_. None),
     svApply = (\<lambda>_ _. None), svSnap = (\<lambda>_ _ _. Inr (None, [])), svTransferTo = (\<lambda>_ _ _. Inl ())\<rparr>"

lemma restarted_four_calls:
  "map_option (\<lambda>(sm, actions). Process faultless 0 actions []) (started fourLog) =
     Some ([WAL_Write 5 (Persistent_Suspect 1), WAL_Sync, Link_Send 1 (Msg_Suspect 1), Link_Send 2 (Msg_Suspect 1),
       Link_Send 3 (Msg_Suspect 1)], Inr [Event_Step 0 (Msg_Suspect 1)])"
  by code_simp


end
