(* ===== verification/Mir_Application.thy ===== *)
theory Mir_Application
  imports Mir_EndToEnd
begin

text \<open>
  The loop of a node: the state machine takes events, the processor carries out its actions, and the results come back
  as events. The theory shows what the application sees of it: the batches in order, each once. The network is
  arbitrary, and so is the order in which events and actions are worked off; state transfers are left out.
\<close>

section \<open>Checkpoints that are asked for\<close>

text \<open>A reconfiguration, an active state and a result that leave the checkpoint interval alone.\<close>

fun keepsInterval :: "u64 \<Rightarrow> Reconfiguration \<Rightarrow> bool" where
  "keepsInterval ci (NewConfig nc) \<longleftrightarrow> checkpointInterval nc = ci"
| "keepsInterval ci _ \<longleftrightarrow> True"

definition steadyState :: "u64 \<Rightarrow> NetworkState \<Rightarrow> bool" where
  "steadyState ci ns \<longleftrightarrow> checkpointInterval (nsConfig ns) = ci \<and> list_all (keepsInterval ci) (nsPending ns)"

definition steady :: "u64 \<Rightarrow> commitState \<Rightarrow> bool" where
  "steady ci cs \<longleftrightarrow> pred_option (steadyState ci) (csActiveState cs)"

fun steadyAct :: "u64 \<Rightarrow> Action \<Rightarrow> bool" where
  "steadyAct ci (Action_Checkpoint _ nc _) \<longleftrightarrow> checkpointInterval nc = ci"
| "steadyAct ci _ \<longleftrightarrow> True"

text \<open>The number of checkpoints asked for is at most what the flag allows.\<close>

definition pendings :: "commitState \<Rightarrow> nat" where
  "pendings cs = (if csCheckpointPending cs then 1 else 0)"

definition asks :: "u64 \<Rightarrow> commitState \<Rightarrow> ActionList \<Rightarrow> commitState \<Rightarrow> bool" where
  "asks ci cs out cs' \<longleftrightarrow> length (checkpoints_of out) + pendings cs = pendings cs' \<and>
     (steady ci cs \<longrightarrow> steady ci cs' \<and> list_all (steadyAct ci) out)"

lemma asks_trans: "asks ci a x b \<Longrightarrow> asks ci b y c \<Longrightarrow> asks ci a (x @ y) c"
  by (auto simp: asks_def)

lemma csMove_keeps: "csMove cs cs' \<Longrightarrow> csCheckpointPending cs' = csCheckpointPending cs \<and> csActiveState cs' = csActiveState cs"
  unfolding csMove_def
proof (induction rule: rtranclp_induct)
  case (step b c)
  have "csCheckpointPending b' = csCheckpointPending b \<and> csActiveState b' = csActiveState b" if "commit q b = Some b'" for q b'
    using that by (auto simp: commit_def bind_eq_Some_conv Let_def split: if_splits option.splits)
  with step show ?case by auto
qed simp

lemma nodeAct_asks: "list_all nodeAct out \<Longrightarrow> checkpoints_of out = [] \<and> list_all (steadyAct ci) out"
proof (induction out)
  case (Cons a out)
  then show ?case by (cases a) auto
qed simp

lemma does_asks: "does nodeAct cs out cs' \<Longrightarrow> asks ci cs out cs'"
  using csMove_keeps [of cs cs'] nodeAct_asks [of out ci] by (auto simp: does_def asks_def pendings_def steady_def)

lemma applyReconfig_interval:
  "applyReconfig r (nc, clients) = Some (nc', clients') \<Longrightarrow> keepsInterval ci r \<Longrightarrow> checkpointInterval nc = ci \<Longrightarrow>
     checkpointInterval nc' = ci"
  by (cases r) (auto split: list.splits)

lemma reconfig_interval:
  assumes "ofold applyReconfig rs (nc, clients) = Some (nc', clients')" "list_all (keepsInterval ci) rs" "checkpointInterval nc = ci"
  shows "checkpointInterval nc' = ci"
  using assms by (induction rs arbitrary: nc clients) (auto split: option.splits dest: applyReconfig_interval)

lemma drainCheckpoint_asks:
  assumes "drainCheckpoint ci' cs = Some (cs', out)"
  shows "asks ci cs out cs'"
proof (cases "csLastAppliedCommit cs = csLowWatermark cs + ci' \<and> \<not> csCheckpointPending cs")
  case True
  with assms obtain active nc clients ccs where active: "csActiveState cs = Some active"
    and nx: "nextNetworkConfig active (csCommittingClients cs) = Some (nc, clients, ccs)"
    and r: "cs' = cs\<lparr>csCheckpointPending := True, csCommittingClients := ccs\<rparr>"
      "out = [Action_Checkpoint (csLastAppliedCommit cs) nc clients]"
    by (auto simp: drainCheckpoint_def bind_eq_Some_conv)
  have "checkpointInterval nc = ci" if "steadyState ci active"
    using nx that by (auto simp: nextNetworkConfig_def bind_eq_Some_conv steadyState_def dest: reconfig_interval)
  with True show ?thesis by (auto simp: asks_def pendings_def r steady_def active)
qed (use assms in \<open>auto simp: drainCheckpoint_def asks_def\<close>)

lemma drainCommit_asks:
  assumes "drainCommit ci' cs = Some (Some (cs', q))"
  shows "asks ci cs [Action_Commit q] cs'"
  using drainCommit_frame [OF assms] by (simp add: asks_def pendings_def steady_def)

lemma drainLoop_asks: "drainLoop ci' cs = Some (cs', out) \<Longrightarrow> asks ci cs out cs'"
proof (induction ci' cs arbitrary: cs' out rule: drainLoop.induct)
  case (1 ci' cs)
  show ?case
  proof (cases "csLastAppliedCommit cs < csLowWatermark cs + 2 * ci'")
    case False
    with 1(2) show ?thesis by (simp add: drainLoop.simps [of ci' cs] asks_def)
  next
    case low: True
    with 1(2) obtain cs1 a1 where c: "drainCheckpoint ci' cs = Some (cs1, a1)"
      by (auto simp: drainLoop.simps [of ci' cs] split: option.splits)
    note k = drainCheckpoint_asks [OF c, of ci]
    show ?thesis
    proof (cases "drainCommit ci' cs1")
      case None
      with 1(2) low c show ?thesis by (simp add: drainLoop.simps [of ci' cs])
    next
      case (Some d)
      show ?thesis
      proof (cases d)
        case None
        with 1(2) low c Some k show ?thesis by (simp add: drainLoop.simps [of ci' cs])
      next
        case (Some dq)
        then obtain cs2 q where d: "drainCommit ci' cs1 = Some (Some (cs2, q))" using \<open>drainCommit ci' cs1 = Some d\<close> by (cases dq) auto
        with 1(2) low c obtain rest where r: "drainLoop ci' cs2 = Some (cs', rest)" "out = (a1 @ [Action_Commit q]) @ rest"
          by (auto simp: drainLoop.simps [of ci' cs] split: option.splits)
        have "asks ci cs2 rest cs'" using low c d r(1) by (intro 1(1)) auto
        with asks_trans [OF k drainCommit_asks [OF d]] asks_trans show ?thesis unfolding r(2) by blast
      qed
    qed
  qed
qed

lemma advanceLoop_asks:
  "advanceLoop psize peq sp = Some r \<Longrightarrow> asks ci (spCommitState sp) (snd r) (spCommitState (fst r))"
proof (induction psize peq sp r rule: advanceLoop.raw_induct [rotated, consumes 1])
  case (1 f psize peq sp r)
  from 1(2) obtain cs a1 sp1 a2 where dr: "drain (spCommitState sp) = Some (cs, a1)"
    and adv: "onTracker (tr_advanceState psize peq) (putCommitState cs sp) = Some (sp1, a2)"
    and rest: "a2 = [] \<and> r = (sp1, a1) \<or> (\<exists>r'. f psize peq sp1 = Some r' \<and> r = (fst r', (a1 @ a2) @ snd r'))"
    by (auto simp: bind_eq_Some_conv split: if_splits)
  have "does nodeAct (spCommitState (putCommitState cs sp)) a2 (spCommitState sp1)"
    by (rule onTracker_does [OF adv]) (rule tr_advanceState_does)
  then have p: "asks ci (spCommitState sp) (a1 @ a2) (spCommitState sp1)"
    using dr by (intro asks_trans [of _ _ _ cs]) (auto simp: drain_def bind_eq_Some_conv does_asks dest: drainLoop_asks)
  from rest show ?case
  proof (elim disjE exE conjE)
    fix r' assume "f psize peq sp1 = Some r'" and r: "r = (fst r', (a1 @ a2) @ snd r')"
    from asks_trans [OF p 1(1) [OF this(1)]] r show ?thesis by simp
  qed (use p in simp)
qed

section \<open>Events\<close>

text \<open>A result leaves at most what the flag allows, and a steady result a steady state.\<close>

lemma result_asks:
  assumes "cs_applyCheckpointResult ec r cs p = Some (cs', p', out)" "steadyState ci (crNetworkState r)"
  shows "checkpoints_of out = [] \<and> list_all (steadyAct ci) out \<and> (steady ci cs \<longrightarrow> steady ci cs')"
  using assms by (auto simp: cs_applyCheckpointResult_def bind_eq_Some_conv Let_def steady_def addCEntry_def appendLogEntry_Some
      split: if_splits)

lemma processCheckpointResult_asks:
  assumes "processCheckpointResult psize r sp = Some (sp', out)" "steadyState ci (crNetworkState r)"
  shows "checkpoints_of out = [] \<and> list_all (steadyAct ci) out \<and> (steady ci (spCommitState sp) \<longrightarrow> steady ci (spCommitState sp'))"
proof (cases "crSeqNo r < csLowWatermark (spCommitState sp)")
  case True
  with assms(1) show ?thesis by (auto simp: processCheckpointResult_def Let_def)
next
  case False
  with assms(1) obtain ec cs p a1 where r: "cs_applyCheckpointResult ec r (spCommitState sp) (twPersisted (spWorld sp)) = Some (cs, p, a1)"
    and rest: "(spCommitState sp' = cs \<and> out = a1) \<or> (\<exists>sp1 a2. spCommitState sp1 = cs \<and>
      onClients (chd_allocate psize (crSeqNo r) (crNetworkState r)) sp1 = Some (sp', a2) \<and> out = a1 @ a2)"
    by (auto simp: processCheckpointResult_def Let_def bind_eq_Some_conv split: if_splits) fastforce+
  note p = result_asks [OF r assms(2)]
  from rest show ?thesis
  proof (elim disjE exE conjE)
    fix sp1 a2
    assume "spCommitState sp1 = cs" "onClients (chd_allocate psize (crSeqNo r) (crNetworkState r)) sp1 = Some (sp', a2)"
      and out: "out = a1 @ a2"
    then have d: "does nodeAct cs a2 (spCommitState sp')" by (metis onClients_does chd_allocate_out)
    then have "checkpoints_of a2 = []" "list_all (steadyAct ci) a2" using nodeAct_asks by (auto simp: does_def)
    with p does_asks [OF d, of ci] show ?thesis by (auto simp: out asks_def)
  qed (use p in simp)
qed

fun resultOf :: "Event \<Rightarrow> CheckpointResult option" where
  "resultOf (Event_CheckpointResult r) = Some r"
| "resultOf _ = None"

definition results :: "EventList \<Rightarrow> CheckpointResult list" where
  "results events = List.map_filter resultOf events"

lemma results_simps [simp]:
  "results [] = []" "results (xs @ ys) = results xs @ results ys"
  "results (ev # evs) = (case resultOf ev of None \<Rightarrow> results evs | Some r \<Rightarrow> r # results evs)"
  by (simp_all add: results_def map_filter_rules split: option.split)

lemma applyEvent_asks:
  assumes "applyEvent psize peq event sm = Some (sm', out)" "smParts sm = Some sp" "ordinary event \<or> resultOf event = Some r"
    and "steady ci (spCommitState sp)" "list_all (steadyState ci \<circ> crNetworkState) (results [event])"
  shows "\<exists>sp'. smParts sm' = Some sp' \<and> steady ci (spCommitState sp') \<and> list_all (steadyAct ci) out \<and>
    length (checkpoints_of out) + (if ordinary event then pendings (spCommitState sp) else 0) \<le> pendings (spCommitState sp')"
proof -
  from assms obtain sp1 a1 sp2 a2 sp3 a3 where h: "handleEvent psize peq event sp = Some (sp1, a1)"
    and m: "moveWatermark psize sp1 = Some (sp2, a2)" and l: "advanceLoop psize peq sp2 = Some (sp3, a3)"
    and out: "out = a1 @ (a2 @ a3)" and sm': "smParts sm' = Some sp3"
    by (cases event) (auto simp: applyEvent_def bind_eq_Some_conv)
  have rest: "asks ci (spCommitState sp1) (a2 @ a3) (spCommitState sp3)"
    using does_asks [OF moveWatermark_does [OF m]] advanceLoop_asks [OF l] by (auto intro: asks_trans)
  show ?thesis
  proof (cases "ordinary event")
    case True
    with asks_trans [OF does_asks [OF handleEvent_does [OF h]] rest] assms(4) sm' show ?thesis by (auto simp: asks_def out)
  next
    case False
    with assms(3) have ev: "event = Event_CheckpointResult r" by (cases event) auto
    with h have "processCheckpointResult psize r sp = Some (sp1, a1)" by (simp add: handleEvent_def)
    from processCheckpointResult_asks [OF this] assms(4,5) rest sm' False show ?thesis by (auto simp: ev asks_def out)
  qed
qed

section \<open>The loop\<close>

record nodeState =
  nsSm :: StateMachine
  nsActions :: ActionList
  nsEvents :: EventList
  nsTrace :: "call list"

definition nextSafe :: "u64 \<Rightarrow> StateMachine \<Rightarrow> bool" where
  "nextSafe ci sm \<longleftrightarrow> pred_option (\<lambda>sp. uint (csLowWatermark (spCommitState sp)) + 3 * uint ci < 2 ^ 64) (smParts sm)"

text \<open>
  An event arrives from outside; the first of the waiting events is applied, a checkpoint result only while the
  next interval still has sequence numbers; the processor carries out all waiting actions.
\<close>

inductive nodeLoop ::
  "'e services \<Rightarrow> u64 \<Rightarrow> (Msg \<Rightarrow> nat) \<Rightarrow> protoEqual \<Rightarrow> u64 \<Rightarrow> StateMachine \<Rightarrow> nodeState \<Rightarrow> bool"
  for sv nodeID psize peq ci sm0 where
  init: "nodeLoop sv nodeID psize peq ci sm0 \<lparr>nsSm = sm0, nsActions = [], nsEvents = [], nsTrace = []\<rparr>"
| arrival: "nodeLoop sv nodeID psize peq ci sm0 s \<Longrightarrow> ordinary event \<Longrightarrow> applyEvent psize peq event (nsSm s) = Some (sm', out) \<Longrightarrow>
    nodeLoop sv nodeID psize peq ci sm0 (s\<lparr>nsSm := sm', nsActions := nsActions s @ out\<rparr>)"
| waiting: "nodeLoop sv nodeID psize peq ci sm0 s \<Longrightarrow> nsEvents s = event # rest \<Longrightarrow>
    ordinary event \<or> resultOf event = Some r \<and> nextSafe ci (nsSm s) \<Longrightarrow> applyEvent psize peq event (nsSm s) = Some (sm', out) \<Longrightarrow>
    nodeLoop sv nodeID psize peq ci sm0 (s\<lparr>nsSm := sm', nsActions := nsActions s @ out, nsEvents := rest\<rparr>)"
| process: "nodeLoop sv nodeID psize peq ci sm0 s \<Longrightarrow> Process sv nodeID (nsActions s) (nsTrace s) = (tr, Inr events) \<Longrightarrow>
    nodeLoop sv nodeID psize peq ci sm0 (s\<lparr>nsActions := [], nsEvents := nsEvents s @ events, nsTrace := tr\<rparr>)"

text \<open>The application never asks for another checkpoint interval.\<close>

definition steadyApp :: "u64 \<Rightarrow> 'e services \<Rightarrow> bool" where
  "steadyApp ci sv \<longleftrightarrow> (\<forall>tr nc clients v pending. svSnap sv tr nc clients = Inr (v, pending) \<longrightarrow> list_all (keepsInterval ci) pending)"

lemma localEvents_results:
  assumes "steadyApp ci sv" "list_all (steadyAct ci) actions"
  shows "length (results (localEvents sv actions tr)) \<le> length (checkpoints_of actions) \<and>
    list_all (steadyState ci \<circ> crNetworkState) (results (localEvents sv actions tr))"
  using assms(2)
proof (induction actions arbitrary: tr)
  case (Cons a actions)
  note c = Cons.IH [of "tr @ localCall a"]
  have "length (results (localEvent sv tr a)) \<le> length (checkpoints_of [a]) \<and>
    list_all (steadyState ci \<circ> crNetworkState) (results (localEvent sv tr a))"
    using Cons.prems assms(1) by (cases a) (auto simp: steadyApp_def steadyState_def split: sum.splits)
  moreover have "checkpoints_of (a # actions) = checkpoints_of [a] @ checkpoints_of actions" by (cases a) simp_all
  ultimately show ?case using c Cons.prems by (simp add: comp_def del: checkpoints_of_simps(2))
qed simp

lemma ownSteps_results: "results (ownSteps nodeID actions) = []"
proof -
  have "resultOf ev = None" if "ev \<in> set (ownSteps nodeID actions)" for ev
    using that by (auto simp: ownSteps_def)
  then show ?thesis by (induction "ownSteps nodeID actions" rule: rev_induct) (auto simp: results_def List.map_filter_def)
qed

section \<open>What the application sees\<close>

definition applied :: "call list \<Rightarrow> QEntry list" where
  "applied tr = List.map_filter (\<lambda>c. case c of App_Apply q \<Rightarrow> Some q | _ \<Rightarrow> None) tr"

lemma applied_simps [simp]:
  "applied [] = []" "applied (xs @ ys) = applied xs @ applied ys"
  "applied (c # cs) = (case c of App_Apply q \<Rightarrow> q # applied cs | _ \<Rightarrow> applied cs)"
  by (simp_all add: applied_def map_filter_rules split: call.split)

lemma applied_localCalls: "applied (localCalls actions) = commits_of actions"
proof (induction actions)
  case (Cons a actions)
  then show ?case by (cases a) (simp_all add: localCalls_def)
qed (simp add: localCalls_def)

lemma applied_remoteSends: "applied (remoteSends nodeID actions) = []"
proof -
  have "applied cs = []" if "\<forall>c \<in> set cs. \<exists>r m. c = Link_Send r m" for cs
    using that by (induction cs) auto
  moreover have "\<forall>c \<in> set (remoteSends nodeID actions). \<exists>r m. c = Link_Send r m" by (auto simp: remoteSends_def)
  ultimately show ?thesis by blast
qed

definition loopInv :: "u64 \<Rightarrow> commitState \<Rightarrow> nodeState \<Rightarrow> bool" where
  "loopInv ci cs0 s \<longleftrightarrow> (\<exists>sp. smParts (nsSm s) = Some sp \<and> steady ci (spCommitState sp) \<and>
     length (checkpoints_of (nsActions s)) + length (results (nsEvents s)) \<le> pendings (spCommitState sp) \<and>
     list_all (steadyAct ci) (nsActions s) \<and> list_all (steadyState ci \<circ> crNetworkState) (results (nsEvents s)) \<and>
     progress ci cs0 (map Action_Commit (applied (nsTrace s)) @ nsActions s) (spCommitState sp))"

lemma commits_of_commits: "commits_of (map Action_Commit qs) = qs"
  by (induction qs) simp_all

lemma progress_commits: "commits_of x = commits_of y \<Longrightarrow> progress ci a x b = progress ci a y b"
  by (simp add: progress_def)

lemma nodeLoop_inv:
  assumes "nodeLoop sv nodeID psize peq ci sm0 s" "steadyApp ci sv" "smParts sm0 = Some sp0" "steady ci (spCommitState sp0)"
  shows "loopInv ci (spCommitState sp0) s"
  using assms
proof (induction rule: nodeLoop.induct)
  case init
  then show ?case by (simp add: loopInv_def progress_still)
next
  case (arrival s event sm' out)
  then obtain sp where i: "smParts (nsSm s) = Some sp" "steady ci (spCommitState sp)"
    "length (checkpoints_of (nsActions s)) + length (results (nsEvents s)) \<le> pendings (spCommitState sp)"
    "list_all (steadyAct ci) (nsActions s)" "list_all (steadyState ci \<circ> crNetworkState) (results (nsEvents s))"
    "progress ci (spCommitState sp0) (map Action_Commit (applied (nsTrace s)) @ nsActions s) (spCommitState sp)"
    by (auto simp: loopInv_def)
  have none: "resultOf event = None" "expected ci event (nsSm s)" using arrival(2) by (cases event; simp)+
  with applyEvent_asks [OF arrival(3) i(1) _ i(2)] arrival(2) obtain sp' where
    a: "smParts sm' = Some sp'" "steady ci (spCommitState sp')" "list_all (steadyAct ci) out"
      "length (checkpoints_of out) + pendings (spCommitState sp) \<le> pendings (spCommitState sp')" by auto
  with applyEvent_progress [OF arrival(3) none(2) i(1)] have "progress ci (spCommitState sp) out (spCommitState sp')" by auto
  from progress_trans [OF i(6) this] a i(3-5) show ?case by (auto simp: loopInv_def)
next
  case (waiting s event rest r sm' out)
  then obtain sp where i: "smParts (nsSm s) = Some sp" "steady ci (spCommitState sp)"
    "length (checkpoints_of (nsActions s)) + length (results (event # rest)) \<le> pendings (spCommitState sp)"
    "list_all (steadyAct ci) (nsActions s)" "list_all (steadyState ci \<circ> crNetworkState) (results (event # rest))"
    "progress ci (spCommitState sp0) (map Action_Commit (applied (nsTrace s)) @ nsActions s) (spCommitState sp)"
    by (auto simp: loopInv_def)
  have res: "resultOf event = (if ordinary event then None else Some r)" using waiting(3) by (cases event) auto
  have ex: "expected ci event (nsSm s)"
    using waiting(3) i(1,3,5) by (cases event) (auto simp: nextSafe_def resultExpected_def steadyState_def pendings_def split: if_splits)
  have "list_all (steadyState ci \<circ> crNetworkState) (results [event])" using i(5) by (simp split: option.splits)
  from applyEvent_asks [OF waiting(4) i(1) _ i(2) this, of r] waiting(3) obtain sp' where
    a: "smParts sm' = Some sp'" "steady ci (spCommitState sp')" "list_all (steadyAct ci) out"
      "length (checkpoints_of out) + (if ordinary event then pendings (spCommitState sp) else 0) \<le> pendings (spCommitState sp')" by auto
  with applyEvent_progress [OF waiting(4) ex i(1)] have "progress ci (spCommitState sp) out (spCommitState sp')" by auto
  from progress_trans [OF i(6) this] a i(3-5) res show ?case
    by (auto simp: loopInv_def pendings_def split: if_splits)
next
  case (process s tr events)
  then obtain sp where i: "smParts (nsSm s) = Some sp" "steady ci (spCommitState sp)"
    "length (checkpoints_of (nsActions s)) + length (results (nsEvents s)) \<le> pendings (spCommitState sp)"
    "list_all (steadyAct ci) (nsActions s)" "list_all (steadyState ci \<circ> crNetworkState) (results (nsEvents s))"
    "progress ci (spCommitState sp0) (map Action_Commit (applied (nsTrace s)) @ nsActions s) (spCommitState sp)"
    by (auto simp: loopInv_def)
  from process_calls [where sv = sv and nodeID = nodeID and actions = "nsActions s" and tr = "nsTrace s"] process(2) have
    tr: "tr = nsTrace s @ localCalls (nsActions s) @ [WAL_Sync] @ remoteSends nodeID (nsActions s)"
    and ev: "events = localEvents sv (nsActions s) (nsTrace s) @ ownSteps nodeID (nsActions s)" by auto
  have "progress ci (spCommitState sp0) (map Action_Commit (applied tr)) (spCommitState sp)"
    using i(6) by (rule iffD1 [OF progress_commits, rotated])
      (simp add: tr commits_of_commits applied_localCalls applied_remoteSends)
  with i localEvents_results [OF process(4) i(4), of "nsTrace s"] show ?case
    by (auto simp: loopInv_def ev ownSteps_results)
qed


text \<open>The example: the node with two committed sequences, after a tick and a round of the processor.\<close>

lemma oneMachine_processed:
  "map_option (\<lambda>(sm, actions). (smParts sm \<noteq> None, case Process faultless 0 actions [] of
       (tr, r) \<Rightarrow> (map qeSeqNo (applied tr), isl r))) (applyEvent (\<lambda>_. 1) (=) Event_TickElapsed oneMachine) =
     Some (True, [1, 2], False)"
  by code_simp

lemma oneParts_pending: "map_option (\<lambda>sp. map_option nsPending (csActiveState (spCommitState sp))) oneParts = Some (Some [])"
  by code_simp


end
