(* ===== verification/Mir_Serializer.thy ===== *)
theory Mir_Serializer
  imports Mir_EndToEnd
begin

text \<open>
  \<open>serializer.go\<close> and \<open>mirbft.go\<close>: the go routine that owns the state machine, and the node started on it. The \<open>select\<close> of the
  main loop takes one of several inputs in any order, so a run is a sequence of inputs. A panic of the state machine
  is recovered and ends the routine, like an error of the interceptor or a request to stop. The reports of
  the status are not part of the model.
\<close>

section \<open>Configuration\<close>

text \<open>The interceptor answers with an error or not; its answer may depend on the events it has seen.\<close>

record 'e Config =
  cfID :: u64
  cfBatchSize :: u32
  cfHeartbeatTicks :: u32
  cfSuspectTicks :: u32
  cfNewEpochTimeoutTicks :: u32
  cfBufferSize :: u32
  cfEventInterceptor :: "(Event list \<Rightarrow> Event \<Rightarrow> 'e option) option"

text \<open>Making a slice of negative length panics.\<close>

definition StandardInitialNetworkState :: "int \<Rightarrow> int \<Rightarrow> NetworkState option" where
  [go_defs]: "StandardInitialNetworkState nodeCount clientCount =
     (if clientCount < 0 then None else Some (
      let nodes = map word_of_int [0..nodeCount - 1];
          numberOfBuckets = (word_of_int nodeCount :: i32);
          checkpointInterval = numberOfBuckets * 5;
          maxEpochLength = checkpointInterval * 10;
          clients = map (\<lambda>i. \<lparr>clId = word_of_int i, clWidth = 100, clWidthConsumed = 0, clLowWatermark = 0, clCommittedMask = None\<rparr>)
            [0..clientCount - 1] in
      \<lparr>nsConfig = \<lparr>ncNodes = nodes, ncCheckpointInterval = checkpointInterval, ncMaxEpochLength = scast maxEpochLength,
         ncNumberOfBuckets = numberOfBuckets, ncF = word_of_int ((nodeCount - 1) sdiv 3)\<rparr>,
       nsClients = clients, nsPending = [], nsReconfigured = False\<rparr>))"

text \<open>
  The log a node is started from: that of a fresh network, or any other, which calls back with entries and then may
  fail.
\<close>

datatype 'e WALStorage =
    dummyWAL NetworkState bytes
  | otherWAL "(u64 \<times> Persistent) list" "'e option"

fun LoadAll :: "'e WALStorage \<Rightarrow> (u64 \<times> Persistent) list \<times> 'e option" where
  "LoadAll (dummyWAL initialNetworkState initialCheckpointValue) =
     ([(1, Persistent_CEntry \<lparr>ceSeqNo = 0, ceCheckpointValue = initialCheckpointValue, ceNetworkState = initialNetworkState\<rparr>),
       (2, Persistent_FEntry \<lparr>feEndsEpochConfig =
         \<lparr>epNumber = 0, epLeaders = ncNodes (nsConfig initialNetworkState), epPlannedExpiration = 0\<rparr>\<rparr>)], None)"
| "LoadAll (otherWAL entries err) = (entries, err)"

fun isDummy :: "'e WALStorage \<Rightarrow> bool" where
  "isDummy (dummyWAL _ _) \<longleftrightarrow> True"
| "isDummy (otherWAL _ _) \<longleftrightarrow> False"

section \<open>The serializer\<close>

text \<open>What the routine works on: the state machine, the actions not handed out, whether they are on offer, and what
  the interceptor has seen.\<close>

record serializer =
  seSm :: StateMachine
  seActions :: ActionList
  seOffered :: bool
  seSeen :: "Event list"

datatype 'e exitErr = ErrStopped | InterceptorError 'e | LoadFailed 'e | CaughtPanic

text \<open>The local function \<open>applyEvent\<close>.\<close>

definition interceptAndApply ::
  "(Msg \<Rightarrow> nat) \<Rightarrow> protoEqual \<Rightarrow> 'e Config \<Rightarrow> Event \<Rightarrow> serializer \<Rightarrow> ('e exitErr option \<times> serializer) option" where
  [go_defs]: "interceptAndApply psize peq cf stateEvent se =
     (let seen = (if cfEventInterceptor cf = None then seSeen se else seSeen se @ [stateEvent]) in
      case (case cfEventInterceptor cf of None \<Rightarrow> None | Some intercept \<Rightarrow> intercept (seSeen se) stateEvent) of
        Some err \<Rightarrow> Some (Some (InterceptorError err), se\<lparr>seSeen := seen\<rparr>)
      | None \<Rightarrow> do {
          (sm, out) \<leftarrow> applyEvent psize peq stateEvent (seSm se);
          Some (None, se\<lparr>seSm := sm, seActions := ActionList_PushBackList (seActions se) out, seSeen := seen\<rparr>)
        })"

text \<open>A panic becomes an exit with the state the routine had before.\<close>

definition guarded :: "serializer \<Rightarrow> ('e exitErr option \<times> serializer) option \<Rightarrow> 'e exitErr option \<times> serializer" where
  [go_defs]: "guarded se r = (case r of None \<Rightarrow> (Some CaughtPanic, se) | Some x \<Rightarrow> x)"

definition initialParameters :: "'e Config \<Rightarrow> InitialParameters" where
  [go_defs]: "initialParameters cf =
     \<lparr>ipId = cfID cf, ipBatchSize = cfBatchSize cf, ipHeartbeatTicks = cfHeartbeatTicks cf, ipSuspectTicks = cfSuspectTicks cf,
      ipNewEpochTimeoutTicks = cfNewEpochTimeoutTicks cf, ipBufferSize = cfBufferSize cf\<rparr>"

text \<open>The callback of \<open>LoadAll\<close>, which drops an error of the interceptor.\<close>

definition loadEntry ::
  "(Msg \<Rightarrow> nat) \<Rightarrow> protoEqual \<Rightarrow> 'e Config \<Rightarrow> bool \<Rightarrow> u64 \<times> Persistent \<Rightarrow> serializer \<Rightarrow> serializer option" where
  [go_defs]: "loadEntry psize peq cf dummy e se =
     (case e of (i, p) \<Rightarrow>
        map_option snd (interceptAndApply psize peq cf (Event_LoadPersistedEntry i p)
          (if dummy then se\<lparr>seActions := ActionList_Persist (seActions se) i p\<rparr> else se)))"

text \<open>\<open>run\<close> up to the main loop.\<close>

definition serializerStart ::
  "(Msg \<Rightarrow> nat) \<Rightarrow> protoEqual \<Rightarrow> 'e Config \<Rightarrow> 'e WALStorage \<Rightarrow> 'e exitErr option \<times> serializer" where
  [go_defs]: "serializerStart psize peq cf walStorage =
     (let se0 = \<lparr>seSm = newStateMachine, seActions = [], seOffered = False, seSeen = []\<rparr> in
      guarded se0 (do {
        (err, se) \<leftarrow> interceptAndApply psize peq cf (Event_Initialize (initialParameters cf)) se0;
        if err \<noteq> None then Some (err, se)
        else do {
          se \<leftarrow> ofold (loadEntry psize peq cf (isDummy walStorage)) (fst (LoadAll walStorage)) se;
          case snd (LoadAll walStorage) of
            Some e \<Rightarrow> Some (Some (LoadFailed e), se)
          | None \<Rightarrow> interceptAndApply psize peq cf Event_CompleteInitialization se
        }
      }))"

text \<open>One round of the main loop. Actions are only taken when they are on offer.\<close>

datatype input = TakeActions | InjectEvents EventList | RequestStatus | Stop

fun applyAll ::
  "(Msg \<Rightarrow> nat) \<Rightarrow> protoEqual \<Rightarrow> 'e Config \<Rightarrow> EventList \<Rightarrow> serializer \<Rightarrow> ('e exitErr option \<times> serializer) option" where
  "applyAll psize peq cf [] se = Some (None, se)"
| "applyAll psize peq cf (event # rest) se = do {
     (err, se) \<leftarrow> interceptAndApply psize peq cf event se;
     if err \<noteq> None then Some (err, se) else applyAll psize peq cf rest se
   }"

definition serializerStep ::
  "(Msg \<Rightarrow> nat) \<Rightarrow> protoEqual \<Rightarrow> 'e Config \<Rightarrow> input \<Rightarrow> serializer \<Rightarrow> ('e exitErr option \<times> serializer) \<times> ActionList" where
  [go_defs]: "serializerStep psize peq cf inp se =
     (let offer = (\<lambda>(err, se). (err, if err = None \<and> 0 < ActionList_Len (seActions se) then se\<lparr>seOffered := True\<rparr> else se)) in
      case inp of
        TakeActions \<Rightarrow>
          if seOffered se then
            (let se' = se\<lparr>seActions := [], seOffered := False\<rparr> in
             (offer (guarded se' (interceptAndApply psize peq cf Event_ActionsReceived se')), seActions se))
          else ((None, se), [])
      | InjectEvents events \<Rightarrow> (offer (guarded se (applyAll psize peq cf events se)), [])
      | RequestStatus \<Rightarrow> (offer (None, se), [])
      | Stop \<Rightarrow> ((Some ErrStopped, se), []))"

fun serializerRun ::
  "(Msg \<Rightarrow> nat) \<Rightarrow> protoEqual \<Rightarrow> 'e Config \<Rightarrow> input list \<Rightarrow> serializer \<Rightarrow> ('e exitErr option \<times> serializer) \<times> ActionList list" where
  "serializerRun psize peq cf [] se = ((None, se), [])"
| "serializerRun psize peq cf (inp # inps) se =
     (case serializerStep psize peq cf inp se of
        ((Some err, se), out) \<Rightarrow> ((Some err, se), [out])
      | ((None, se), out) \<Rightarrow> (case serializerRun psize peq cf inps se of (r, outs) \<Rightarrow> (r, out # outs)))"

section \<open>In order, and nothing lost\<close>

text \<open>The state machine on its own, and the events of an input.\<close>

fun applyEvents ::
  "(Msg \<Rightarrow> nat) \<Rightarrow> protoEqual \<Rightarrow> EventList \<Rightarrow> StateMachine \<Rightarrow> (StateMachine \<times> ActionList) option" where
  "applyEvents psize peq [] sm = Some (sm, [])"
| "applyEvents psize peq (ev # evs) sm = do {
     (sm, a) \<leftarrow> applyEvent psize peq ev sm;
     (sm, b) \<leftarrow> applyEvents psize peq evs sm;
     Some (sm, a @ b)
   }"

fun injected :: "input \<Rightarrow> EventList" where
  "injected (InjectEvents events) = events"
| "injected _ = []"

lemma applyEvents_append:
  "applyEvents psize peq xs sm = Some (sm1, a) \<Longrightarrow> applyEvents psize peq ys sm1 = Some (sm2, b) \<Longrightarrow>
     applyEvents psize peq (xs @ ys) sm = Some (sm2, a @ b)"
proof (induction xs arbitrary: sm a)
  case (Cons x xs)
  then obtain sm0 a0 a1 where "applyEvent psize peq x sm = Some (sm0, a0)" "applyEvents psize peq xs sm0 = Some (sm1, a1)" "a = a0 @ a1"
    by (auto simp: bind_eq_Some_conv)
  with Cons show ?case by fastforce
qed auto

lemma interceptAndApply_ok:
  assumes "interceptAndApply psize peq cf ev se = Some (None, se')"
  shows "\<exists>out. applyEvent psize peq ev (seSm se) = Some (seSm se', out) \<and> seActions se' = seActions se @ out \<and> seOffered se' = seOffered se"
  using assms by (auto simp: interceptAndApply_def Let_def bind_eq_Some_conv split: option.splits)

lemma applyAll_ok:
  "applyAll psize peq cf events se = Some (None, se') \<Longrightarrow>
   \<exists>out. applyEvents psize peq events (seSm se) = Some (seSm se', out) \<and> seActions se' = seActions se @ out \<and> seOffered se' = seOffered se"
proof (induction events arbitrary: se)
  case (Cons ev events)
  then obtain se1 where "interceptAndApply psize peq cf ev se = Some (None, se1)" "applyAll psize peq cf events se1 = Some (None, se')"
    by (auto simp: bind_eq_Some_conv split: if_splits)
  with interceptAndApply_ok [OF this(1)] Cons.IH [OF this(2)] show ?case by auto
qed auto

definition stepped :: "(Msg \<Rightarrow> nat) \<Rightarrow> protoEqual \<Rightarrow> EventList \<Rightarrow> serializer \<Rightarrow> ActionList \<Rightarrow> serializer \<Rightarrow> bool" where
  "stepped psize peq evs se handed se' \<longleftrightarrow>
     (\<exists>out. applyEvents psize peq evs (seSm se) = Some (seSm se', out) \<and> handed @ seActions se' = seActions se @ out)"

lemma stepped_trans: "stepped psize peq xs a h b \<Longrightarrow> stepped psize peq ys b k c \<Longrightarrow> stepped psize peq (xs @ ys) a (h @ k) c"
  unfolding stepped_def using applyEvents_append by (metis append.assoc)

lemma serializerStep_ok:
  assumes "serializerStep psize peq cf inp se = ((None, se'), out)"
  shows "stepped psize peq (injected inp) se out se' \<and>
    ((inp \<noteq> TakeActions \<longrightarrow> seActions se' \<noteq> [] \<longrightarrow> seOffered se') \<and> ((seActions se \<noteq> [] \<longrightarrow> seOffered se) \<longrightarrow> seActions se' \<noteq> [] \<longrightarrow> seOffered se'))"
proof (cases inp)
  case TakeActions
  show ?thesis
  proof (cases "seOffered se")
    case True
    let ?se = "se\<lparr>seActions := [], seOffered := False\<rparr>"
    from assms True obtain se1 where "interceptAndApply psize peq cf Event_ActionsReceived ?se = Some (None, se1)"
      "se' = (if seActions se1 \<noteq> [] then se1\<lparr>seOffered := True\<rparr> else se1)" "out = seActions se"
      by (auto simp: TakeActions serializerStep_def Let_def guarded_def split: option.splits prod.splits if_splits)
    with interceptAndApply_ok [OF this(1)] show ?thesis by (auto simp: TakeActions stepped_def applyEvent_def)
  next
    case False
    with assms show ?thesis by (auto simp: TakeActions serializerStep_def Let_def stepped_def)
  qed
next
  case (InjectEvents events)
  with assms obtain se1 where "applyAll psize peq cf events se = Some (None, se1)"
    "se' = (if seActions se1 \<noteq> [] then se1\<lparr>seOffered := True\<rparr> else se1)" "out = []"
    by (auto simp: serializerStep_def Let_def guarded_def split: option.splits prod.splits if_splits)
  with applyAll_ok [OF this(1)] show ?thesis by (auto simp: InjectEvents stepped_def)
next
  case RequestStatus
  with assms show ?thesis by (auto simp: serializerStep_def Let_def stepped_def split: if_splits)
qed (use assms in \<open>auto simp: serializerStep_def Let_def\<close>)

text \<open>C11. The serializer is the state machine on its own: over any inputs, the actions it has handed out followed by those
  it still holds are the actions it began with followed by what the state machine returns for the injected events
  in their order; and once there was any input but the taking of actions, actions that are held are on offer.\<close>

theorem serializer_in_order:
  assumes "serializerRun psize peq cf inps se = ((None, se'), handed)"
  shows "(\<exists>out. applyEvents psize peq (concat (map injected inps)) (seSm se) = Some (seSm se', out) \<and>
       concat handed @ seActions se' = seActions se @ out) \<and>
    ((\<exists>inp \<in> set inps. inp \<noteq> TakeActions) \<longrightarrow> seActions se' \<noteq> [] \<longrightarrow> seOffered se')"
proof -
  have "stepped psize peq (concat (map injected inps)) se (concat handed) se' \<and>
    ((\<exists>inp \<in> set inps. inp \<noteq> TakeActions) \<longrightarrow> seActions se' \<noteq> [] \<longrightarrow> seOffered se') \<and>
    ((seActions se \<noteq> [] \<longrightarrow> seOffered se) \<longrightarrow> seActions se' \<noteq> [] \<longrightarrow> seOffered se')"
    using assms
  proof (induction inps arbitrary: se handed)
    case Nil
    then show ?case by (auto simp: stepped_def)
  next
    case (Cons inp inps)
    then obtain se1 out outs where s: "serializerStep psize peq cf inp se = ((None, se1), out)"
      and r: "serializerRun psize peq cf inps se1 = ((None, se'), outs)" and h: "handed = out # outs"
      by (auto split: prod.splits option.splits)
    from serializerStep_ok [OF s] Cons.IH [OF r] show ?case by (auto simp: h intro: stepped_trans)
  qed
  then show ?thesis by (auto simp: stepped_def)
qed

section \<open>Starting a node\<close>

text \<open>Actions already there are carried along.\<close>

definition having :: "ActionList \<Rightarrow> serializer \<Rightarrow> serializer" where
  "having xs se = se\<lparr>seActions := xs @ seActions se\<rparr>"

lemma having_fields [simp]:
  "seSm (having xs se) = seSm se" "seActions (having xs se) = xs @ seActions se" "seOffered (having xs se) = seOffered se"
  "seSeen (having xs se) = seSeen se"
  by (simp_all add: having_def)

lemma interceptAndApply_having:
  "interceptAndApply psize peq cf ev (having xs se) =
     map_option (\<lambda>(err, se). (err, having xs se)) (interceptAndApply psize peq cf ev se)"
  by (cases "applyEvent psize peq ev (seSm se)") (auto simp: interceptAndApply_def Let_def having_def split: option.splits)

lemma interceptAndApply_quiet:
  assumes "interceptAndApply psize peq cf ev se = Some (err, se')" "\<And>sm sm' out. applyEvent psize peq ev sm = Some (sm', out) \<Longrightarrow> out = []"
  shows "seActions se' = seActions se \<and> seOffered se' = seOffered se"
  using assms by (fastforce simp: interceptAndApply_def Let_def bind_eq_Some_conv split: option.splits)

lemma loadEntry_quiet:
  assumes "loadEntry psize peq cf False e se = Some se'"
  shows "seActions se' = seActions se \<and> seOffered se' = seOffered se"
  using assms interceptAndApply_quiet [of psize peq cf "Event_LoadPersistedEntry (fst e) (snd e)" se]
  by (cases e) (auto simp: loadEntry_def applyEvent_def)

lemma loadEntry_dummy:
  assumes "seActions se = []"
  shows "loadEntry psize peq cf True (i, p) (having xs se) =
    map_option (having (xs @ [Action_AppendWriteAhead i p])) (loadEntry psize peq cf False (i, p) se)"
proof -
  have "(having xs se)\<lparr>seActions := ActionList_Persist (seActions (having xs se)) i p\<rparr> = having (xs @ [Action_AppendWriteAhead i p]) se"
    using assms by (simp add: having_def)
  then show ?thesis
    by (simp add: loadEntry_def interceptAndApply_having option.map_comp comp_def case_prod_beta)
qed

lemma load_dummy:
  assumes "seActions se = []"
  shows "ofold (loadEntry psize peq cf True) es (having xs se) =
    map_option (having (xs @ map (\<lambda>(i, p). Action_AppendWriteAhead i p) es)) (ofold (loadEntry psize peq cf False) es se)"
  using assms
proof (induction es arbitrary: se xs)
  case (Cons e es)
  obtain i p where e: "e = (i, p)" by force
  show ?case
  proof (cases "loadEntry psize peq cf False e se")
    case None
    with Cons.prems show ?thesis by (simp add: e loadEntry_dummy)
  next
    case (Some se1)
    with loadEntry_quiet [OF this] Cons show ?thesis by (simp add: e loadEntry_dummy)
  qed
qed simp

text \<open>C22. A node of a fresh network starts as it would restart: the state machine is the one a restart on the log it asks to
  be written would give, and its first actions are to write that log; they wait until the first input.\<close>

theorem new_node_like_restart:
  assumes "serializerStart psize peq cf (dummyWAL ns v) = (None, se)"
  shows "\<exists>se'. serializerStart psize peq cf (otherWAL (fst (LoadAll (dummyWAL ns v :: 'e WALStorage))) (None :: 'e option)) = (None, se') \<and>
    seSm se' = seSm se \<and> \<not> seOffered se \<and>
    seActions se = map (\<lambda>(i, p). Action_AppendWriteAhead i p) (fst (LoadAll (dummyWAL ns v :: 'e WALStorage))) @ seActions se'"
proof -
  let ?se = "\<lparr>seSm = newStateMachine, seActions = [], seOffered = False, seSeen = []\<rparr>"
  let ?es = "fst (LoadAll (dummyWAL ns v :: 'e WALStorage))"
  let ?ws = "map (\<lambda>(i, p). Action_AppendWriteAhead i p) ?es"
  from assms obtain se1 where i: "interceptAndApply psize peq cf (Event_Initialize (initialParameters cf)) ?se = Some (None, se1)"
    and d: "Option.bind (ofold (loadEntry psize peq cf True) ?es se1) (interceptAndApply psize peq cf Event_CompleteInitialization) = Some (None, se)"
    by (auto simp: serializerStart_def guarded_def Let_def bind_eq_Some_conv simp del: LoadAll.simps(1) split: option.splits if_splits)
  from interceptAndApply_quiet [OF i] have q: "seActions se1 = []" "\<not> seOffered se1" by (auto simp: applyEvent_def)
  have "having [] se1 = se1" by (simp add: having_def)
  with load_dummy [OF q(1), of psize peq cf ?es "[]"] d obtain se2 where
    l: "ofold (loadEntry psize peq cf False) ?es se1 = Some se2"
    and c: "interceptAndApply psize peq cf Event_CompleteInitialization (having ?ws se2) = Some (None, se)"
    by (auto simp: bind_eq_Some_conv)
  from c obtain se3 where r: "interceptAndApply psize peq cf Event_CompleteInitialization se2 = Some (None, se3)" "se = having ?ws se3"
    by (auto simp: interceptAndApply_having)
  have "\<not> seOffered se2"
    using l q(2) by (rule ofold_invariant) (simp add: loadEntry_quiet)
  with interceptAndApply_ok [OF r(1)] have "\<not> seOffered se3" by auto
  with i l r show ?thesis by (auto simp: serializerStart_def guarded_def Let_def)
qed

text \<open>The example: the node of the network with one node.\<close>

definition oneConfig :: "unit Config" where
  "oneConfig = \<lparr>cfID = 0, cfBatchSize = 1, cfHeartbeatTicks = 1, cfSuspectTicks = 4, cfNewEpochTimeoutTicks = 8,
     cfBufferSize = 1000, cfEventInterceptor = None\<rparr>"

lemma oneConfig_starts: "fst (serializerStart (\<lambda>_. 1) (=) oneConfig (dummyWAL oneState (Some [1]))) = None"
  by code_simp

theorem new_node_like_restart_witness:
  "\<exists>se se'. serializerStart (\<lambda>_. 1) (=) oneConfig (dummyWAL oneState (Some [1])) = (None, se) \<and>
     serializerStart (\<lambda>_. 1) (=) oneConfig (otherWAL (fst (LoadAll (dummyWAL oneState (Some [1]) :: unit WALStorage))) None) = (None, se') \<and>
     seSm se' = seSm se \<and> \<not> seOffered se \<and>
     seActions se = map (\<lambda>(i, p). Action_AppendWriteAhead i p) (fst (LoadAll (dummyWAL oneState (Some [1]) :: unit WALStorage))) @ seActions se'"
proof -
  from oneConfig_starts obtain se where s: "serializerStart (\<lambda>_. 1) (=) oneConfig (dummyWAL oneState (Some [1])) = (None, se)"
    by (metis prod.collapse)
  with new_node_like_restart [OF s] show ?thesis by blast
qed

theorem serializer_in_order_witness:
  "\<exists>se se' handed out. serializerStart (\<lambda>_. 1) (=) oneConfig (dummyWAL oneState (Some [1])) = (None, se) \<and>
     serializerRun (\<lambda>_. 1) (=) oneConfig [RequestStatus, TakeActions] se = ((None, se'), handed) \<and>
     applyEvents (\<lambda>_. 1) (=) (concat (map injected [RequestStatus, TakeActions])) (seSm se) = Some (seSm se', out) \<and>
     concat handed @ seActions se' = seActions se @ out"
proof -
  from oneConfig_starts obtain se where s: "serializerStart (\<lambda>_. 1) (=) oneConfig (dummyWAL oneState (Some [1])) = (None, se)"
    by (metis prod.collapse)
  have i: "cfEventInterceptor oneConfig = None" by (simp add: oneConfig_def)
  have "fst (fst (serializerRun (\<lambda>_. 1) (=) oneConfig [RequestStatus, TakeActions] se)) = None"
    by (simp add: serializerStep_def Let_def interceptAndApply_def i applyEvent_def guarded_def)
  then obtain se' handed where r: "serializerRun (\<lambda>_. 1) (=) oneConfig [RequestStatus, TakeActions] se = ((None, se'), handed)"
    by (metis prod.collapse)
  from serializer_in_order [OF r] s r show ?thesis by blast
qed

section \<open>The standard network\<close>

text \<open>C32. The standard network of up to 42949672 nodes is one the protocol is made for: its nodes are distinct and more than
  three times as many as the faults it tolerates, which are the most possible, and the intervals are what they are meant to
  be; with one node more the length of an epoch overflows.\<close>

theorem standard_network_correct:
  assumes "1 \<le> n" "n \<le> 42949672" "0 \<le> c" "c < 2 ^ 64"
  shows "\<exists>ns. StandardInitialNetworkState n c = Some ns \<and> wf_config (nsConfig ns) \<and>
    int (length (ncNodes (nsConfig ns))) = n \<and> n \<le> 3 * sint (ncF (nsConfig ns)) + 3 \<and>
    sint (ncNumberOfBuckets (nsConfig ns)) = n \<and> sint (ncCheckpointInterval (nsConfig ns)) = 5 * n \<and>
    uint (ncMaxEpochLength (nsConfig ns)) = 50 * n \<and> distinct (map clId (nsClients ns)) \<and>
    map_option (\<lambda>ns. uint (ncMaxEpochLength (nsConfig ns))) (StandardInitialNetworkState 42949673 c) = Some (2 ^ 64 - 2147483646)"
proof -
  have small: "sint (word_of_int k :: i32) = k" if "0 \<le> k" "k < 2 ^ 31" for k
    using that by (simp add: int_word_sint)
  have inj: "distinct (map (word_of_int :: int \<Rightarrow> u64) [0..m - 1])" if "m \<le> 2 ^ 64" for m
    using that by (auto simp: distinct_map inj_on_def word_of_int_eq_iff take_bit_int_eq_self)
  have f: "(n - 1) sdiv 3 = (n - 1) div 3" using assms(1) by (cases "n = 1") (simp_all add: signed_divide_int_def)
  have w: "(word_of_int n :: i32) * 5 = word_of_int (5 * n)" "(word_of_int n :: i32) * 5 * 10 = word_of_int (50 * n)"
    by (simp_all add: mult.commute)
  have "0 \<le> (n - 1) div 3" "3 * ((n - 1) div 3) < n" "n \<le> 3 * ((n - 1) div 3) + 3" "(n - 1) div 3 < 2147483648"
    using assms(1,2) by linarith+
  moreover have "uint (scast (50 * word_of_int n :: i32) :: u64) = 50 * n"
  proof -
    have e: "(50 * word_of_int n :: i32) = word_of_int (50 * n)" by simp
    have "sint (word_of_int (50 * n) :: i32) = 50 * n" using assms(1,2) by (intro small) simp_all
    moreover have "uint (word_of_int (50 * n) :: u64) = 50 * n" using assms(1,2) by (subst uint_word_of_int) simp
    ultimately show ?thesis unfolding e scast_eq by (simp only:)
  qed
  ultimately show ?thesis
    using assms inj [of n] inj [of c] small [of n] small [of "5 * n"] small [of "50 * n"] small [of "(n - 1) div 3"]
    by (simp add: StandardInitialNetworkState_def Let_def wf_config_def f w comp_def)
qed

theorem standard_network_correct_witness:
  "\<exists>ns. StandardInitialNetworkState 4 2 = Some ns \<and> wf_config (nsConfig ns) \<and> int (length (ncNodes (nsConfig ns))) = 4 \<and>
     4 \<le> 3 * sint (ncF (nsConfig ns)) + 3 \<and> sint (ncNumberOfBuckets (nsConfig ns)) = 4 \<and>
     sint (ncCheckpointInterval (nsConfig ns)) = 5 * 4 \<and> uint (ncMaxEpochLength (nsConfig ns)) = 50 * 4 \<and>
     distinct (map clId (nsClients ns))"
  using standard_network_correct [of 4 2] by auto

end
