(* ===== verification/Mir_ReqStore.thy ===== *)
theory Mir_ReqStore
  imports Mir_Format Mir_Actions
begin

text \<open>
  \<open>pkg/reqstore/reqstore.go\<close>: the request store of the samples, on a badger database. The database is third-party: the
  record \<open>badger\<close> of its operations, with the documented behaviour of its transactions as the predicate
  \<open>badgerLaws\<close>. The theory shows that the store refines two maps, from request numbers to digests and from
  acknowledgements to data, because the keys it uses never collide.
\<close>

section \<open>Keys\<close>

definition reqKey :: "RequestAck \<Rightarrow> string" where
  [go_defs]: "reqKey ack = ''req-'' @ decimal (unat (ackClientId ack)) @ ''.'' @ decimal (unat (ackReqNo ack)) @ ''.'' @ hex (bstr (ackDigest ack))"

definition allocKey :: "u64 \<Rightarrow> u64 \<Rightarrow> string" where
  [go_defs]: "allocKey clientID reqNo = ''alloc-'' @ decimal (unat clientID) @ ''.'' @ decimal (unat reqNo)"

lemma dot_no_digit: "\<not> digit CHR ''.''"
  by (simp add: digit_def)

lemma unat_inject [simp]: "unat (a :: u64) = unat b \<longleftrightarrow> a = b"
  by (auto intro: unsigned_word_eqI)

lemma reqKey_inject:
  "reqKey a = reqKey b \<longleftrightarrow>
     ackClientId a = ackClientId b \<and> ackReqNo a = ackReqNo b \<and> bstr (ackDigest a) = bstr (ackDigest b)"
  using dot_no_digit by (auto simp: reqKey_def decimal_append_inject)

lemma allocKey_inject: "allocKey c r = allocKey c' r' \<longleftrightarrow> c = c' \<and> r = r'"
  using dot_no_digit by (auto simp: allocKey_def decimal_append_inject)

lemma keys_disjoint [simp]: "reqKey ack \<noteq> allocKey c r" "allocKey c r \<noteq> reqKey ack"
  by (simp_all add: reqKey_def allocKey_def)

section \<open>The database\<close>

datatype 'e dbError = ErrKeyNotFound | OtherError 'e

text \<open>A transaction that sets or deletes one key, one that reads one key, and the sync.\<close>

record ('s, 'e) badger =
  dbSet :: "'s \<Rightarrow> string \<Rightarrow> bytes \<Rightarrow> 's \<times> 'e dbError option"
  dbDelete :: "'s \<Rightarrow> string \<Rightarrow> 's \<times> 'e dbError option"
  dbGet :: "'s \<Rightarrow> string \<Rightarrow> 'e dbError + bytes"
  dbSync :: "'s \<Rightarrow> 's \<times> 'e dbError option"

text \<open>
  The database holds a map from keys to values: a transaction that fails leaves it as it is, a get that succeeds
  returns the value, and one that does not find the key says so.
\<close>

definition badgerLaws :: "('s, 'e) badger \<Rightarrow> ('s \<Rightarrow> string \<rightharpoonup> byte list) \<Rightarrow> bool" where
  "badgerLaws db content \<longleftrightarrow>
     (\<forall>s k v s'. dbSet db s k v = (s', None) \<longrightarrow> content s' = (content s)(k \<mapsto> bstr v)) \<and>
     (\<forall>s k v s' e. dbSet db s k v = (s', Some e) \<longrightarrow> content s' = content s) \<and>
     (\<forall>s k s'. dbDelete db s k = (s', None) \<longrightarrow> content s' = (content s)(k := None)) \<and>
     (\<forall>s k s' e. dbDelete db s k = (s', Some e) \<longrightarrow> content s' = content s) \<and>
     (\<forall>s k v. dbGet db s k = Inr v \<longrightarrow> content s k = Some (bstr v)) \<and>
     (\<forall>s k. dbGet db s k = Inl ErrKeyNotFound \<longrightarrow> content s k = None) \<and>
     (\<forall>s s' r. dbSync db s = (s', r) \<longrightarrow> content s' = content s)"

section \<open>The store\<close>

definition PutAllocation :: "('s, 'e) badger \<Rightarrow> 's \<Rightarrow> u64 \<Rightarrow> u64 \<Rightarrow> bytes \<Rightarrow> 's \<times> 'e dbError option" where
  [go_defs]: "PutAllocation db s clientID reqNo digest = dbSet db s (allocKey clientID reqNo) digest"

definition GetAllocation :: "('s, 'e) badger \<Rightarrow> 's \<Rightarrow> u64 \<Rightarrow> u64 \<Rightarrow> 'e dbError + bytes" where
  [go_defs]: "GetAllocation db s clientID reqNo =
     (case dbGet db s (allocKey clientID reqNo) of Inl ErrKeyNotFound \<Rightarrow> Inr None | r \<Rightarrow> r)"

definition PutRequest :: "('s, 'e) badger \<Rightarrow> 's \<Rightarrow> RequestAck \<Rightarrow> bytes \<Rightarrow> 's \<times> 'e dbError option" where
  [go_defs]: "PutRequest db s requestAck data = dbSet db s (reqKey requestAck) data"

definition GetRequest :: "('s, 'e) badger \<Rightarrow> 's \<Rightarrow> RequestAck \<Rightarrow> 'e dbError + bytes" where
  [go_defs]: "GetRequest db s requestAck =
     (case dbGet db s (reqKey requestAck) of Inl ErrKeyNotFound \<Rightarrow> Inr None | r \<Rightarrow> r)"

definition Store_Commit :: "('s, 'e) badger \<Rightarrow> 's \<Rightarrow> RequestAck \<Rightarrow> 's \<times> 'e dbError option" where
  [go_defs]: "Store_Commit db s ack = dbDelete db s (reqKey ack)"

definition Store_Sync :: "('s, 'e) badger \<Rightarrow> 's \<Rightarrow> 's \<times> 'e dbError option" where
  [go_defs]: "Store_Sync db s = dbSync db s"

section \<open>The contract\<close>

text \<open>
  The interface \<open>RequestStore\<close> the client processor works with, and what it may expect of it: the allocations and the
  requests are two maps, a request known by client, number and the contents of its digest.
\<close>

record ('s, 'e) RequestStore =
  rsGetAllocation :: "'s \<Rightarrow> u64 \<Rightarrow> u64 \<Rightarrow> 'e + bytes"
  rsPutAllocation :: "'s \<Rightarrow> u64 \<Rightarrow> u64 \<Rightarrow> bytes \<Rightarrow> 's \<times> 'e option"
  rsGetRequest :: "'s \<Rightarrow> RequestAck \<Rightarrow> 'e + bytes"
  rsPutRequest :: "'s \<Rightarrow> RequestAck \<Rightarrow> bytes \<Rightarrow> 's \<times> 'e option"
  rsSync :: "'s \<Rightarrow> 's \<times> 'e option"

definition ackKey :: "RequestAck \<Rightarrow> u64 \<times> u64 \<times> byte list" where
  "ackKey ack = (ackClientId ack, ackReqNo ack, bstr (ackDigest ack))"

definition storeLaws ::
  "('s, 'e) RequestStore \<Rightarrow> ('s \<Rightarrow> u64 \<times> u64 \<rightharpoonup> byte list) \<Rightarrow> ('s \<Rightarrow> u64 \<times> u64 \<times> byte list \<rightharpoonup> byte list) \<Rightarrow> bool" where
  "storeLaws rs allocs reqs \<longleftrightarrow>
     (\<forall>s c r v. rsGetAllocation rs s c r = Inr v \<longrightarrow>
        (case allocs s (c, r) of None \<Rightarrow> v = None | Some d \<Rightarrow> bstr v = d)) \<and>
     (\<forall>s c r d s'. rsPutAllocation rs s c r d = (s', None) \<longrightarrow> allocs s' = (allocs s)((c, r) \<mapsto> bstr d) \<and> reqs s' = reqs s) \<and>
     (\<forall>s c r d s' e. rsPutAllocation rs s c r d = (s', Some e) \<longrightarrow> allocs s' = allocs s \<and> reqs s' = reqs s) \<and>
     (\<forall>s a v. rsGetRequest rs s a = Inr v \<longrightarrow>
        (case reqs s (ackKey a) of None \<Rightarrow> v = None | Some d \<Rightarrow> bstr v = d)) \<and>
     (\<forall>s a v s'. rsPutRequest rs s a v = (s', None) \<longrightarrow> reqs s' = (reqs s)(ackKey a \<mapsto> bstr v) \<and> allocs s' = allocs s) \<and>
     (\<forall>s a v s' e. rsPutRequest rs s a v = (s', Some e) \<longrightarrow> reqs s' = reqs s \<and> allocs s' = allocs s) \<and>
     (\<forall>s s' r. rsSync rs s = (s', r) \<longrightarrow> reqs s' = reqs s \<and> allocs s' = allocs s)"

definition badgerStore :: "('s, 'e) badger \<Rightarrow> ('s, 'e dbError) RequestStore" where
  "badgerStore db = \<lparr>rsGetAllocation = GetAllocation db, rsPutAllocation = PutAllocation db,
     rsGetRequest = GetRequest db, rsPutRequest = PutRequest db, rsSync = Store_Sync db\<rparr>"

definition allocsOf :: "('s \<Rightarrow> string \<rightharpoonup> byte list) \<Rightarrow> 's \<Rightarrow> u64 \<times> u64 \<rightharpoonup> byte list" where
  "allocsOf content s = (\<lambda>(c, r). content s (allocKey c r))"

definition reqsOf :: "('s \<Rightarrow> string \<rightharpoonup> byte list) \<Rightarrow> 's \<Rightarrow> u64 \<times> u64 \<times> byte list \<rightharpoonup> byte list" where
  "reqsOf content s = (\<lambda>(c, r, d). content s (reqKey \<lparr>ackClientId = c, ackReqNo = r, ackDigest = Some d\<rparr>))"

lemma allocsOf_set:
  assumes "content s' = (content s)(allocKey c r := v)"
  shows "allocsOf content s' = (allocsOf content s)((c, r) := v)" "reqsOf content s' = reqsOf content s"
  by (auto simp: allocsOf_def reqsOf_def assms allocKey_inject fun_eq_iff)

lemma reqsOf_set:
  assumes "content s' = (content s)(reqKey a := v)"
  shows "reqsOf content s' = (reqsOf content s)(ackKey a := v)" "allocsOf content s' = allocsOf content s"
  by (auto simp: allocsOf_def reqsOf_def ackKey_def assms reqKey_inject fun_eq_iff)

lemma reqsOf_ackKey: "reqsOf content s (ackKey a) = content s (reqKey a)"
  by (auto simp: reqsOf_def ackKey_def intro!: arg_cong [where f = "content s"] simp: reqKey_inject)

lemma same_content:
  assumes "content s' = content s"
  shows "allocsOf content s' = allocsOf content s" "reqsOf content s' = reqsOf content s"
  by (simp_all add: allocsOf_def reqsOf_def assms)

lemma badgerLawsD:
  assumes "badgerLaws db content"
  shows "dbSet db s k v = (s', None) \<Longrightarrow> content s' = (content s)(k \<mapsto> bstr v)"
    and "dbSet db s k v = (s', Some e) \<Longrightarrow> content s' = content s"
    and "dbGet db s k = Inr v \<Longrightarrow> content s k = Some (bstr v)"
    and "dbGet db s k = Inl ErrKeyNotFound \<Longrightarrow> content s k = None"
    and "dbDelete db s k = (s', None) \<Longrightarrow> content s' = (content s)(k := None)"
    and "dbDelete db s k = (s', Some e) \<Longrightarrow> content s' = content s"
    and "dbSync db s = (s', r) \<Longrightarrow> content s' = content s"
  using assms unfolding badgerLaws_def by metis+

lemma badger_get:
  assumes "badgerLaws db content" "(case dbGet db s k of Inl ErrKeyNotFound \<Rightarrow> Inr None | r \<Rightarrow> r) = Inr v"
  shows "case content s k of None \<Rightarrow> v = None | Some d \<Rightarrow> bstr v = d"
  using assms(2) badgerLawsD(3,4) [OF assms(1), of s k] by (auto split: sum.splits dbError.splits)

lemma badger_store_laws:
  assumes laws: "badgerLaws db content"
  shows "storeLaws (badgerStore db) (allocsOf content) (reqsOf content)"
  unfolding storeLaws_def badgerStore_def RequestStore.simps PutAllocation_def PutRequest_def Store_Sync_def
    GetAllocation_def GetRequest_def
proof (intro conjI allI impI)
  fix s c r v assume "(case dbGet db s (allocKey c r) of Inl ErrKeyNotFound \<Rightarrow> Inr None | r \<Rightarrow> r) = Inr v"
  from badger_get [OF laws this] show "case allocsOf content s (c, r) of None \<Rightarrow> v = None | Some d \<Rightarrow> bstr v = d"
    by (simp add: allocsOf_def)
next
  fix s a v assume "(case dbGet db s (reqKey a) of Inl ErrKeyNotFound \<Rightarrow> Inr None | r \<Rightarrow> r) = Inr v"
  from badger_get [OF laws this] show "case reqsOf content s (ackKey a) of None \<Rightarrow> v = None | Some d \<Rightarrow> bstr v = d"
    by (simp add: reqsOf_ackKey)
qed (blast dest: badgerLawsD [OF laws] allocsOf_set reqsOf_set same_content)+

text \<open>C14. On any database with the documented behaviour the request store is two independent maps: an allocation or
  a request that was put is what a get returns until it is put again or committed, no put or commit of one key touches
  another, and an operation that fails changes nothing.\<close>

theorem request_store_refines:
  assumes "badgerLaws db content"
  shows "storeLaws (badgerStore db) (allocsOf content) (reqsOf content) \<and>
    (\<forall>s ack s' e. Store_Commit db s ack = (s', e) \<longrightarrow> allocsOf content s' = allocsOf content s \<and>
       reqsOf content s' = (if e = None then (reqsOf content s)(ackKey ack := None) else reqsOf content s))"
proof (intro conjI allI impI)
  fix s ack s' e assume c: "Store_Commit db s ack = (s', e)"
  show "allocsOf content s' = allocsOf content s"
    using c by (cases e) (auto simp: Store_Commit_def dest!: badgerLawsD(5,6) [OF assms] dest: reqsOf_set(2) same_content(1))
  show "reqsOf content s' = (if e = None then (reqsOf content s)(ackKey ack := None) else reqsOf content s)"
    using c by (cases e) (auto simp: Store_Commit_def dest!: badgerLawsD(5,6) [OF assms] dest: reqsOf_set(1) same_content(2))
qed (rule badger_store_laws [OF assms])

text \<open>A database in memory.\<close>

definition memDB :: "(string \<rightharpoonup> byte list, unit) badger" where
  "memDB = \<lparr>dbSet = (\<lambda>s k v. (s(k \<mapsto> bstr v), None)), dbDelete = (\<lambda>s k. (s(k := None), None)),
     dbGet = (\<lambda>s k. case s k of None \<Rightarrow> Inl ErrKeyNotFound | Some v \<Rightarrow> Inr (Some v)), dbSync = (\<lambda>s. (s, None))\<rparr>"

lemma memDB_laws: "badgerLaws memDB id"
  by (auto simp: badgerLaws_def memDB_def split: option.splits)

definition storedAck :: RequestAck where
  "storedAck = \<lparr>ackClientId = 7, ackReqNo = 0, ackDigest = Some [1, 5]\<rparr>"

definition oneStored :: "string \<rightharpoonup> byte list" where
  "oneStored = [reqKey storedAck \<mapsto> [5]]"

theorem request_store_refines_witness:
  "badgerLaws memDB id \<and> storeLaws (badgerStore memDB) (allocsOf id) (reqsOf id) \<and>
   (\<exists>s'. Store_Commit memDB oneStored storedAck = (s', None) \<and> allocsOf id s' = allocsOf id oneStored \<and>
      reqsOf id s' = (reqsOf id oneStored)(ackKey storedAck := None))"
proof -
  have "\<exists>s'. Store_Commit memDB oneStored storedAck = (s', None)" by (simp add: Store_Commit_def memDB_def)
  with request_store_refines [OF memDB_laws] memDB_laws show ?thesis by fastforce
qed

end
