(* ===== verification/Mir_ClientProcessor.thy ===== *)
theory Mir_ClientProcessor
  imports Mir_ReqStore
begin

text \<open>
  \<open>client_processor.go\<close>: accepting requests of clients and telling the state machine which requests are stored. The
  hasher is a parameter, and the request store any implementation of the interface; the mutexes make
  each operation below one step. The list \<open>requests\<close> and the map \<open>reqNoMap\<close> of a client hold the same
  elements, so they are one association list in the order of the list.
\<close>

section \<open>Work for the state machine\<close>

datatype readyChan = OpenChan | ClosedChan

record ClientWork =
  cwReadyC :: "readyChan option"
  cwEvents :: "EventList option"

definition noWork :: ClientWork where
  "noWork = \<lparr>cwReadyC = None, cwEvents = None\<rparr>"

text \<open>Closing a closed channel panics.\<close>

definition closeChan :: "readyChan \<Rightarrow> readyChan option" where
  [go_defs]: "closeChan c = (case c of OpenChan \<Rightarrow> Some ClosedChan | ClosedChan \<Rightarrow> None)"

definition cw_Ready :: "ClientWork \<Rightarrow> (ClientWork \<times> readyChan) option" where
  [go_defs]: "cw_Ready cw =
     (case cwReadyC cw of
        Some c \<Rightarrow> Some (cw, c)
      | None \<Rightarrow> do {
          c \<leftarrow> (if cwEvents cw \<noteq> None then closeChan OpenChan else Some OpenChan);
          Some (cw\<lparr>cwReadyC := Some c\<rparr>, c)
        })"

definition cw_Results :: "ClientWork \<Rightarrow> ClientWork \<times> EventList option" where
  [go_defs]: "cw_Results cw = (cw\<lparr>cwReadyC := None, cwEvents := None\<rparr>, cwEvents cw)"

definition addPersistedReq :: "RequestAck \<Rightarrow> ClientWork \<Rightarrow> ClientWork option" where
  [go_defs]: "addPersistedReq ack cw = do {
     cw \<leftarrow> (case cwEvents cw of
        Some _ \<Rightarrow> Some cw
      | None \<Rightarrow>
          (case cwReadyC cw of
             None \<Rightarrow> Some (cw\<lparr>cwEvents := Some []\<rparr>)
           | Some c \<Rightarrow> do { c \<leftarrow> closeChan c; Some (cw\<lparr>cwEvents := Some [], cwReadyC := Some c\<rparr>) }));
     Some (cw\<lparr>cwEvents := map_option (\<lambda>el. EventList_RequestPersisted el ack) (cwEvents cw)\<rparr>)
   }"

section \<open>Clients\<close>

record localRequest =
  lrReqNo :: u64
  lrLocalAllocationDigest :: bytes
  lrRemoteCorrectDigests :: "bytes list"

record Client =
  clClientID :: u64
  clRequests :: "(u64, localRequest) gomap"
  clNextReqNo :: u64

definition newLocalClient :: "u64 \<Rightarrow> Client" where
  [go_defs]: "newLocalClient clientID = \<lparr>clClientID = clientID, clRequests = [], clNextReqNo = 0\<rparr>"

datatype 'e clientError =
    ErrClientNotExist
  | WrongReqNo u64
  | DifferentDigest bytes bytes
  | OtherCorrectDigest
  | GetKeyFailed u64 u64 'e
  | RequestNotStored 'e
  | AllocationNotStored 'e
  | StoreNotSynced 'e

definition lc_allocate :: "('s, 'e) RequestStore \<Rightarrow> 's \<Rightarrow> u64 \<Rightarrow> Client \<Rightarrow> Client \<times> ('e clientError + bytes)" where
  [go_defs]: "lc_allocate rs s reqNo c =
     (case gm_lookup (clRequests c) reqNo of
        Some clientReq \<Rightarrow> (c, Inr (lrLocalAllocationDigest clientReq))
      | None \<Rightarrow>
          (let cr = \<lparr>lrReqNo = reqNo, lrLocalAllocationDigest = None, lrRemoteCorrectDigests = []\<rparr>;
               c = c\<lparr>clRequests := gm_update reqNo cr (clRequests c)\<rparr> in
           case rsGetAllocation rs s (clClientID c) reqNo of
             Inl err \<Rightarrow> (c, Inl (GetKeyFailed (clClientID c) reqNo err))
           | Inr digest \<Rightarrow>
               (c\<lparr>clRequests := gm_update reqNo (cr\<lparr>lrLocalAllocationDigest := digest\<rparr>) (clRequests c)\<rparr>, Inr digest)))"

definition NextReqNo :: "Client \<Rightarrow> 'e clientError + u64" where
  [go_defs]: "NextReqNo c = (if clRequests c = [] then Inl ErrClientNotExist else Inr (clNextReqNo c))"

text \<open>
  \<open>Propose\<close>: the entry of a request number, made when there is none; storing a request that may be stored; and the
  whole, whose result is the error, if any.
\<close>

definition entryFor :: "u64 \<Rightarrow> Client \<Rightarrow> localRequest" where
  [go_defs]: "entryFor reqNo c =
     (case gm_lookup (clRequests c) reqNo of
        Some cr \<Rightarrow> cr
      | None \<Rightarrow> \<lparr>lrReqNo = reqNo, lrLocalAllocationDigest = None, lrRemoteCorrectDigests = []\<rparr>)"

definition storeProposal ::
  "('s, 'e) RequestStore \<Rightarrow> RequestAck \<Rightarrow> bytes \<Rightarrow> bool \<Rightarrow> Client \<times> ClientWork \<times> 's \<Rightarrow>
     ((Client \<times> ClientWork \<times> 's) \<times> 'e clientError option) option" where
  [go_defs]: "storeProposal rs ack data previouslyAllocated st =
     (case st of (c, cw, s) \<Rightarrow>
      case rsPutRequest rs s ack data of
        (s, Some err) \<Rightarrow> Some ((c, cw, s), Some (RequestNotStored err))
      | (s, None) \<Rightarrow>
          (case rsPutAllocation rs s (clClientID c) (ackReqNo ack) (ackDigest ack) of
             (s, Some err) \<Rightarrow> Some ((c, cw, s), Some (AllocationNotStored err))
           | (s, None) \<Rightarrow>
               let cr = (entryFor (ackReqNo ack) c)\<lparr>lrLocalAllocationDigest := ackDigest ack\<rparr>;
                   c = c\<lparr>clRequests := gm_update (ackReqNo ack) cr (clRequests c)\<rparr> in
               do {
                 cw \<leftarrow> (if previouslyAllocated then addPersistedReq ack cw else Some cw);
                 Some ((c, cw, s), None)
               }))"

definition Propose ::
  "('s, 'e) RequestStore \<Rightarrow> (bytes list \<Rightarrow> bytes) \<Rightarrow> u64 \<Rightarrow> bytes \<Rightarrow> Client \<times> ClientWork \<times> 's \<Rightarrow>
     ((Client \<times> ClientWork \<times> 's) \<times> 'e clientError option) option" where
  [go_defs]: "Propose rs hsum reqNo data st =
     (case st of (c, cw, s) \<Rightarrow>
      let digest = hsum [data] in
      if clRequests c = [] then Some ((c, cw, s), Some ErrClientNotExist)
      else if reqNo < clNextReqNo c then Some ((c, cw, s), None)
      else if reqNo > clNextReqNo c then Some ((c, cw, s), Some (WrongReqNo (clNextReqNo c)))
      else
        let previouslyAllocated = (gm_lookup (clRequests c) reqNo \<noteq> None);
            cr = entryFor reqNo c;
            c = c\<lparr>clNextReqNo := clNextReqNo c + 1, clRequests := gm_update reqNo cr (clRequests c)\<rparr> in
        if lrLocalAllocationDigest cr \<noteq> None then
          Some ((c, cw, s),
            if bytes_equal (lrLocalAllocationDigest cr) digest then None
            else Some (DifferentDigest digest (lrLocalAllocationDigest cr)))
        else if lrRemoteCorrectDigests cr \<noteq> [] \<and> \<not> list_ex (\<lambda>rd. bytes_equal rd digest) (lrRemoteCorrectDigests cr) then
          Some ((c, cw, s), Some OtherCorrectDigest)
        else
          storeProposal rs \<lparr>ackClientId = clClientID c, ackReqNo = reqNo, ackDigest = digest\<rparr> data previouslyAllocated (c, cw, s))"

section \<open>The client processor\<close>

record 's ClientProcessor =
  cpClients :: "(u64, Client) gomap"
  cpWork :: ClientWork
  cpStore :: 's

definition cp_Client :: "u64 \<Rightarrow> 's ClientProcessor \<Rightarrow> 's ClientProcessor \<times> Client" where
  [go_defs]: "cp_Client clientID cp =
     (case gm_lookup (cpClients cp) clientID of
        Some c \<Rightarrow> (cp, c)
      | None \<Rightarrow> (let c = newLocalClient clientID in (cp\<lparr>cpClients := gm_update clientID c (cpClients cp)\<rparr>, c)))"

fun processAllocations ::
  "('s, 'e) RequestStore \<Rightarrow> ActionList \<Rightarrow> EventList \<Rightarrow> 's ClientProcessor \<Rightarrow> 's ClientProcessor \<times> ('e clientError + EventList)" where
  "processAllocations rs [] events cp = (cp, Inr events)"
| "processAllocations rs (Action_AllocatedRequest clientID reqNo # rest) events cp =
     (let (cp, client) = cp_Client clientID cp;
          (client, r) = lc_allocate rs (cpStore cp) reqNo client;
          cp = cp\<lparr>cpClients := gm_update clientID client (cpClients cp)\<rparr> in
      case r of
        Inl err \<Rightarrow> (cp, Inl err)
      | Inr None \<Rightarrow> processAllocations rs rest events cp
      | Inr (Some digest) \<Rightarrow>
          processAllocations rs rest
            (EventList_RequestPersisted events \<lparr>ackClientId = clientID, ackReqNo = reqNo, ackDigest = Some digest\<rparr>) cp)"
| "processAllocations rs (_ # rest) events cp = processAllocations rs rest events cp"

definition cp_Process ::
  "('s, 'e) RequestStore \<Rightarrow> ActionList \<Rightarrow> 's ClientProcessor \<Rightarrow> 's ClientProcessor \<times> ('e clientError + EventList)" where
  [go_defs]: "cp_Process rs actions cp =
     (case processAllocations rs actions [] cp of
        (cp, Inl err) \<Rightarrow> (cp, Inl err)
      | (cp, Inr events) \<Rightarrow>
          (case rsSync rs (cpStore cp) of
             (s, Some err) \<Rightarrow> (cp\<lparr>cpStore := s\<rparr>, Inl (StoreNotSynced err))
           | (s, None) \<Rightarrow> (cp\<lparr>cpStore := s\<rparr>, Inr events)))"

section \<open>Runs\<close>

text \<open>
  What can be done with a client processor: requests proposed to a client, actions processed, work collected, and a
  restart, which keeps the store alone. A run returns the events handed over.
\<close>

datatype procOp =
    DoPropose u64 u64 bytes
  | DoProcess ActionList
  | DoResults
  | DoRestart

definition proposeTo ::
  "('s, 'e) RequestStore \<Rightarrow> (bytes list \<Rightarrow> bytes) \<Rightarrow> u64 \<Rightarrow> u64 \<Rightarrow> bytes \<Rightarrow> 's ClientProcessor \<Rightarrow>
     ('s ClientProcessor \<times> 'e clientError option) option" where
  "proposeTo rs hsum clientID reqNo data cp = (case cp_Client clientID cp of (cp, c) \<Rightarrow> do {
     ((c, cw, s), err) \<leftarrow> Propose rs hsum reqNo data (c, cpWork cp, cpStore cp);
     Some (cp\<lparr>cpClients := gm_update clientID c (cpClients cp), cpWork := cw, cpStore := s\<rparr>, err)
   })"

fun procStep ::
  "('s, 'e) RequestStore \<Rightarrow> (bytes list \<Rightarrow> bytes) \<Rightarrow> procOp \<Rightarrow> 's ClientProcessor \<Rightarrow> ('s ClientProcessor \<times> EventList) option" where
  "procStep rs hsum (DoPropose clientID reqNo data) cp =
     map_option (\<lambda>(cp, _). (cp, [])) (proposeTo rs hsum clientID reqNo data cp)"
| "procStep rs hsum (DoProcess actions) cp =
     (case cp_Process rs actions cp of (cp, Inl _) \<Rightarrow> Some (cp, []) | (cp, Inr events) \<Rightarrow> Some (cp, events))"
| "procStep rs hsum DoResults cp =
     (case cw_Results (cpWork cp) of (cw, events) \<Rightarrow>
        Some (cp\<lparr>cpWork := cw\<rparr>, case events of None \<Rightarrow> [] | Some el \<Rightarrow> el))"
| "procStep rs hsum DoRestart cp = Some (cp\<lparr>cpClients := [], cpWork := noWork\<rparr>, [])"

fun procRun ::
  "('s, 'e) RequestStore \<Rightarrow> (bytes list \<Rightarrow> bytes) \<Rightarrow> procOp list \<Rightarrow> 's ClientProcessor \<Rightarrow> ('s ClientProcessor \<times> EventList) option" where
  "procRun rs hsum [] cp = Some (cp, [])"
| "procRun rs hsum (x # ops) cp = do {
     (cp, events) \<leftarrow> procStep rs hsum x cp;
     (cp, later) \<leftarrow> procRun rs hsum ops cp;
     Some (cp, events @ later)
   }"

definition freshProcessor :: "'s \<Rightarrow> 's ClientProcessor" where
  "freshProcessor s = \<lparr>cpClients = [], cpWork = noWork, cpStore = s\<rparr>"

section \<open>The channel\<close>

text \<open>A closed channel announces events, and while there are none it is not closed.\<close>

definition cwInv :: "ClientWork \<Rightarrow> bool" where
  "cwInv cw \<longleftrightarrow> (\<forall>c. cwReadyC cw = Some c \<longrightarrow> (c = ClosedChan \<longleftrightarrow> cwEvents cw \<noteq> None))"

definition pendingEvents :: "ClientWork \<Rightarrow> EventList" where
  "pendingEvents cw = (case cwEvents cw of None \<Rightarrow> [] | Some el \<Rightarrow> el)"

lemma noWork_inv [simp]: "cwInv noWork" "pendingEvents noWork = []"
  by (simp_all add: cwInv_def noWork_def pendingEvents_def)

lemma addPersistedReq_works:
  assumes "cwInv cw"
  shows "\<exists>cw'. addPersistedReq ack cw = Some cw' \<and> cwInv cw' \<and>
    pendingEvents cw' = pendingEvents cw @ [Event_RequestPersisted ack]"
  using assms by (cases "cwEvents cw"; cases "cwReadyC cw")
    (auto simp: addPersistedReq_def cwInv_def closeChan_def pendingEvents_def split: readyChan.split)

lemma cw_Ready_works:
  assumes "cwInv cw"
  shows "\<exists>cw' c. cw_Ready cw = Some (cw', c) \<and> cwInv cw' \<and> cwEvents cw' = cwEvents cw \<and>
    (c = ClosedChan \<longleftrightarrow> cwEvents cw \<noteq> None)"
  using assms by (auto simp: cw_Ready_def cwInv_def closeChan_def split: option.split)

lemma cw_Results_works: "cwInv (fst (cw_Results cw))" "pendingEvents (fst (cw_Results cw)) = []"
  by (simp_all add: cw_Results_def cwInv_def pendingEvents_def)

section \<open>What is announced is stored\<close>

definition isStored ::
  "('s \<Rightarrow> u64 \<times> u64 \<times> byte list \<rightharpoonup> byte list) \<Rightarrow> (bytes list \<Rightarrow> bytes) \<Rightarrow> 's \<Rightarrow> u64 \<times> u64 \<times> byte list \<Rightarrow> bool" where
  "isStored reqs hsum s k \<longleftrightarrow> (\<exists>data. reqs s k = Some (bstr data) \<and> snd (snd k) = bstr (hsum [data]))"

definition announced :: "EventList \<Rightarrow> (u64 \<times> u64 \<times> byte list) set" where
  "announced events = {ackKey ack |ack. Event_RequestPersisted ack \<in> set events}"

lemma announced_simps [simp]:
  "announced [] = {}" "announced (xs @ ys) = announced xs \<union> announced ys"
  "announced [Event_RequestPersisted ack] = {ackKey ack}"
  by (auto simp: announced_def)

text \<open>The requests of a client the node holds itself to be stored.\<close>

definition heldBy :: "u64 \<Rightarrow> Client \<Rightarrow> (u64 \<times> u64 \<times> byte list) set" where
  "heldBy cid c = {(x, r, d). x = cid \<and> (\<exists>cr. gm_lookup (clRequests c) r = Some cr \<and> lrLocalAllocationDigest cr = Some d)}"

definition held :: "(u64, Client) gomap \<Rightarrow> (u64 \<times> u64 \<times> byte list) set" where
  "held cs = {k. \<exists>c. gm_lookup cs (fst k) = Some c \<and> k \<in> heldBy (fst k) c}"

lemma heldBy_fst: "k \<in> heldBy cid c \<Longrightarrow> fst k = cid"
  by (auto simp: heldBy_def)

definition allocated :: "('s \<Rightarrow> u64 \<times> u64 \<rightharpoonup> byte list) \<Rightarrow> 's \<Rightarrow> (u64 \<times> u64 \<times> byte list) set" where
  "allocated allocs s = {(c, r, d). allocs s (c, r) = Some d}"

definition clientIds :: "(u64, Client) gomap \<Rightarrow> bool" where
  "clientIds cs \<longleftrightarrow> (\<forall>cid c. gm_lookup cs cid = Some c \<longrightarrow> clClientID c = cid)"

lemma storeLawsD:
  assumes "storeLaws rs allocs reqs"
  shows "rsGetAllocation rs s c r = Inr v \<Longrightarrow> (case allocs s (c, r) of None \<Rightarrow> v = None | Some d \<Rightarrow> bstr v = d)"
    and "rsPutAllocation rs s c r d = (s', None) \<Longrightarrow> allocs s' = (allocs s)((c, r) \<mapsto> bstr d) \<and> reqs s' = reqs s"
    and "rsPutAllocation rs s c r d = (s', Some e) \<Longrightarrow> allocs s' = allocs s \<and> reqs s' = reqs s"
    and "rsPutRequest rs s a data = (s', None) \<Longrightarrow> reqs s' = (reqs s)(ackKey a \<mapsto> bstr data) \<and> allocs s' = allocs s"
    and "rsPutRequest rs s a data = (s', Some e) \<Longrightarrow> reqs s' = reqs s \<and> allocs s' = allocs s"
    and "rsSync rs s = (s', e') \<Longrightarrow> reqs s' = reqs s \<and> allocs s' = allocs s"
  using assms unfolding storeLaws_def by metis+

lemma heldBy_update:
  "heldBy cid (c\<lparr>clRequests := gm_update r cr (clRequests c)\<rparr>) \<subseteq>
     heldBy cid c \<union> {(cid, r, d) |d. lrLocalAllocationDigest cr = Some d}"
  by (auto simp: heldBy_def update_conv' split: if_splits)

lemma held_update: "held (gm_update cid c cs) \<subseteq> held cs \<union> heldBy cid c"
  by (auto simp: held_def update_conv' split: if_splits)

lemma lc_allocate_held:
  assumes "storeLaws rs allocs reqs" "lc_allocate rs s reqNo c = (c', r)"
  shows "clClientID c' = clClientID c \<and> heldBy (clClientID c) c' \<subseteq> heldBy (clClientID c) c \<union> allocated allocs s \<and>
    (\<forall>d. r = Inr (Some d) \<longrightarrow> (clClientID c, reqNo, d) \<in> heldBy (clClientID c) c')"
  using assms(2) storeLawsD(1) [OF assms(1), of s "clClientID c" reqNo]
  by (auto simp: lc_allocate_def heldBy_def allocated_def Let_def update_conv' split: option.splits sum.splits if_splits)

lemma isStored_same: "reqs s' = reqs s \<Longrightarrow> isStored reqs hsum s' k = isStored reqs hsum s k"
  by (simp add: isStored_def)

lemma isStored_put:
  assumes "reqs s' = (reqs s)(ackKey ack \<mapsto> bstr data)" "ackDigest ack = hsum [data]"
  shows "isStored reqs hsum s' (ackKey ack)" "isStored reqs hsum s k \<Longrightarrow> isStored reqs hsum s' k"
  using assms by (auto simp: isStored_def ackKey_def)

lemma isStored_ack:
  "isStored reqs hsum s (ackKey ack) \<longleftrightarrow>
     (\<exists>data. reqs s (ackKey ack) = Some (bstr data) \<and> bstr (ackDigest ack) = bstr (hsum [data]))"
  by (simp add: isStored_def ackKey_def)

text \<open>What an operation adds is stored: the set \<open>N\<close> of the new requests, all of them in the store afterwards.\<close>

definition addsStored ::
  "('s \<Rightarrow> u64 \<times> u64 \<rightharpoonup> byte list) \<Rightarrow> ('s \<Rightarrow> u64 \<times> u64 \<times> byte list \<rightharpoonup> byte list) \<Rightarrow> (bytes list \<Rightarrow> bytes) \<Rightarrow>
     (u64 \<times> u64 \<times> byte list) set \<Rightarrow> 's \<Rightarrow> 's \<Rightarrow> bool" where
  "addsStored allocs reqs hsum N s s' \<longleftrightarrow>
     (\<forall>k \<in> N. isStored reqs hsum s' k) \<and> (\<forall>k. isStored reqs hsum s k \<longrightarrow> isStored reqs hsum s' k) \<and>
     allocated allocs s' \<subseteq> allocated allocs s \<union> N"

lemma addsStored_same: "reqs s' = reqs s \<Longrightarrow> allocs s' = allocs s \<Longrightarrow> addsStored allocs reqs hsum {} s s'"
  by (simp add: addsStored_def isStored_def allocated_def)

lemma addsStored_then_same:
  "addsStored allocs reqs hsum N s s1 \<Longrightarrow> reqs s' = reqs s1 \<Longrightarrow> allocs s' = allocs s1 \<Longrightarrow> addsStored allocs reqs hsum N s s'"
  by (simp add: addsStored_def isStored_def allocated_def)

lemma addsStored_request:
  assumes "reqs s' = (reqs s)(ackKey ack \<mapsto> bstr data)" "allocs s' = allocs s" "ackDigest ack = hsum [data]"
  shows "addsStored allocs reqs hsum {ackKey ack} s s'"
  using assms isStored_put [where reqs = reqs and hsum = hsum, OF assms(1,3)] by (auto simp: addsStored_def allocated_def)

lemma addsStored_allocation:
  assumes "addsStored allocs reqs hsum {(c, r, bstr d)} s s1"
    and "allocs s' = (allocs s1)((c, r) \<mapsto> bstr d)" "reqs s' = reqs s1"
  shows "addsStored allocs reqs hsum {(c, r, bstr d)} s s'"
proof -
  have "isStored reqs hsum s' = isStored reqs hsum s1" using assms(3) by (simp add: isStored_def fun_eq_iff)
  moreover have "allocated allocs s' \<subseteq> allocated allocs s1 \<union> {(c, r, bstr d)}"
    using assms(2) by (auto simp: allocated_def split: if_splits)
  ultimately show ?thesis using assms(1) by (auto simp: addsStored_def)
qed

text \<open>The state after a step of a client, against the state before.\<close>

definition clientAdds ::
  "('s \<Rightarrow> u64 \<times> u64 \<rightharpoonup> byte list) \<Rightarrow> ('s \<Rightarrow> u64 \<times> u64 \<times> byte list \<rightharpoonup> byte list) \<Rightarrow> (bytes list \<Rightarrow> bytes) \<Rightarrow>
     Client \<times> ClientWork \<times> 's \<Rightarrow> Client \<times> ClientWork \<times> 's \<Rightarrow> bool" where
  "clientAdds allocs reqs hsum st st' \<longleftrightarrow>
     (case st of (c, cw, s) \<Rightarrow> case st' of (c', cw', s') \<Rightarrow>
        clClientID c' = clClientID c \<and> (cwInv cw \<longrightarrow> cwInv cw') \<and>
        (\<exists>N. addsStored allocs reqs hsum N s s' \<and> heldBy (clClientID c) c' \<subseteq> heldBy (clClientID c) c \<union> N \<and>
           announced (pendingEvents cw') \<subseteq> announced (pendingEvents cw) \<union> N))"

lemma clientAdds_same:
  "clClientID c' = clClientID c \<Longrightarrow> heldBy (clClientID c) c' \<subseteq> heldBy (clClientID c) c \<Longrightarrow>
     clientAdds allocs reqs hsum (c, cw, s) (c', cw, s)"
  by (auto simp: clientAdds_def intro!: exI [of _ "{}"] addsStored_same)

lemma heldBy_entryFor: "heldBy cid (c\<lparr>clNextReqNo := n, clRequests := gm_update r (entryFor r c) (clRequests c)\<rparr>) = heldBy cid c"
  by (auto simp: heldBy_def entryFor_def update_conv' split: if_splits option.splits)

lemma storeProposal_adds:
  assumes laws: "storeLaws rs allocs reqs" and cw: "cwInv cw"
    and ack: "ackClientId ack = clClientID c" "ackDigest ack = hsum [data]"
  shows "\<exists>st' err. storeProposal rs ack data prev (c, cw, s) = Some (st', err) \<and> clientAdds allocs reqs hsum (c, cw, s) st'"
proof -
  obtain s1 e1 where p1: "rsPutRequest rs s ack data = (s1, e1)" by force
  obtain s2 e2 where p2: "rsPutAllocation rs s1 (clClientID c) (ackReqNo ack) (ackDigest ack) = (s2, e2)" by force
  have k: "ackKey ack = (clClientID c, ackReqNo ack, bstr (ackDigest ack))" by (simp add: ackKey_def ack)
  show ?thesis
  proof (cases e1)
    case (Some e)
    with storeLawsD(5) [OF laws] p1 have "addsStored allocs reqs hsum {} s s1" by (blast intro: addsStored_same)
    then show ?thesis using p1 Some by (auto simp: storeProposal_def clientAdds_def)
  next
    case None
    with storeLawsD(4) [OF laws] p1 ack(2) have a1: "addsStored allocs reqs hsum {ackKey ack} s s1"
      by (blast intro: addsStored_request)
    show ?thesis
    proof (cases e2)
      case (Some e)
      with storeLawsD(3) [OF laws] p2 a1 have "addsStored allocs reqs hsum {ackKey ack} s s2"
        by (blast intro: addsStored_then_same)
      then show ?thesis using p1 p2 None Some by (auto simp: storeProposal_def clientAdds_def)
    next
      case e2: None
      with storeLawsD(2) [OF laws] p2 a1 have a2: "addsStored allocs reqs hsum {ackKey ack} s s2"
        unfolding k by (blast intro: addsStored_allocation)
      let ?cr = "(entryFor (ackReqNo ack) c)\<lparr>lrLocalAllocationDigest := ackDigest ack\<rparr>"
      have h: "heldBy (clClientID c) (c\<lparr>clRequests := gm_update (ackReqNo ack) ?cr (clRequests c)\<rparr>) \<subseteq>
          heldBy (clClientID c) c \<union> {ackKey ack}"
        using heldBy_update [of "clClientID c" "ackReqNo ack" ?cr c] by (auto simp: k)
      from addPersistedReq_works [OF cw] obtain cw' where "addPersistedReq ack cw = Some cw'" "cwInv cw'"
        "pendingEvents cw' = pendingEvents cw @ [Event_RequestPersisted ack]" by blast
      with a2 h p1 p2 None e2 cw show ?thesis
        by (auto simp: storeProposal_def clientAdds_def Let_def intro!: exI [of _ "{ackKey ack}"])
    qed
  qed
qed

lemma Propose_adds:
  assumes laws: "storeLaws rs allocs reqs" and cw: "cwInv cw"
  shows "\<exists>st' err. Propose rs hsum reqNo data (c, cw, s) = Some (st', err) \<and> clientAdds allocs reqs hsum (c, cw, s) st'"
proof -
  let ?c = "c\<lparr>clNextReqNo := clNextReqNo c + 1, clRequests := gm_update reqNo (entryFor reqNo c) (clRequests c)\<rparr>"
  let ?ack = "\<lparr>ackClientId = clClientID c, ackReqNo = reqNo, ackDigest = hsum [data]\<rparr>"
  obtain st' err where store: "storeProposal rs ?ack data (gm_lookup (clRequests c) reqNo \<noteq> None) (?c, cw, s) = Some (st', err)"
    "clientAdds allocs reqs hsum (?c, cw, s) st'"
    using storeProposal_adds [OF laws cw, of ?ack ?c] by fastforce
  have "clientAdds allocs reqs hsum (c, cw, s) st'"
    using store(2) by (simp add: clientAdds_def heldBy_entryFor)
  with store(1) show ?thesis
    by (cases st') (auto simp: Propose_def Let_def heldBy_entryFor intro!: clientAdds_same)
qed

text \<open>The invariant of a client processor: whatever it holds to be stored is stored.\<close>

definition cpInv ::
  "('s \<Rightarrow> u64 \<times> u64 \<rightharpoonup> byte list) \<Rightarrow> ('s \<Rightarrow> u64 \<times> u64 \<times> byte list \<rightharpoonup> byte list) \<Rightarrow> (bytes list \<Rightarrow> bytes) \<Rightarrow>
     's ClientProcessor \<Rightarrow> bool" where
  "cpInv allocs reqs hsum cp \<longleftrightarrow> clientIds (cpClients cp) \<and> cwInv (cpWork cp) \<and>
     (\<forall>k \<in> allocated allocs (cpStore cp) \<union> held (cpClients cp) \<union> announced (pendingEvents (cpWork cp)).
        isStored reqs hsum (cpStore cp) k)"

definition cpGrows ::
  "('s \<Rightarrow> u64 \<times> u64 \<rightharpoonup> byte list) \<Rightarrow> ('s \<Rightarrow> u64 \<times> u64 \<times> byte list \<rightharpoonup> byte list) \<Rightarrow> (bytes list \<Rightarrow> bytes) \<Rightarrow>
     's ClientProcessor \<Rightarrow> EventList \<Rightarrow> 's ClientProcessor \<Rightarrow> bool" where
  "cpGrows allocs reqs hsum cp events cp' \<longleftrightarrow> cpInv allocs reqs hsum cp' \<and>
     (\<forall>k \<in> announced events. isStored reqs hsum (cpStore cp') k) \<and>
     (\<forall>k. isStored reqs hsum (cpStore cp) k \<longrightarrow> isStored reqs hsum (cpStore cp') k)"

lemma clientIds_update [simp]: "clientIds cs \<Longrightarrow> clClientID c = cid \<Longrightarrow> clientIds (gm_update cid c cs)"
  by (simp add: clientIds_def update_conv')

lemma cp_Client_keeps:
  assumes "cp_Client cid cp = (cp', c)" "cpInv allocs reqs hsum cp"
  shows "cpInv allocs reqs hsum cp' \<and> cpStore cp' = cpStore cp \<and> cpWork cp' = cpWork cp \<and> clClientID c = cid \<and>
    heldBy cid c \<subseteq> held (cpClients cp')"
proof (cases "gm_lookup (cpClients cp) cid")
  case (Some c')
  with assms show ?thesis by (auto simp: cp_Client_def cpInv_def clientIds_def held_def dest: heldBy_fst)
next
  case None
  have "heldBy cid (newLocalClient cid) = {}" by (simp add: heldBy_def newLocalClient_def)
  with held_update [of cid "newLocalClient cid" "cpClients cp"] None assms show ?thesis
    by (auto simp: cp_Client_def cpInv_def Let_def newLocalClient_def)
qed

lemma proposeTo_grows:
  assumes laws: "storeLaws rs allocs reqs" and inv: "cpInv allocs reqs hsum cp"
  shows "\<exists>cp' err. proposeTo rs hsum cid reqNo data cp = Some (cp', err) \<and> cpGrows allocs reqs hsum cp [] cp'"
proof -
  obtain cp1 c where cl: "cp_Client cid cp = (cp1, c)" by force
  from cp_Client_keeps [OF cl inv] have k: "cpInv allocs reqs hsum cp1" "cpStore cp1 = cpStore cp" "cpWork cp1 = cpWork cp"
    "clClientID c = cid" "heldBy cid c \<subseteq> held (cpClients cp1)" by simp_all
  with Propose_adds [OF laws, of "cpWork cp1" hsum reqNo data c "cpStore cp1"] obtain c' cw' s' err N where
    p: "Propose rs hsum reqNo data (c, cpWork cp1, cpStore cp1) = Some ((c', cw', s'), err)" "clClientID c' = cid" "cwInv cw'"
      "addsStored allocs reqs hsum N (cpStore cp1) s'" "heldBy cid c' \<subseteq> heldBy cid c \<union> N"
      "announced (pendingEvents cw') \<subseteq> announced (pendingEvents (cpWork cp1)) \<union> N"
    by (auto simp: cpInv_def clientAdds_def)
  let ?cs = "gm_update cid c' (cpClients cp1)"
  have "allocated allocs s' \<union> held ?cs \<union> announced (pendingEvents cw') \<subseteq>
      (allocated allocs (cpStore cp1) \<union> held (cpClients cp1) \<union> announced (pendingEvents (cpWork cp1))) \<union> N"
    using p(4-) k(5) held_update [of cid c' "cpClients cp1"] unfolding addsStored_def by blast
  moreover have "\<forall>k \<in> (allocated allocs (cpStore cp1) \<union> held (cpClients cp1) \<union> announced (pendingEvents (cpWork cp1))) \<union> N.
      isStored reqs hsum s' k"
    using k(1) p(4) unfolding cpInv_def addsStored_def by blast
  ultimately have "\<forall>k \<in> allocated allocs s' \<union> held ?cs \<union> announced (pendingEvents cw'). isStored reqs hsum s' k" by blast
  with k(1) p(2,3) have "cpInv allocs reqs hsum (cp1\<lparr>cpClients := ?cs, cpWork := cw', cpStore := s'\<rparr>)"
    by (simp add: cpInv_def)
  with p cl k show ?thesis by (auto simp: proposeTo_def cpGrows_def addsStored_def)
qed

lemma processAllocations_grows:
  assumes laws: "storeLaws rs allocs reqs"
  shows "cpInv allocs reqs hsum cp \<Longrightarrow> processAllocations rs actions events cp = (cp', r) \<Longrightarrow>
    cpInv allocs reqs hsum cp' \<and> cpStore cp' = cpStore cp \<and>
    (\<forall>evs. r = Inr evs \<longrightarrow> (\<forall>k \<in> announced evs. k \<in> announced events \<or> isStored reqs hsum (cpStore cp) k))"
proof (induction actions arbitrary: events cp)
  case (Cons action rest)
  show ?case
  proof (cases "\<exists>cid reqNo. action = Action_AllocatedRequest cid reqNo")
    case True
    then obtain cid reqNo where act: "action = Action_AllocatedRequest cid reqNo" by blast
    obtain cp1 c where cl: "cp_Client cid cp = (cp1, c)" by force
    from cp_Client_keeps [OF cl Cons.prems(1)] have k: "cpInv allocs reqs hsum cp1" "cpStore cp1 = cpStore cp"
      "clClientID c = cid" "heldBy cid c \<subseteq> held (cpClients cp1)" by simp_all
    obtain c' r' where al: "lc_allocate rs (cpStore cp1) reqNo c = (c', r')" by force
    from lc_allocate_held [OF laws this] k(3) have h: "clClientID c' = cid" "heldBy cid c' \<subseteq> heldBy cid c \<union> allocated allocs (cpStore cp1)"
      "\<And>d. r' = Inr (Some d) \<Longrightarrow> (cid, reqNo, d) \<in> heldBy cid c'" by auto
    let ?cp = "cp1\<lparr>cpClients := gm_update cid c' (cpClients cp1)\<rparr>"
    have "held (gm_update cid c' (cpClients cp1)) \<subseteq> held (cpClients cp1) \<union> allocated allocs (cpStore cp1)"
      using held_update [of cid c' "cpClients cp1"] h(2) k(4) by blast
    then have inv: "cpInv allocs reqs hsum ?cp" using k(1) h(1) unfolding cpInv_def by auto
    have d: "isStored reqs hsum (cpStore cp) (cid, reqNo, d)" if "r' = Inr (Some d)" for d
      using h(2) h(3) [OF that] k(1,2,4) unfolding cpInv_def by auto
    consider err where "r' = Inl err" | "r' = Inr None" | d where "r' = Inr (Some d)"
      by (cases r'; cases "projr r'") auto
    then show ?thesis
    proof cases
      case 3
      with Cons.prems(2) have "processAllocations rs rest
          (events @ [Event_RequestPersisted \<lparr>ackClientId = cid, ackReqNo = reqNo, ackDigest = Some d\<rparr>]) ?cp = (cp', r)"
        by (simp add: act cl al)
      from Cons.IH [OF inv this] d [OF 3] k(2) show ?thesis by (auto simp: ackKey_def)
    qed (use Cons.prems(2) Cons.IH [OF inv] inv k(2) in \<open>auto simp: act cl al [unfolded k(2)]\<close>)
  next
    case False
    with Cons show ?thesis by (cases action) auto
  qed
qed auto

lemma cpInv_store:
  "cpInv allocs reqs hsum cp \<Longrightarrow> reqs s = reqs (cpStore cp) \<Longrightarrow> allocs s = allocs (cpStore cp) \<Longrightarrow>
     cpInv allocs reqs hsum (cp\<lparr>cpStore := s\<rparr>)"
  by (simp add: cpInv_def isStored_def allocated_def)

lemma cp_Process_grows:
  assumes laws: "storeLaws rs allocs reqs" and inv: "cpInv allocs reqs hsum cp" and p: "cp_Process rs actions cp = (cp', r)"
  shows "cpGrows allocs reqs hsum cp (case r of Inl _ \<Rightarrow> [] | Inr evs \<Rightarrow> evs) cp'"
proof -
  obtain cp1 r1 where a: "processAllocations rs actions [] cp = (cp1, r1)" by force
  obtain s e where y: "rsSync rs (cpStore cp1) = (s, e)" by force
  from storeLawsD(6) [OF laws y] have s: "reqs s = reqs (cpStore cp1)" "allocs s = allocs (cpStore cp1)" by auto
  from processAllocations_grows [OF laws inv a] have k: "cpInv allocs reqs hsum cp1" "cpStore cp1 = cpStore cp"
    "\<And>evs. r1 = Inr evs \<Longrightarrow> \<forall>k \<in> announced evs. isStored reqs hsum (cpStore cp) k" by auto
  have same: "isStored reqs hsum s = isStored reqs hsum (cpStore cp)" using s k(2) by (simp add: isStored_def fun_eq_iff)
  show ?thesis
  proof (cases r1)
    case (Inl err)
    with p a k show ?thesis by (auto simp: cp_Process_def cpGrows_def)
  next
    case (Inr evs)
    with p a y k same cpInv_store [OF k(1) s] show ?thesis by (cases e) (auto simp: cp_Process_def cpGrows_def)
  qed
qed

lemma cpGrows_trans:
  "cpGrows allocs reqs hsum a xs b \<Longrightarrow> cpGrows allocs reqs hsum b ys c \<Longrightarrow> cpGrows allocs reqs hsum a (xs @ ys) c"
  unfolding cpGrows_def announced_simps by blast

lemma procStep_grows:
  assumes laws: "storeLaws rs allocs reqs" and inv: "cpInv allocs reqs hsum cp"
  shows "\<exists>cp' events. procStep rs hsum x cp = Some (cp', events) \<and> cpGrows allocs reqs hsum cp events cp'"
proof (cases x)
  case (DoPropose cid reqNo data)
  with proposeTo_grows [OF laws inv, of cid reqNo data] show ?thesis by auto
next
  case (DoProcess actions)
  obtain cp' r where p: "cp_Process rs actions cp = (cp', r)" by force
  from cp_Process_grows [OF laws inv this] show ?thesis by (cases r) (auto simp: DoProcess p)
next
  case DoResults
  have "cpInv allocs reqs hsum (cp\<lparr>cpWork := fst (cw_Results (cpWork cp))\<rparr>)"
    using inv cw_Results_works [of "cpWork cp"] by (simp add: cpInv_def)
  with inv show ?thesis by (auto simp: DoResults cw_Results_def cpGrows_def cpInv_def pendingEvents_def)
next
  case DoRestart
  with inv show ?thesis by (auto simp: cpGrows_def cpInv_def clientIds_def held_def)
qed


text \<open>The example: the database in memory, and a digest that is the data with a one in front.\<close>

definition tagged :: "bytes list \<Rightarrow> bytes" where
  "tagged ds = Some (1 # concat (map bstr ds))"

definition memRun :: "procOp list \<Rightarrow> ((string \<rightharpoonup> byte list) ClientProcessor \<times> EventList) option" where
  "memRun ops = procRun (badgerStore memDB) tagged ops (freshProcessor (\<lambda>_. None))"

lemma memRun_events:
  "map_option snd (memRun [DoProcess [Action_AllocatedRequest 7 0], DoPropose 7 0 (Some [5]), DoResults]) =
     Some [Event_RequestPersisted \<lparr>ackClientId = 7, ackReqNo = 0, ackDigest = Some [1, 5]\<rparr>]"
  by code_simp


section \<open>One digest for a request number\<close>

lemma lc_allocate_mono:
  assumes "lc_allocate rs s reqNo c = (c', r)"
  shows "clClientID c' = clClientID c \<and> heldBy cid c \<subseteq> heldBy cid c' \<and>
    (\<forall>d. r = Inr (Some d) \<longrightarrow> (cid, reqNo, d) \<in> heldBy cid c')"
  using assms by (auto simp: lc_allocate_def heldBy_def Let_def update_conv' split: option.splits sum.splits if_splits)

definition clientKeeps :: "Client \<times> ClientWork \<times> 's \<Rightarrow> Client \<times> ClientWork \<times> 's \<Rightarrow> bool" where
  "clientKeeps st st' \<longleftrightarrow>
     (case st of (c, cw, s) \<Rightarrow> case st' of (c', cw', s') \<Rightarrow>
        clClientID c' = clClientID c \<and> heldBy (clClientID c) c \<subseteq> heldBy (clClientID c) c' \<and>
        announced (pendingEvents cw') \<subseteq> announced (pendingEvents cw) \<union> heldBy (clClientID c) c')"

lemma addPersistedReq_announces:
  "addPersistedReq ack cw = Some cw' \<Longrightarrow> announced (pendingEvents cw') = insert (ackKey ack) (announced (pendingEvents cw))"
  by (auto simp: addPersistedReq_def bind_eq_Some_conv pendingEvents_def split: option.splits)

lemma storeProposal_keeps:
  assumes "storeProposal rs ack data prev (c, cw, s) = Some (st', err)" "lrLocalAllocationDigest (entryFor (ackReqNo ack) c) = None"
    and "ackClientId ack = clClientID c" "ackDigest ack \<noteq> None"
  shows "clientKeeps (c, cw, s) st'"
  using assms by (auto simp: storeProposal_def clientKeeps_def Let_def heldBy_def entryFor_def update_conv' ackKey_def
      bind_eq_Some_conv split: prod.splits option.splits if_splits dest!: addPersistedReq_announces)

lemma Propose_keeps:
  assumes "Propose rs hsum reqNo data (c, cw, s) = Some (st', err)" "hsum [data] \<noteq> None"
  shows "clientKeeps (c, cw, s) st'"
proof -
  let ?c = "c\<lparr>clNextReqNo := clNextReqNo c + 1, clRequests := gm_update reqNo (entryFor reqNo c) (clRequests c)\<rparr>"
  have e: "entryFor reqNo ?c = entryFor reqNo c" by (simp add: entryFor_def update_conv')
  have "clientKeeps (c, cw, s) st'" if "clientKeeps (?c, cw, s) st'"
    using that by (simp add: clientKeeps_def heldBy_entryFor)
  with assms storeProposal_keeps [of rs "\<lparr>ackClientId = clClientID c, ackReqNo = reqNo, ackDigest = hsum [data]\<rparr>" data _ ?c cw s st' err]
  show ?thesis
    by (auto simp: Propose_def Let_def e clientKeeps_def heldBy_entryFor split: if_splits)
qed

text \<open>Whatever was announced is held, and what is held stays held.\<close>

definition cpKeeps :: "'s ClientProcessor \<Rightarrow> EventList \<Rightarrow> 's ClientProcessor \<Rightarrow> bool" where
  "cpKeeps cp events cp' \<longleftrightarrow> clientIds (cpClients cp') \<and> held (cpClients cp) \<subseteq> held (cpClients cp') \<and>
     announced events \<union> announced (pendingEvents (cpWork cp')) \<subseteq> announced (pendingEvents (cpWork cp)) \<union> held (cpClients cp')"

lemma cpKeeps_trans: "cpKeeps a xs b \<Longrightarrow> cpKeeps b ys c \<Longrightarrow> cpKeeps a (xs @ ys) c"
  unfolding cpKeeps_def announced_simps by blast

lemma held_client: "gm_lookup cs cid = Some c \<Longrightarrow> heldBy cid c \<subseteq> heldBy cid c' \<Longrightarrow>
    held cs \<subseteq> held (gm_update cid c' cs) \<and> heldBy cid c' \<subseteq> held (gm_update cid c' cs)"
  by (auto simp: held_def update_conv' dest: heldBy_fst)

lemma cp_Client_gets:
  assumes "cp_Client cid cp = (cp', c)" "clientIds (cpClients cp)"
  shows "cpKeeps cp [] cp' \<and> cpStore cp' = cpStore cp \<and> cpWork cp' = cpWork cp \<and> clClientID c = cid \<and>
    gm_lookup (cpClients cp') cid = Some c"
  using assms by (auto simp: cp_Client_def cpKeeps_def clientIds_def held_def heldBy_def newLocalClient_def update_conv' Let_def
      split: option.splits if_splits)

lemma proposeTo_keeps:
  assumes "proposeTo rs hsum cid reqNo data cp = Some (cp', err)" "hsum [data] \<noteq> None" "clientIds (cpClients cp)"
  shows "cpKeeps cp [] cp'"
proof -
  obtain cp1 c where cl: "cp_Client cid cp = (cp1, c)" by force
  from cp_Client_gets [OF cl assms(3)] have k: "cpKeeps cp [] cp1" "clClientID c = cid" "gm_lookup (cpClients cp1) cid = Some c" by auto
  from assms(1) cl obtain c' cw' s' where p: "Propose rs hsum reqNo data (c, cpWork cp1, cpStore cp1) = Some ((c', cw', s'), err)"
    and cp': "cp' = cp1\<lparr>cpClients := gm_update cid c' (cpClients cp1), cpWork := cw', cpStore := s'\<rparr>"
    by (auto simp: proposeTo_def bind_eq_Some_conv)
  from Propose_keeps [OF p assms(2)] k(2) have "clClientID c' = cid" "heldBy cid c \<subseteq> heldBy cid c'"
    "announced (pendingEvents cw') \<subseteq> announced (pendingEvents (cpWork cp1)) \<union> heldBy cid c'"
    by (simp_all add: clientKeeps_def)
  with held_client [OF k(3), of c'] k(1) have "cpKeeps cp1 [] cp'" by (auto simp: cpKeeps_def cp')
  with cpKeeps_trans [OF k(1)] show ?thesis by fastforce
qed

lemma processAllocations_keeps:
  "clientIds (cpClients cp) \<Longrightarrow> processAllocations rs actions events cp = (cp', r) \<Longrightarrow>
    cpKeeps cp [] cp' \<and> (\<forall>evs. r = Inr evs \<longrightarrow> announced evs \<subseteq> announced events \<union> held (cpClients cp'))"
proof (induction actions arbitrary: events cp)
  case (Cons action rest)
  show ?case
  proof (cases "\<exists>cid reqNo. action = Action_AllocatedRequest cid reqNo")
    case True
    then obtain cid reqNo where act: "action = Action_AllocatedRequest cid reqNo" by blast
    obtain cp1 c where cl: "cp_Client cid cp = (cp1, c)" by force
    from cp_Client_gets [OF cl Cons.prems(1)] have k: "cpKeeps cp [] cp1" "clClientID c = cid"
      "gm_lookup (cpClients cp1) cid = Some c" by auto
    obtain c' r' where al: "lc_allocate rs (cpStore cp1) reqNo c = (c', r')" by force
    let ?cp = "cp1\<lparr>cpClients := gm_update cid c' (cpClients cp1)\<rparr>"
    from lc_allocate_mono [OF al, of cid] k(2) have h: "clClientID c' = cid" "heldBy cid c \<subseteq> heldBy cid c'"
      "\<And>d. r' = Inr (Some d) \<Longrightarrow> (cid, reqNo, d) \<in> heldBy cid c'" by auto
    from held_client [OF k(3) h(2)] k(1) h(1) have "cpKeeps cp1 [] ?cp" by (auto simp: cpKeeps_def)
    from cpKeeps_trans [OF k(1) this] have q: "cpKeeps cp [] ?cp" by simp
    then have ids: "clientIds (cpClients ?cp)" by (simp add: cpKeeps_def)
    have t: "cpKeeps cp [] cp'" if "cpKeeps ?cp [] cp'" using cpKeeps_trans [OF q that] by simp
    consider err where "r' = Inl err" | "r' = Inr None" | d where "r' = Inr (Some d)"
      by (cases r'; cases "projr r'") auto
    then show ?thesis
    proof cases
      case 3
      let ?ev = "Event_RequestPersisted \<lparr>ackClientId = cid, ackReqNo = reqNo, ackDigest = Some d\<rparr>"
      from 3 Cons.prems(2) have "processAllocations rs rest (events @ [?ev]) ?cp = (cp', r)" by (simp add: act cl al)
      from Cons.IH [OF ids this] have i: "cpKeeps ?cp [] cp'"
        "\<And>evs. r = Inr evs \<Longrightarrow> announced evs \<subseteq> insert (cid, reqNo, d) (announced events) \<union> held (cpClients cp')"
        by (auto simp: ackKey_def)
      have "(cid, reqNo, d) \<in> held (cpClients cp')"
        using h(3) [OF 3] held_client [OF k(3) h(2)] i(1) by (auto simp: cpKeeps_def)
      with i(2) t [OF i(1)] show ?thesis by blast
    qed (use Cons.prems(2) Cons.IH [OF ids] q t in \<open>auto simp: act cl al\<close>)
  next
    case False
    with Cons show ?thesis by (cases action) auto
  qed
qed (auto simp: cpKeeps_def)

lemma procStep_keeps:
  assumes "procStep rs hsum x cp = Some (cp', events)" "x \<noteq> DoRestart" "\<And>data. hsum [data] \<noteq> None" "clientIds (cpClients cp)"
  shows "cpKeeps cp events cp'"
proof (cases x)
  case (DoPropose cid reqNo data)
  with assms show ?thesis by (auto dest!: proposeTo_keeps)
next
  case (DoProcess actions)
  obtain cp1 r where "processAllocations rs actions [] cp = (cp1, r)" by force
  with processAllocations_keeps [OF assms(4) this] assms(1) show ?thesis
    by (cases r) (auto simp: DoProcess cp_Process_def cpKeeps_def split: prod.splits option.splits)
next
  case DoResults
  with assms show ?thesis by (auto simp: cw_Results_def cpKeeps_def pendingEvents_def split: option.splits)
qed (use assms in simp)

lemma procRun_keeps:
  assumes "\<And>data. hsum [data] \<noteq> None"
  shows "procRun rs hsum ops cp = Some (cp', events) \<Longrightarrow> DoRestart \<notin> set ops \<Longrightarrow> clientIds (cpClients cp) \<Longrightarrow> cpKeeps cp events cp'"
proof (induction ops arbitrary: cp events)
  case (Cons x ops)
  then obtain cp1 e1 e2 where x: "procStep rs hsum x cp = Some (cp1, e1)" "procRun rs hsum ops cp1 = Some (cp', e2)" "events = e1 @ e2"
    by (auto simp: bind_eq_Some_conv)
  from procStep_keeps [OF x(1) _ assms] Cons.prems have k: "cpKeeps cp e1 cp1" by auto
  with Cons.IH [OF x(2)] Cons.prems(2) have "cpKeeps cp1 e2 cp'" by (auto simp: cpKeeps_def)
  with k show ?case unfolding x(3) by (rule cpKeeps_trans)
qed (auto simp: cpKeeps_def)

text \<open>C13. A node stands by one digest for a request number: whatever clients propose and whatever the store answers, as
  long as the process is not restarted no two requests of the same client with the same number and different
  digests are announced as persisted.\<close>

theorem one_digest_per_request:
  assumes "\<And>data. hsum [data] \<noteq> None" "DoRestart \<notin> set ops" "procRun rs hsum ops (freshProcessor s) = Some (cp, events)"
    and "Event_RequestPersisted a \<in> set events" "Event_RequestPersisted b \<in> set events"
    and "ackClientId a = ackClientId b" "ackReqNo a = ackReqNo b"
  shows "bytes_equal (ackDigest a) (ackDigest b)"
proof -
  have "cpKeeps (freshProcessor s) events cp"
    using procRun_keeps [OF assms(1,3,2)] by (simp add: freshProcessor_def clientIds_def)
  with assms(4,5) have "ackKey a \<in> held (cpClients cp)" "ackKey b \<in> held (cpClients cp)"
    by (auto simp: cpKeeps_def freshProcessor_def announced_def)
  with assms(6,7) show ?thesis by (auto simp: held_def heldBy_def ackKey_def)
qed

text \<open>The example announces a request twice, with two allocations; after a restart another digest would be announced.\<close>

definition twice :: "procOp list" where
  "twice = [DoProcess [Action_AllocatedRequest 7 0], DoPropose 7 0 (Some [5]), DoResults, DoPropose 7 0 (Some [6]),
     DoProcess [Action_AllocatedRequest 7 0]]"

lemma twice_events:
  "map_option snd (memRun twice) =
     Some [Event_RequestPersisted \<lparr>ackClientId = 7, ackReqNo = 0, ackDigest = Some [1, 5]\<rparr>,
       Event_RequestPersisted \<lparr>ackClientId = 7, ackReqNo = 0, ackDigest = Some [1, 5]\<rparr>]"
  by code_simp

theorem one_digest_per_request_witness:
  "\<exists>cp a b. memRun twice = Some (cp, [Event_RequestPersisted a, Event_RequestPersisted b]) \<and>
     ackClientId a = ackClientId b \<and> ackReqNo a = ackReqNo b \<and> bytes_equal (ackDigest a) (ackDigest b)"
proof -
  let ?a = "\<lparr>ackClientId = 7, ackReqNo = 0, ackDigest = Some [1, 5]\<rparr>"
  from twice_events obtain cp where r: "memRun twice = Some (cp, [Event_RequestPersisted ?a, Event_RequestPersisted ?a])" by auto
  have "bytes_equal (ackDigest ?a) (ackDigest ?a)"
    by (rule one_digest_per_request [where hsum = tagged and ops = twice, OF _ _ r [unfolded memRun_def]])
      (simp_all add: tagged_def twice_def)
  with r show ?thesis by blast
qed

text \<open>After a restart a proposal is not compared with the digest in the store unless its allocation came first.\<close>

lemma restart_forgets_digest:
  "map_option snd (memRun [DoProcess [Action_AllocatedRequest 7 0, Action_AllocatedRequest 7 1], DoPropose 7 0 (Some [5]),
       DoPropose 7 1 (Some [6]), DoResults, DoRestart, DoProcess [Action_AllocatedRequest 7 0], DoPropose 7 0 (Some [5]),
       DoPropose 7 1 (Some [9]), DoProcess [Action_AllocatedRequest 7 1]]) =
     Some [Event_RequestPersisted \<lparr>ackClientId = 7, ackReqNo = 0, ackDigest = Some [1, 5]\<rparr>,
       Event_RequestPersisted \<lparr>ackClientId = 7, ackReqNo = 1, ackDigest = Some [1, 6]\<rparr>,
       Event_RequestPersisted \<lparr>ackClientId = 7, ackReqNo = 0, ackDigest = Some [1, 5]\<rparr>,
       Event_RequestPersisted \<lparr>ackClientId = 7, ackReqNo = 1, ackDigest = Some [1, 9]\<rparr>]"
  by code_simp

section \<open>Failed proposals\<close>

text \<open>A request that could not be stored is taken for stored: the number is used up before the store is
  asked, so that when the client proposes the request again it is told that all is well, whatever the store would say
  now, and nothing is stored or announced.\<close>

theorem failed_proposal_dropped:
  assumes "Propose rs hsum reqNo data (c, cw, s) = Some ((c', cw', s'), Some (RequestNotStored e))" "reqNo + 1 \<noteq> 0"
  shows "Propose rs hsum reqNo data (c', cw', s2) = Some ((c', cw', s2), None) \<and>
    lrLocalAllocationDigest (entryFor reqNo c') = None"
proof -
  let ?c = "c\<lparr>clNextReqNo := reqNo + 1, clRequests := gm_update reqNo (entryFor reqNo c) (clRequests c)\<rparr>"
  from assms(1) have "reqNo = clNextReqNo c" "lrLocalAllocationDigest (entryFor reqNo c) = None" and c': "c' = ?c"
    by (auto simp: Propose_def storeProposal_def Let_def bind_eq_Some_conv split: if_splits prod.splits option.splits)
  moreover have "reqNo < reqNo + 1"
  proof -
    from assms(2) have "reqNo < - 1" by (auto simp: word_order.not_eq_extremum [symmetric])
    then show ?thesis by (simp add: word_less_nat_alt unat_Suc_less)
  qed
  moreover have "gm_update reqNo (entryFor reqNo c) (clRequests c) \<noteq> []" by (cases "clRequests c") auto
  ultimately show ?thesis by (auto simp: Propose_def entryFor_def update_conv')
qed

text \<open>The example: a store that cannot store requests.\<close>

definition fullStore :: "(unit, unit) RequestStore" where
  "fullStore = \<lparr>rsGetAllocation = (\<lambda>_ _ _. Inr None), rsPutAllocation = (\<lambda>_ _ _ _. ((), None)), rsGetRequest = (\<lambda>_ _. Inr None),
     rsPutRequest = (\<lambda>_ _ _. ((), Some ())), rsSync = (\<lambda>_. ((), None))\<rparr>"

definition allocatedClient :: Client where
  "allocatedClient = fst (lc_allocate fullStore () 0 (newLocalClient 7))"

theorem failed_proposal_dropped_witness:
  "\<exists>c' cw'. Propose fullStore tagged 0 (Some [5]) (allocatedClient, noWork, ()) = Some ((c', cw', ()), Some (RequestNotStored ())) \<and>
     Propose fullStore tagged 0 (Some [5]) (c', cw', ()) = Some ((c', cw', ()), None) \<and>
     lrLocalAllocationDigest (entryFor 0 c') = None"
proof -
  have "map_option (\<lambda>((c, cw, s), e). e) (Propose fullStore tagged 0 (Some [5]) (allocatedClient, noWork, ())) =
      Some (Some (RequestNotStored ()))" by code_simp
  then obtain c' cw' where "Propose fullStore tagged 0 (Some [5]) (allocatedClient, noWork, ()) = Some ((c', cw', ()), Some (RequestNotStored ()))"
    by auto
  with failed_proposal_dropped [OF this, of "()"] show ?thesis by auto
qed

section \<open>Collecting the work\<close>

text \<open>Announcements reach the caller in order and once, and the channel says whether there are any.\<close>

datatype cwOp = DoReady | DoCollect | DoAnnounce RequestAck

fun cwRun :: "cwOp list \<Rightarrow> ClientWork \<Rightarrow> (ClientWork \<times> EventList) option" where
  "cwRun [] cw = Some (cw, [])"
| "cwRun (x # ops) cw = do {
     (cw, el) \<leftarrow> (case x of
        DoReady \<Rightarrow> map_option (\<lambda>(cw, _). (cw, [])) (cw_Ready cw)
      | DoCollect \<Rightarrow> (case cw_Results cw of (cw, r) \<Rightarrow> Some (cw, case r of None \<Rightarrow> [] | Some el \<Rightarrow> el))
      | DoAnnounce ack \<Rightarrow> map_option (\<lambda>cw. (cw, [])) (addPersistedReq ack cw));
     (cw, later) \<leftarrow> cwRun ops cw;
     Some (cw, el @ later)
   }"

definition announcements :: "cwOp list \<Rightarrow> EventList" where
  "announcements ops = concat (map (\<lambda>x. case x of DoAnnounce ack \<Rightarrow> [Event_RequestPersisted ack] | _ \<Rightarrow> []) ops)"

lemma clientWork_delivers:
  assumes "cwInv cw"
  shows "\<exists>cw' events. cwRun ops cw = Some (cw', events) \<and> cwInv cw' \<and>
    events @ pendingEvents cw' = pendingEvents cw @ announcements ops"
  using assms
proof (induction ops arbitrary: cw)
  case (Cons x ops)
  show ?case
  proof (cases x)
    case DoReady
    with Cons cw_Ready_works [OF Cons.prems] show ?thesis by (fastforce simp: announcements_def pendingEvents_def)
  next
    case DoCollect
    from Cons.IH [of "fst (cw_Results cw)"] cw_Results_works [of cw] obtain cw' events where
      r: "cwRun ops (fst (cw_Results cw)) = Some (cw', events)" "cwInv cw'" "events @ pendingEvents cw' = announcements ops"
      by auto
    then have "cwRun (x # ops) cw = Some (cw', pendingEvents cw @ events)"
      by (simp add: DoCollect cw_Results_def pendingEvents_def)
    with r show ?thesis by (simp add: DoCollect announcements_def)
  next
    case (DoAnnounce ack)
    with Cons addPersistedReq_works [OF Cons.prems, of ack] show ?thesis by (fastforce simp: announcements_def)
  qed
qed (simp add: announcements_def)

end
