(* ===== verification/Mir_SimpleWAL.thy ===== *)
theory Mir_SimpleWAL
  imports Mir_Persisted
begin

text \<open>
  \<open>pkg/simplewal/simplewal.go\<close>: the write-ahead log of the samples. The log library it is built on and the encoding of
  protocol buffers are third-party: the record \<open>walLog\<close> and two functions, with their documented behaviour in
  \<open>walLogLaws\<close> and \<open>protoLaws\<close>. The theory shows that the log gives back after a crash what the in-memory log of the
  state machine had.
\<close>

section \<open>The log library\<close>

record ('s, 'e) walLog =
  wlFirstIndex :: "'s \<Rightarrow> 'e + u64"
  wlLastIndex :: "'s \<Rightarrow> 'e + u64"
  wlRead :: "'s \<Rightarrow> u64 \<Rightarrow> 'e + bytes"
  wlWrite :: "'s \<Rightarrow> u64 \<Rightarrow> bytes \<Rightarrow> 's \<times> 'e option"
  wlTruncateFront :: "'s \<Rightarrow> u64 \<Rightarrow> 's \<times> 'e option"
  wlSync :: "'s \<Rightarrow> 's \<times> 'e option"

text \<open>Consecutive indexes from a positive one on, without wrapping around.\<close>

definition indexed :: "(u64 \<times> 'a) list \<Rightarrow> bool" where
  "indexed es \<longleftrightarrow> es = [] \<or> fst (hd es) \<noteq> 0 \<and> uint (fst (hd es)) + int (length es) < 2 ^ 64 \<and>
     map fst es = map (\<lambda>i. fst (hd es) + of_nat i) [0..<length es]"

definition walLogLaws :: "('s, 'e) walLog \<Rightarrow> ('s \<Rightarrow> (u64 \<times> byte list) list) \<Rightarrow> bool" where
  "walLogLaws wl content \<longleftrightarrow>
     (\<forall>s. indexed (content s)) \<and>
     (\<forall>s i. wlFirstIndex wl s = Inr i \<longrightarrow> i = (case content s of [] \<Rightarrow> 0 | e # _ \<Rightarrow> fst e)) \<and>
     (\<forall>s i. wlLastIndex wl s = Inr i \<longrightarrow> content s \<noteq> [] \<longrightarrow> i = fst (last (content s))) \<and>
     (\<forall>s i d. wlRead wl s i = Inr d \<longrightarrow> (i, bstr d) \<in> set (content s)) \<and>
     (\<forall>s i d s'. wlWrite wl s i d = (s', None) \<longrightarrow> content s' = content s @ [(i, bstr d)]) \<and>
     (\<forall>s i s'. wlTruncateFront wl s i = (s', None) \<longrightarrow> content s' = dropWhile (\<lambda>(j, _). j \<noteq> i) (content s))"

text \<open>Decoding undoes encoding.\<close>

definition protoLaws :: "(Persistent \<Rightarrow> 'e + bytes) \<Rightarrow> (bytes \<Rightarrow> 'e + Persistent) \<Rightarrow> bool" where
  "protoLaws marshal unmarshal \<longleftrightarrow> (\<forall>p d d'. marshal p = Inr d \<longrightarrow> bstr d' = bstr d \<longrightarrow> unmarshal d' = Inr p)"

section \<open>The write-ahead log\<close>

datatype 'e walError =
    NoFirstIndex 'e
  | NoLastIndex 'e
  | NotRead u64 'e
  | NotDecoded 'e
  | NotMarshalled 'e
  | NotWritten 'e
  | NotTruncated 'e

definition SimpleWAL_IsEmpty :: "('s, 'e) walLog \<Rightarrow> 's \<Rightarrow> 'e walError + bool" where
  [go_defs]: "SimpleWAL_IsEmpty wl s = (case wlFirstIndex wl s of Inl err \<Rightarrow> Inl (NoFirstIndex err) | Inr firstIndex \<Rightarrow> Inr (firstIndex = 0))"

text \<open>The loop of \<open>LoadAll\<close>: the calls of the callback, and the error, if any. It never ends when the last index is the
  largest.\<close>

partial_function (option) loadLoop ::
  "('s, 'e) walLog \<Rightarrow> (bytes \<Rightarrow> 'e + Persistent) \<Rightarrow> 's \<Rightarrow> u64 \<Rightarrow> u64 \<Rightarrow> (u64 \<times> Persistent) list \<Rightarrow>
     ((u64 \<times> Persistent) list \<times> 'e walError option) option" where
  "loadLoop wl unmarshal s i lastIndex calls =
     (if i \<le> lastIndex then
        (case wlRead wl s i of
           Inl err \<Rightarrow> Some (calls, Some (NotRead i err))
         | Inr data \<Rightarrow>
             (case unmarshal data of
                Inl err \<Rightarrow> Some (calls, Some (NotDecoded err))
              | Inr p \<Rightarrow> loadLoop wl unmarshal s (i + 1) lastIndex (calls @ [(i, p)])))
      else Some (calls, None))"

definition SimpleWAL_LoadAll ::
  "('s, 'e) walLog \<Rightarrow> (bytes \<Rightarrow> 'e + Persistent) \<Rightarrow> 's \<Rightarrow> ((u64 \<times> Persistent) list \<times> 'e walError option) option" where
  [go_defs]: "SimpleWAL_LoadAll wl unmarshal s =
     (case wlFirstIndex wl s of
        Inl err \<Rightarrow> Some ([], Some (NoFirstIndex err))
      | Inr firstIndex \<Rightarrow>
          if firstIndex = 0 then Some ([], None)
          else (case wlLastIndex wl s of
                  Inl err \<Rightarrow> Some ([], Some (NoLastIndex err))
                | Inr lastIndex \<Rightarrow> loadLoop wl unmarshal s firstIndex lastIndex []))"

definition SimpleWAL_Write :: "('s, 'e) walLog \<Rightarrow> (Persistent \<Rightarrow> 'e + bytes) \<Rightarrow> u64 \<Rightarrow> Persistent \<Rightarrow> 's \<Rightarrow> 's \<times> 'e walError option" where
  [go_defs]: "SimpleWAL_Write wl marshal index p s =
     (case marshal p of
        Inl err \<Rightarrow> (s, Some (NotMarshalled err))
      | Inr data \<Rightarrow> (case wlWrite wl s index data of (s, err) \<Rightarrow> (s, map_option NotWritten err)))"

definition SimpleWAL_Truncate :: "('s, 'e) walLog \<Rightarrow> u64 \<Rightarrow> 's \<Rightarrow> 's \<times> 'e walError option" where
  [go_defs]: "SimpleWAL_Truncate wl index s = (case wlTruncateFront wl s index of (s, err) \<Rightarrow> (s, map_option NotTruncated err))"

section \<open>What is written is read back\<close>

lemma indexed_nth:
  assumes "indexed es" "k < length es"
  shows "fst (es ! k) = fst (hd es) + of_nat k" "uint (fst (es ! k)) = uint (fst (hd es)) + int k"
proof -
  show f: "fst (es ! k) = fst (hd es) + of_nat k"
    using assms by (auto simp: indexed_def dest: arg_cong [where f = "\<lambda>l. l ! k"])
  have "uint (fst (hd es)) + int k < 2 ^ 64" using assms by (auto simp: indexed_def)
  moreover from this have "int k < 2 ^ 64" using uint_ge_0 [of "fst (hd es)"] by linarith
  then have "uint (of_nat k :: u64) = int k" by (simp add: unsigned_of_nat take_bit_nat_eq_self)
  ultimately show "uint (fst (es ! k)) = uint (fst (hd es)) + int k"
    unfolding f by (simp add: uint_word_ariths)
qed

lemma indexed_unique:
  assumes "indexed es" "(i, a) \<in> set es" "(i, b) \<in> set es"
  shows "a = b"
proof -
  obtain j k where "j < length es" "es ! j = (i, a)" "k < length es" "es ! k = (i, b)" using assms(2,3) by (metis in_set_conv_nth)
  moreover from this have "int j = int k" using indexed_nth(2) [OF assms(1)] by (metis add_left_cancel fst_conv)
  ultimately show ?thesis by auto
qed

definition stores :: "(Persistent \<Rightarrow> 'e + bytes) \<Rightarrow> (u64 \<times> byte list) list \<Rightarrow> (u64 \<times> Persistent) list \<Rightarrow> bool" where
  "stores marshal = list_all2 (\<lambda>(i, d) (j, p). i = j \<and> (\<exists>d'. marshal p = Inr d' \<and> d = bstr d'))"

lemma loadLoop_calls:
  assumes wl: "walLogLaws wl content" and pl: "protoLaws marshal unmarshal"
  shows "content s = pre @ suf \<Longrightarrow> suf \<noteq> [] \<Longrightarrow> stores marshal suf log \<Longrightarrow>
    \<exists>r. loadLoop wl unmarshal s (fst (hd suf)) (fst (last suf)) calls = Some r \<and> (snd r = None \<longrightarrow> fst r = calls @ log)"
proof (induction suf arbitrary: pre log calls)
  case (Cons e suf)
  obtain i d where e: "e = (i, d)" by force
  from Cons.prems(3) obtain p log' d0 where log: "log = (i, p) # log'" "marshal p = Inr d0" "d = bstr d0" "stores marshal suf log'"
    by (auto simp: stores_def e list_all2_Cons1)
  have idx: "indexed (content s)" using wl by (simp add: walLogLaws_def)
  have len: "length pre < length (content s)" "content s ! length pre = e" "last (content s) = last (e # suf)"
    "last (content s) = content s ! (length (content s) - 1)"
    using Cons.prems(1) by (simp_all add: last_conv_nth)
  have le: "i \<le> fst (last (e # suf))"
    using indexed_nth(2) [OF idx len(1)] indexed_nth(2) [OF idx, of "length (content s) - 1"] len e
    by (auto simp: word_le_def)
  show ?case
  proof (cases "wlRead wl s i")
    case (Inl err)
    with le show ?thesis by (subst loadLoop.simps) (simp add: e)
  next
    case (Inr data)
    then have "(i, bstr data) \<in> set (content s)" using wl unfolding walLogLaws_def by metis
    then have "bstr data = d" using indexed_unique [OF idx] Cons.prems(1) e by auto
    then have u: "unmarshal data = Inr p" using pl log(2,3) unfolding protoLaws_def by metis
    have step: "loadLoop wl unmarshal s i (fst (last (e # suf))) calls =
        loadLoop wl unmarshal s (i + 1) (fst (last (e # suf))) (calls @ [(i, p)])"
      using le Inr u by (subst loadLoop.simps) simp
    show ?thesis
    proof (cases suf)
      case Nil
      have "uint i + 1 < 2 ^ 64"
        using indexed_nth(2) [OF idx len(1)] len(1,2) idx Cons.prems(1) e by (auto simp: indexed_def)
      then have "\<not> i + 1 \<le> i" by (simp add: word_le_def uint_word_ariths)
      with step log Nil show ?thesis by (simp add: e stores_def loadLoop.simps [of wl unmarshal s "i + 1"])
    next
      case (Cons e' suf')
      have "content s ! Suc (length pre) = e'" "Suc (length pre) < length (content s)"
        using Cons.prems(1) Cons by (simp_all add: nth_append)
      then have "fst e' = i + 1"
        using indexed_nth(1) [OF idx, of "Suc (length pre)"] indexed_nth(1) [OF idx len(1)] len(2) e by simp
      with Cons.IH [of "pre @ [e]" log' "calls @ [(i, p)]"] Cons.prems(1) log(4) Cons step show ?thesis
        by (simp add: e log(1))
    qed
  qed
qed simp

lemma loadAll_calls:
  assumes wl: "walLogLaws wl content" and pl: "protoLaws marshal unmarshal" and st: "stores marshal (content s) log"
  shows "\<exists>r. SimpleWAL_LoadAll wl unmarshal s = Some r \<and> (snd r = None \<longrightarrow> fst r = log)"
proof -
  have first: "i = (case content s of [] \<Rightarrow> 0 | e # _ \<Rightarrow> fst e)" if "wlFirstIndex wl s = Inr i" for i
    using wl that unfolding walLogLaws_def by metis
  have last: "i = fst (last (content s))" if "wlLastIndex wl s = Inr i" "content s \<noteq> []" for i
    using wl that unfolding walLogLaws_def by metis
  have idx: "indexed (content s)" using wl by (simp add: walLogLaws_def)
  show ?thesis
  proof (cases "content s")
    case Nil
    with st first show ?thesis by (auto simp: SimpleWAL_LoadAll_def stores_def split: sum.splits)
  next
    case (Cons e es)
    with loadLoop_calls [OF wl pl, of s "[]" "content s" log "[]"] st first last idx show ?thesis
      by (auto simp: SimpleWAL_LoadAll_def indexed_def split: sum.splits)
  qed
qed

section \<open>With the log of the state machine\<close>

text \<open>Carrying out the actions on the write-ahead log, as the processor does, until one fails.\<close>

fun walApply :: "('s, 'e) walLog \<Rightarrow> (Persistent \<Rightarrow> 'e + bytes) \<Rightarrow> Action \<Rightarrow> 's \<Rightarrow> 's option" where
  "walApply wl marshal (Action_AppendWriteAhead i p) s = (case SimpleWAL_Write wl marshal i p s of (s, None) \<Rightarrow> Some s | _ \<Rightarrow> None)"
| "walApply wl marshal (Action_TruncateWriteAhead i) s = (case SimpleWAL_Truncate wl i s of (s, None) \<Rightarrow> Some s | _ \<Rightarrow> None)"
| "walApply wl marshal _ s = Some s"

lemma stores_dropWhile: "stores marshal xs ys \<Longrightarrow> stores marshal (dropWhile (\<lambda>(j, _). j \<noteq> i) xs) (dropWhile (\<lambda>(j, _). j \<noteq> i) ys)"
  unfolding stores_def by (induction xs ys rule: list_all2_induct) auto

lemma walApply_stores:
  assumes wl: "walLogLaws wl content" and "walApply wl marshal a s = Some s'" "stores marshal (content s) log"
  shows "stores marshal (content s') (diskApply a log)"
proof (cases a)
  case (Action_AppendWriteAhead i p)
  with assms(2) obtain d where m: "marshal p = Inr d" and "wlWrite wl s i d = (s', None)"
    by (auto simp: SimpleWAL_Write_def split: sum.splits prod.splits option.splits)
  then have "content s' = content s @ [(i, bstr d)]" using wl unfolding walLogLaws_def by metis
  with assms(3) m show ?thesis by (auto simp: Action_AppendWriteAhead stores_def intro: list_all2_appendI)
next
  case (Action_TruncateWriteAhead i)
  with assms(2) have "wlTruncateFront wl s i = (s', None)"
    by (auto simp: SimpleWAL_Truncate_def split: prod.splits option.splits)
  then have "content s' = dropWhile (\<lambda>(j, _). j \<noteq> i) (content s)" using wl unfolding walLogLaws_def by metis
  with assms(3) show ?thesis by (simp add: Action_TruncateWriteAhead stores_dropWhile)
qed (use assms in simp_all)

lemma walApply_all_stores:
  assumes wl: "walLogLaws wl content"
  shows "ofold (walApply wl marshal) acts s = Some s' \<Longrightarrow> stores marshal (content s) log \<Longrightarrow>
    stores marshal (content s') (fold diskApply acts log)"
  by (induction acts arbitrary: s log) (auto split: option.splits dest: walApply_stores [OF wl])


text \<open>The example: a log in memory, and an encoding of suspicions of small epochs.\<close>

definition memContent :: "(u64 \<times> byte list) list \<Rightarrow> (u64 \<times> byte list) list" where
  "memContent s = (if indexed s then s else [])"

definition memLog :: "((u64 \<times> byte list) list, unit) walLog" where
  "memLog = \<lparr>wlFirstIndex = (\<lambda>s. Inr (case memContent s of [] \<Rightarrow> 0 | e # _ \<Rightarrow> fst e)),
     wlLastIndex = (\<lambda>s. Inr (fst (last (memContent s)))),
     wlRead = (\<lambda>s i. case map_of (memContent s) i of None \<Rightarrow> Inl () | Some d \<Rightarrow> Inr (Some d)),
     wlWrite = (\<lambda>s i d. let s' = memContent s @ [(i, bstr d)] in if indexed s' then (s', None) else (s, Some ())),
     wlTruncateFront = (\<lambda>s i. let s' = dropWhile (\<lambda>(j, _). j \<noteq> i) (memContent s) in if indexed s' then (s', None) else (s, Some ())),
     wlSync = (\<lambda>s. (s, None))\<rparr>"

definition suspectMarshal :: "Persistent \<Rightarrow> unit + bytes" where
  "suspectMarshal p = (if p = Persistent_Suspect 7 then Inr (Some [7]) else if p = Persistent_Suspect 8 then Inr (Some [8]) else Inl ())"

definition suspectUnmarshal :: "bytes \<Rightarrow> unit + Persistent" where
  "suspectUnmarshal d = (if bstr d = [7] then Inr (Persistent_Suspect 7) else if bstr d = [8] then Inr (Persistent_Suspect 8) else Inl ())"

lemma memLog_laws: "walLogLaws memLog memContent"
proof -
  have "indexed (memContent s)" for s by (simp add: memContent_def indexed_def)
  then show ?thesis
    by (auto simp: walLogLaws_def memLog_def Let_def memContent_def split: if_splits option.splits dest: map_of_SomeD)
qed

lemma suspectMarshal_laws: "protoLaws suspectMarshal suspectUnmarshal"
  by (auto simp: protoLaws_def suspectMarshal_def suspectUnmarshal_def split: if_splits)

definition suspectLog :: persisted where
  "suspectLog = \<lparr>pNextIndex = 2, pLog = [(1, Persistent_Suspect 7)]\<rparr>"


end
