(* ===== verification/Mir_MsgFilter.thy ===== *)
theory Mir_MsgFilter
  imports Mir_Msgs
begin

text \<open>
  \<open>msgfilter.go\<close>: the check of messages from the network. Everywhere else in the development a message is complete; here it
  is what decoding gives, in which the fields that are pointers may be nil. The check is not called by the code.
\<close>

record outerNewEpochConfig =
  oncConfig :: "EpochConfig option"
  oncStartingCheckpoint :: "CheckpointMsg option"
  oncFinalPreprepares :: "bytes list"

record outerNewEpoch =
  oneNewConfig :: "outerNewEpochConfig option"
  oneEpochChanges :: "RemoteEpochChange list"

text \<open>The message of the oneof may be nil, and the oneof may not be set.\<close>

datatype outerMsg =
    Outer_Unset
  | Outer_Preprepare "(u64 \<times> u64 \<times> RequestAck list) option"
  | Outer_Prepare "(u64 \<times> u64 \<times> bytes) option"
  | Outer_Commit "(u64 \<times> u64 \<times> bytes) option"
  | Outer_Suspect "u64 option"
  | Outer_Checkpoint "CheckpointMsg option"
  | Outer_RequestAck "RequestAck option"
  | Outer_FetchRequest "RequestAck option"
  | Outer_ForwardRequest "(RequestAck option \<times> bytes) option"
  | Outer_FetchBatch "(u64 \<times> bytes) option"
  | Outer_ForwardBatch "(u64 \<times> RequestAck list \<times> bytes) option"
  | Outer_EpochChange "EpochChangeMsg option"
  | Outer_EpochChangeAck "(u64 \<times> EpochChangeMsg option) option"
  | Outer_NewEpoch "outerNewEpoch option"
  | Outer_NewEpochEcho "outerNewEpochConfig option"
  | Outer_NewEpochReady "outerNewEpochConfig option"

datatype filterError =
    NilMessage string
  | NilRequestAck
  | NilNewConfig string
  | NilConfig string
  | NilStartingCheckpoint string
  | UnknownMsgType

definition unlessNil :: "string \<Rightarrow> 'a option \<Rightarrow> filterError option" where
  [go_defs]: "unlessNil name field = (if field = None then Some (NilMessage name) else None)"

definition checkNewEpochConfig :: "string \<Rightarrow> outerNewEpochConfig \<Rightarrow> filterError option" where
  [go_defs]: "checkNewEpochConfig name cfg =
     (if oncConfig cfg = None then Some (NilConfig name)
      else if oncStartingCheckpoint cfg = None then Some (NilStartingCheckpoint name)
      else None)"

fun preProcess :: "outerMsg \<Rightarrow> filterError option" where
  "preProcess (Outer_Preprepare m) = unlessNil ''Preprepare'' m"
| "preProcess (Outer_Prepare m) = unlessNil ''Prepare'' m"
| "preProcess (Outer_Commit m) = unlessNil ''Commit'' m"
| "preProcess (Outer_Suspect m) = unlessNil ''Suspect'' m"
| "preProcess (Outer_Checkpoint m) = unlessNil ''Checkpoint'' m"
| "preProcess (Outer_RequestAck m) = unlessNil ''RequestAck'' m"
| "preProcess (Outer_FetchRequest m) = unlessNil ''FetchRequest'' m"
| "preProcess (Outer_ForwardRequest m) =
     (case m of
        None \<Rightarrow> Some (NilMessage ''ForwardRequest'')
      | Some (requestAck, _) \<Rightarrow> if requestAck = None then Some NilRequestAck else None)"
| "preProcess (Outer_FetchBatch m) = unlessNil ''FetchBatch'' m"
| "preProcess (Outer_ForwardBatch m) = unlessNil ''ForwardBatch'' m"
| "preProcess (Outer_EpochChange m) = unlessNil ''EpochChange'' m"
| "preProcess (Outer_EpochChangeAck m) = unlessNil ''EpochChangeAck'' m"
| "preProcess (Outer_NewEpoch m) =
     (case m of
        None \<Rightarrow> Some (NilMessage ''NewEpoch'')
      | Some newEpoch \<Rightarrow>
          (case oneNewConfig newEpoch of
             None \<Rightarrow> Some (NilNewConfig ''NewEpoch'')
           | Some cfg \<Rightarrow> checkNewEpochConfig ''NewEpoch'' cfg))"
| "preProcess (Outer_NewEpochEcho m) =
     (case m of None \<Rightarrow> Some (NilMessage ''NewEpochEcho'') | Some cfg \<Rightarrow> checkNewEpochConfig ''NewEpochEcho'' cfg)"
| "preProcess (Outer_NewEpochReady m) =
     (case m of None \<Rightarrow> Some (NilMessage ''NewEpochReady'') | Some cfg \<Rightarrow> checkNewEpochConfig ''NewEpochReady'' cfg)"
| "preProcess Outer_Unset = Some UnknownMsgType"

section \<open>Complete messages\<close>

text \<open>The message of the model, when nothing the state machine reads is nil.\<close>

definition completeConfig :: "outerNewEpochConfig \<Rightarrow> NewEpochConfig option" where
  "completeConfig cfg = do {
     c \<leftarrow> oncConfig cfg;
     cp \<leftarrow> oncStartingCheckpoint cfg;
     Some \<lparr>necConfig = c, necStartingCheckpoint = cp, necFinalPreprepares = oncFinalPreprepares cfg\<rparr>
   }"

fun complete :: "outerMsg \<Rightarrow> Msg option" where
  "complete (Outer_Preprepare m) = map_option (\<lambda>(s, e, b). Msg_Preprepare s e b) m"
| "complete (Outer_Prepare m) = map_option (\<lambda>(s, e, d). Msg_Prepare s e d) m"
| "complete (Outer_Commit m) = map_option (\<lambda>(s, e, d). Msg_Commit s e d) m"
| "complete (Outer_Suspect m) = map_option Msg_Suspect m"
| "complete (Outer_Checkpoint m) = map_option Msg_Checkpoint m"
| "complete (Outer_RequestAck m) = map_option Msg_RequestAck m"
| "complete (Outer_FetchRequest m) = map_option Msg_FetchRequest m"
| "complete (Outer_ForwardRequest m) = do { (ack, data) \<leftarrow> m; ack \<leftarrow> ack; Some (Msg_ForwardRequest ack data) }"
| "complete (Outer_FetchBatch m) = map_option (\<lambda>(s, d). Msg_FetchBatch s d) m"
| "complete (Outer_ForwardBatch m) = map_option (\<lambda>(s, rs, d). Msg_ForwardBatch s rs d) m"
| "complete (Outer_EpochChange m) = map_option Msg_EpochChange m"
| "complete (Outer_EpochChangeAck m) = do { (i, ec) \<leftarrow> m; ec \<leftarrow> ec; Some (Msg_EpochChangeAck i ec) }"
| "complete (Outer_NewEpoch m) = do {
     ne \<leftarrow> m;
     cfg \<leftarrow> oneNewConfig ne;
     cfg \<leftarrow> completeConfig cfg;
     Some (Msg_NewEpoch (Some \<lparr>neNewConfig = cfg, neEpochChanges = oneEpochChanges ne\<rparr>))
   }"
| "complete (Outer_NewEpochEcho m) = do { cfg \<leftarrow> m; cfg \<leftarrow> completeConfig cfg; Some (Msg_NewEpochEcho cfg) }"
| "complete (Outer_NewEpochReady m) = do { cfg \<leftarrow> m; cfg \<leftarrow> completeConfig cfg; Some (Msg_NewEpochReady cfg) }"
| "complete Outer_Unset = None"

lemma checkNewEpochConfig_complete: "checkNewEpochConfig name cfg = None \<longleftrightarrow> (\<exists>c. completeConfig cfg = Some c)"
  by (auto simp: checkNewEpochConfig_def completeConfig_def bind_eq_Some_conv)

text \<open>C36. The check lets through exactly the complete messages, and one kind of incomplete ones: an acknowledgement of an
  epoch change without the epoch change.\<close>

theorem preProcess_accepts_complete:
  "preProcess m = None \<longleftrightarrow> (\<exists>msg. complete m = Some msg) \<or> (\<exists>i. m = Outer_EpochChangeAck (Some (i, None)))"
  by (cases m) (auto simp: unlessNil_def checkNewEpochConfig_complete bind_eq_Some_conv split: option.splits)

end
