(* ===== verification/Mir_EventLog.thy ===== *)
theory Mir_EventLog
  imports Mir_Actions
begin

unbundle bit_operations_syntax

text \<open>
  \<open>pkg/eventlog/interceptor.go\<close>: recorded events, and the stream they are written to and read from, each encoded and
  preceded by its length as a varint. The encoding of protocol buffers is a parameter; the compression is between the
  stream and the file and is left out, as is the go routine that writes the stream.
\<close>

type_synonym i64 = "64 word"

record recEvent =
  reNodeId :: u64
  reTime :: i64
  reStateEvent :: Event

section \<open>Varints\<close>

text \<open>\<open>encoding/binary\<close>: \<open>PutUvarint\<close> and \<open>PutVarint\<close>, with the zigzag encoding of the sign.\<close>

function PutUvarint :: "u64 \<Rightarrow> byte list" where
  "PutUvarint x = (if 128 \<le> x then (ucast x OR 128) # PutUvarint (drop_bit 7 x) else [ucast x])"
  by pat_completeness auto
termination
proof (relation "measure unat", goal_cases)
  case (2 x)
  then have "0 < unat x" by (simp add: word_le_nat_alt)
  then show ?case by (simp add: drop_bit_eq_div unat_div)
qed simp

declare PutUvarint.simps [simp del]

definition PutVarint :: "i64 \<Rightarrow> byte list" where
  "PutVarint x = (let ux = push_bit 1 x in PutUvarint (if sint x < 0 then NOT ux else ux))"

text \<open>
  \<open>ReadUvarint\<close> and \<open>ReadVarint\<close>: at most ten bytes, the tenth at most one. The end of the stream before the first byte is not
  an error of the encoding.
\<close>

datatype readError = EOF | UnexpectedEOF | Overflow

fun readUvarintLoop :: "byte list \<Rightarrow> nat \<Rightarrow> u64 \<Rightarrow> readError + u64 \<times> byte list" where
  "readUvarintLoop [] i x = Inl (if 0 < i then UnexpectedEOF else EOF)"
| "readUvarintLoop (b # rest) i x =
     (if 10 \<le> i then Inl Overflow
      else if b < 128 then
        (if i = 9 \<and> 1 < b then Inl Overflow else Inr (x OR push_bit (7 * i) (ucast b), rest))
      else readUvarintLoop rest (Suc i) (x OR push_bit (7 * i) (ucast (b AND 127))))"

definition ReadUvarint :: "byte list \<Rightarrow> readError + u64 \<times> byte list" where
  "ReadUvarint stream = readUvarintLoop stream 0 0"

definition ReadVarint :: "byte list \<Rightarrow> readError + i64 \<times> byte list" where
  "ReadVarint stream =
     (case ReadUvarint stream of
        Inl e \<Rightarrow> Inl e
      | Inr (ux, rest) \<Rightarrow> (let x = drop_bit 1 ux in Inr (if bit ux 0 then NOT x else x, rest)))"

section \<open>Reading what was written\<close>

lemma low_byte:
  fixes x :: u64
  shows "ucast ((ucast x OR 128 :: byte) AND 127) = take_bit 7 x" "\<not> (ucast x OR 128 :: byte) < 128"
proof -
  have "(127 :: byte) = mask 7" by (simp add: mask_eq_exp_minus_1)
  moreover have "(128 :: byte) = push_bit 7 1" by simp
  ultimately show "ucast ((ucast x OR 128 :: byte) AND 127) = take_bit 7 x"
    by (simp only: take_bit_eq_mask [symmetric]) (rule bit_word_eqI, auto simp: bit_simps)
  show "\<not> (ucast x OR 128 :: byte) < 128" by (simp add: not_less le_word_or1)
qed

lemma last_byte:
  fixes x :: u64
  assumes "x < 128"
  shows "ucast (ucast x :: byte) = x" "(ucast x :: byte) < 128" "x \<le> 1 \<Longrightarrow> (ucast x :: byte) \<le> 1"
proof -
  have "unat x < 128" using assms by (simp add: word_less_nat_alt)
  then have u: "unat (ucast x :: byte) = unat x" by (simp add: unsigned_ucast_eq take_bit_eq_mod unat_mod)
  with \<open>unat x < 128\<close> show "(ucast x :: byte) < 128" "x \<le> 1 \<Longrightarrow> (ucast x :: byte) \<le> 1"
    by (simp_all add: word_less_nat_alt word_le_nat_alt)
  have "unat (ucast (ucast x :: byte) :: u64) = unat x"
    using u \<open>unat x < 128\<close> by (simp add: unsigned_ucast_eq take_bit_eq_mod unat_mod)
  then show "ucast (ucast x :: byte) = x" by (rule unsigned_word_eqI)
qed

lemma top_bit: "drop_bit 63 (x :: u64) \<le> 1"
proof -
  have "unat x div 2 ^ 63 < 2" using unsigned_less [of x, where 'a = nat] by (simp add: less_mult_imp_div_less)
  then show ?thesis by (simp add: word_le_nat_alt drop_bit_eq_div unat_div)
qed

lemma take_drop_join: "take_bit n x OR push_bit n (drop_bit n x) = (x :: u64)"
proof (rule bit_word_eqI)
  fix k
  show "bit (take_bit n x OR push_bit n (drop_bit n x)) k = bit x k" if "k < LENGTH(64)"
    using that by (cases "k < n") (auto simp: bit_simps)
qed

lemma take_bit_join: "take_bit n x OR push_bit n (take_bit 7 (drop_bit n x)) = take_bit (n + 7) (x :: u64)"
proof (rule bit_word_eqI)
  fix k
  show "bit (take_bit n x OR push_bit n (take_bit 7 (drop_bit n x))) k = bit (take_bit (n + 7) x) k" if "k < LENGTH(64)"
    using that by (cases "k < n") (auto simp: bit_simps)
qed

lemma readUvarintLoop_put:
  "i \<le> 9 \<Longrightarrow> y = drop_bit (7 * i) X \<Longrightarrow> readUvarintLoop (PutUvarint y @ rest) i (take_bit (7 * i) X) = Inr (X, rest)"
proof (induction y arbitrary: i rule: PutUvarint.induct)
  case (1 y)
  show ?case
  proof (cases "128 \<le> y")
    case True
    have "i \<noteq> 9" using True 1(3) top_bit [of X] by (auto simp: word_le_nat_alt)
    with 1(2) have "i \<le> 8" by simp
    with 1(1) [OF True, of "Suc i"] 1(3) True low_byte [of y] show ?thesis
      by (subst PutUvarint.simps) (simp add: take_bit_join add.commute)
  next
    case False
    have "y \<le> 1" if "i = 9" using that 1(3) top_bit [of X] by simp
    with False 1(2,3) last_byte [of y] take_drop_join [of "7 * i" X] show ?thesis
      by (subst PutUvarint.simps) (auto simp: not_le)
  qed
qed

lemma ReadUvarint_PutUvarint: "ReadUvarint (PutUvarint x @ rest) = Inr (x, rest)"
  using readUvarintLoop_put [of 0 x x rest] by (simp add: ReadUvarint_def)

lemma zigzag:
  fixes x :: i64
  defines "ux \<equiv> if sint x < 0 then NOT (push_bit 1 x) else push_bit 1 x"
  shows "(if bit ux 0 then NOT (drop_bit 1 ux) else drop_bit 1 ux) = x"
proof (rule bit_word_eqI)
  fix n assume n: "n < LENGTH(64)"
  have neg: "sint x < 0 \<longleftrightarrow> bit x 63" using bit_last_iff [of x] by simp
  define y where "y = push_bit 1 x"
  have b: "bit y k \<longleftrightarrow> 1 \<le> k \<and> k < 64 \<and> bit x (k - 1)" for k unfolding y_def bit_push_bit_iff by auto
  have ux: "ux = (if bit x 63 then NOT y else y)" by (simp only: ux_def y_def neg)
  consider "n = 63" | "Suc n < 64" using n by fastforce
  then show "bit (if bit ux 0 then NOT (drop_bit 1 ux) else drop_bit 1 ux) n = bit x n"
    by cases (auto simp: ux b bit_simps)
qed

lemma ReadVarint_PutVarint: "ReadVarint (PutVarint x @ rest) = Inr (x, rest)"
  using zigzag [of x] by (simp add: ReadVarint_def PutVarint_def Let_def ReadUvarint_PutUvarint split: if_splits)

section \<open>The stream\<close>

text \<open>A write to the destination may fail, and what was written before stays.\<close>

datatype 'e writeError = EventNotMarshalled 'e | PrefixNotWritten 'e | MessageNotWritten 'e

definition writeSizePrefixedProto ::
  "(recEvent \<Rightarrow> 'e + bytes) \<Rightarrow> (byte list \<Rightarrow> byte list \<Rightarrow> 'e option) \<Rightarrow> recEvent \<Rightarrow> byte list \<Rightarrow> byte list \<times> 'e writeError option" where
  [go_defs]: "writeSizePrefixedProto marshal fails msg dest =
     (case marshal msg of
        Inl err \<Rightarrow> (dest, Some (EventNotMarshalled err))
      | Inr msgBytes \<Rightarrow>
          (let lenBuf = PutVarint (of_nat (length (bstr msgBytes))) in
           case fails dest lenBuf of
             Some err \<Rightarrow> (dest, Some (PrefixNotWritten err))
           | None \<Rightarrow>
               (let dest = dest @ lenBuf in
                case fails dest (bstr msgBytes) of
                  Some err \<Rightarrow> (dest, Some (MessageNotWritten err))
                | None \<Rightarrow> (dest @ bstr msgBytes, None))))"

definition WriteRecordedEvent ::
  "(recEvent \<Rightarrow> 'e + bytes) \<Rightarrow> (byte list \<Rightarrow> byte list \<Rightarrow> 'e option) \<Rightarrow> recEvent \<Rightarrow> byte list \<Rightarrow> byte list \<times> 'e writeError option" where
  [go_defs]: "WriteRecordedEvent marshal fails event writer = writeSizePrefixedProto marshal fails event writer"

record Reader =
  rdBuffer :: "byte list"
  rdSource :: "byte list"

datatype 'e eventError = EndOfLog | SizeNotRead readError | MessageNotRead | EventNotDecoded 'e

text \<open>Growing the buffer by a negative count panics. A message that is cut off leaves what there is of it in the
  buffer.\<close>

definition readSizePrefixedProto ::
  "(byte list \<Rightarrow> 'e + recEvent) \<Rightarrow> Reader \<Rightarrow> (Reader \<times> ('e eventError + recEvent)) option" where
  [go_defs]: "readSizePrefixedProto unmarshal r =
     (case ReadVarint (rdSource r) of
        Inl EOF \<Rightarrow> Some (r\<lparr>rdSource := []\<rparr>, Inl EndOfLog)
      | Inl err \<Rightarrow> Some (r\<lparr>rdSource := []\<rparr>, Inl (SizeNotRead err))
      | Inr (l, rest) \<Rightarrow>
          if sint l < 0 then None
          else
            (let n = nat (sint l);
                 r = r\<lparr>rdBuffer := rdBuffer r @ take n rest, rdSource := drop n rest\<rparr> in
             if length rest < n then Some (r, Inl MessageNotRead)
             else (case unmarshal (rdBuffer r) of
                     Inl err \<Rightarrow> Some (r, Inl (EventNotDecoded err))
                   | Inr re \<Rightarrow> Some (r, Inr re))))"

definition ReadEvent :: "(byte list \<Rightarrow> 'e + recEvent) \<Rightarrow> Reader \<Rightarrow> (Reader \<times> ('e eventError + recEvent)) option" where
  [go_defs]: "ReadEvent unmarshal r =
     map_option (\<lambda>(r, res). case res of Inl err \<Rightarrow> (r, Inl err) | Inr re \<Rightarrow> (r\<lparr>rdBuffer := []\<rparr>, Inr re))
       (readSizePrefixedProto unmarshal r)"

text \<open>Reading a whole log, up to its end or the first error.\<close>

partial_function (option) ReadEventLog ::
  "(byte list \<Rightarrow> 'e + recEvent) \<Rightarrow> Reader \<Rightarrow> recEvent list \<Rightarrow> ('e eventError + recEvent list) option" where
  "ReadEventLog unmarshal reader events =
     Option.bind (ReadEvent unmarshal reader) (\<lambda>(reader, res).
        case res of
          Inl err \<Rightarrow> Some (if err = EndOfLog then Inr events else Inl err)
        | Inr event \<Rightarrow> ReadEventLog unmarshal reader (events @ [event]))"

fun writeEvents ::
  "(recEvent \<Rightarrow> 'e + bytes) \<Rightarrow> (byte list \<Rightarrow> byte list \<Rightarrow> 'e option) \<Rightarrow> recEvent list \<Rightarrow> byte list \<Rightarrow> byte list \<times> 'e writeError option" where
  "writeEvents marshal fails [] dest = (dest, None)"
| "writeEvents marshal fails (e # es) dest =
     (case WriteRecordedEvent marshal fails e dest of
        (dest, Some err) \<Rightarrow> (dest, Some err)
      | (dest, None) \<Rightarrow> writeEvents marshal fails es dest)"

text \<open>Decoding undoes encoding, and no message is as long as half of the address space.\<close>

definition eventProtoLaws :: "(recEvent \<Rightarrow> 'e + bytes) \<Rightarrow> (byte list \<Rightarrow> 'e + recEvent) \<Rightarrow> bool" where
  "eventProtoLaws marshal unmarshal \<longleftrightarrow>
     (\<forall>e bs. marshal e = Inr bs \<longrightarrow> unmarshal (bstr bs) = Inr e \<and> int (length (bstr bs)) < 2 ^ 63)"

lemma sint_length: "int n < 2 ^ 63 \<Longrightarrow> sint (of_nat n :: i64) = int n"
  using int_word_sint [of "int n", where 'a = 64] by simp

lemma write_ok:
  assumes "eventProtoLaws marshal unmarshal" "WriteRecordedEvent marshal fails e dest = (dest', None)"
  shows "\<exists>bs. dest' = dest @ bs \<and> (\<forall>rest. ReadEvent unmarshal \<lparr>rdBuffer = [], rdSource = bs @ rest\<rparr> =
    Some (\<lparr>rdBuffer = [], rdSource = rest\<rparr>, Inr e))"
proof -
  from assms(2) obtain mb where m: "marshal e = Inr mb" "dest' = dest @ PutVarint (of_nat (length (bstr mb))) @ bstr mb"
    by (auto simp: WriteRecordedEvent_def writeSizePrefixedProto_def Let_def split: sum.splits option.splits)
  with assms(1) have u: "unmarshal (bstr mb) = Inr e" "int (length (bstr mb)) < 2 ^ 63"
    by (auto simp: eventProtoLaws_def)
  then have "ReadEvent unmarshal \<lparr>rdBuffer = [], rdSource = (PutVarint (of_nat (length (bstr mb))) @ bstr mb) @ rest\<rparr> =
      Some (\<lparr>rdBuffer = [], rdSource = rest\<rparr>, Inr e)" for rest
    by (simp add: ReadEvent_def readSizePrefixedProto_def ReadVarint_PutVarint sint_length Let_def)
  with m(2) show ?thesis by blast
qed

lemma readEventLog_written:
  assumes "eventProtoLaws marshal unmarshal" "writeEvents marshal fails events [] = (stream, None)"
  shows "ReadEventLog unmarshal \<lparr>rdBuffer = [], rdSource = stream\<rparr> [] = Some (Inr events)"
proof -
  have "\<exists>bs. dest' = dest @ bs \<and> (\<forall>acc. ReadEventLog unmarshal \<lparr>rdBuffer = [], rdSource = bs\<rparr> acc = Some (Inr (acc @ es)))"
    if "writeEvents marshal fails es dest = (dest', None)" for es dest dest'
    using that
  proof (induction es arbitrary: dest)
    case Nil
    have "ReadEventLog unmarshal \<lparr>rdBuffer = [], rdSource = []\<rparr> acc = Some (Inr acc)" for acc
      by (subst ReadEventLog.simps)
        (simp add: ReadEvent_def readSizePrefixedProto_def ReadVarint_def ReadUvarint_def)
    with Nil show ?case by simp
  next
    case (Cons e es)
    then obtain d1 where w: "WriteRecordedEvent marshal fails e dest = (d1, None)" "writeEvents marshal fails es d1 = (dest', None)"
      by (auto split: prod.splits option.splits)
    from write_ok [OF assms(1) w(1)] obtain bs where
      r: "d1 = dest @ bs" "\<And>rest. ReadEvent unmarshal \<lparr>rdBuffer = [], rdSource = bs @ rest\<rparr> = Some (\<lparr>rdBuffer = [], rdSource = rest\<rparr>, Inr e)"
      by blast
    from Cons.IH [OF w(2)] obtain cs where
      c: "dest' = d1 @ cs" "\<And>acc. ReadEventLog unmarshal \<lparr>rdBuffer = [], rdSource = cs\<rparr> acc = Some (Inr (acc @ es))" by blast
    have "ReadEventLog unmarshal \<lparr>rdBuffer = [], rdSource = bs @ cs\<rparr> acc = Some (Inr (acc @ e # es))" for acc
      using c(2) [of "acc @ [e]"] by (subst ReadEventLog.simps) (simp add: r(2))
    with r(1) c(1) show ?case by auto
  qed
  from this [OF assms(2)] show ?thesis by auto
qed


text \<open>The example: an encoding of two events.\<close>

definition tickAt :: "i64 \<Rightarrow> recEvent" where
  "tickAt t = \<lparr>reNodeId = 3, reTime = t, reStateEvent = Event_TickElapsed\<rparr>"

definition twoMarshal :: "recEvent \<Rightarrow> unit + bytes" where
  "twoMarshal e = (if e = tickAt 5 then Inr (Some [7]) else if e = tickAt 9 then Inr (Some [8, 8]) else Inl ())"

definition twoUnmarshal :: "byte list \<Rightarrow> unit + recEvent" where
  "twoUnmarshal bs = (if bs = [7] then Inr (tickAt 5) else if bs = [8, 8] then Inr (tickAt 9) else Inl ())"

lemma twoMarshal_laws: "eventProtoLaws twoMarshal twoUnmarshal"
  by (auto simp: eventProtoLaws_def twoMarshal_def twoUnmarshal_def split: if_splits)


section \<open>The recorder\<close>

text \<open>
  The go routine that writes the stream, and the calls that feed it: the queue of events with their times, the stream,
  whether \<open>Stop\<close> was called, and with what the routine ended. Each rule is a communication or a step of
  the routine. \<open>Intercept\<close> may put an event into the queue whenever there is room: the \<open>select\<close> does not prefer the end
  of the routine.
\<close>

datatype 'e recorderExit = RecorderStopped | RecorderFailed "'e writeError"

record 'e recorder =
  rcQueue :: "(Event \<times> i64) list"
  rcStream :: "byte list"
  rcDone :: bool
  rcExit :: "'e recorderExit option"

definition NewRecorder :: "'e recorder" where
  [go_defs]: "NewRecorder = \<lparr>rcQueue = [], rcStream = [], rcDone = False, rcExit = None\<rparr>"

definition timedEvent :: "u64 \<Rightarrow> Event \<times> i64 \<Rightarrow> recEvent" where
  [go_defs]: "timedEvent nodeID et = \<lparr>reNodeId = nodeID, reTime = snd et, reStateEvent = fst et\<rparr>"

text \<open>The list is that of the events \<open>Intercept\<close> has accepted before the routine ended.\<close>

inductive recorderRun ::
  "(recEvent \<Rightarrow> 'e + bytes) \<Rightarrow> (byte list \<Rightarrow> byte list \<Rightarrow> 'e option) \<Rightarrow> u64 \<Rightarrow> nat \<Rightarrow> (Event \<times> i64) list \<Rightarrow> 'e recorder \<Rightarrow> bool"
  for marshal fails nodeID bufferSize where
  new: "recorderRun marshal fails nodeID bufferSize [] NewRecorder"
| intercept: "recorderRun marshal fails nodeID bufferSize es r \<Longrightarrow> length (rcQueue r) < bufferSize \<Longrightarrow>
    recorderRun marshal fails nodeID bufferSize (if rcExit r = None then es @ [e] else es) (r\<lparr>rcQueue := rcQueue r @ [e]\<rparr>)"
| written: "recorderRun marshal fails nodeID bufferSize es r \<Longrightarrow> rcExit r = None \<Longrightarrow> rcQueue r = e # q \<Longrightarrow>
    WriteRecordedEvent marshal fails (timedEvent nodeID e) (rcStream r) = (stream, None) \<Longrightarrow>
    recorderRun marshal fails nodeID bufferSize es (r\<lparr>rcQueue := q, rcStream := stream\<rparr>)"
| failed: "recorderRun marshal fails nodeID bufferSize es r \<Longrightarrow> rcExit r = None \<Longrightarrow> rcQueue r = e # q \<Longrightarrow>
    WriteRecordedEvent marshal fails (timedEvent nodeID e) (rcStream r) = (stream, Some err) \<Longrightarrow>
    recorderRun marshal fails nodeID bufferSize es (r\<lparr>rcQueue := q, rcStream := stream, rcExit := Some (RecorderFailed err)\<rparr>)"
| stop: "recorderRun marshal fails nodeID bufferSize es r \<Longrightarrow> \<not> rcDone r \<Longrightarrow>
    recorderRun marshal fails nodeID bufferSize es (r\<lparr>rcDone := True\<rparr>)"
| ends: "recorderRun marshal fails nodeID bufferSize es r \<Longrightarrow> rcExit r = None \<Longrightarrow> rcDone r \<Longrightarrow> rcQueue r = [] \<Longrightarrow>
    recorderRun marshal fails nodeID bufferSize es (r\<lparr>rcExit := Some RecorderStopped\<rparr>)"

lemma writeEvents_append:
  "writeEvents marshal fails xs dest = (dest1, None) \<Longrightarrow> writeEvents marshal fails ys dest1 = (dest2, None) \<Longrightarrow>
     writeEvents marshal fails (xs @ ys) dest = (dest2, None)"
  by (induction xs arbitrary: dest) (auto split: prod.splits option.splits)

lemma recorder_stream:
  "recorderRun marshal fails nodeID bufferSize es r \<Longrightarrow>
     (rcExit r = None \<longrightarrow> (\<exists>old. es = old @ rcQueue r \<and> writeEvents marshal fails (map (timedEvent nodeID) old) [] = (rcStream r, None))) \<and>
     (rcExit r = Some RecorderStopped \<longrightarrow> writeEvents marshal fails (map (timedEvent nodeID) es) [] = (rcStream r, None))"
proof (induction rule: recorderRun.induct)
  case (written es r e q stream)
  then obtain old where "es = old @ e # q" "writeEvents marshal fails (map (timedEvent nodeID) old) [] = (rcStream r, None)" by auto
  moreover from this(2) have "writeEvents marshal fails (map (timedEvent nodeID) (old @ [e])) [] = (stream, None)"
    using written(4) writeEvents_append [of marshal fails _ _ _ "[timedEvent nodeID e]"] by simp
  ultimately show ?case using written(2) by (auto intro!: exI [of _ "old @ [e]"])
qed (auto simp: NewRecorder_def)


lemma recorder_example:
  "\<exists>r. recorderRun twoMarshal (\<lambda>_ _. None) 3 10 [(Event_TickElapsed, 5)] r \<and> rcExit r = Some RecorderStopped"
proof -
  let ?R = "recorderRun twoMarshal (\<lambda>_ _. None) 3 10"
  have "?R [] NewRecorder" by (rule recorderRun.new)
  from recorderRun.intercept [OF this, of "(Event_TickElapsed, 5)"]
  have i: "?R [(Event_TickElapsed, 5)] (NewRecorder\<lparr>rcQueue := [(Event_TickElapsed, 5)]\<rparr>)" by (simp add: NewRecorder_def)
  have "timedEvent 3 (Event_TickElapsed, 5) = tickAt 5" by (simp add: timedEvent_def tickAt_def)
  then have "\<exists>stream. WriteRecordedEvent twoMarshal (\<lambda>_ _. None) (timedEvent 3 (Event_TickElapsed, 5)) [] = (stream, None)"
    by (simp add: WriteRecordedEvent_def writeSizePrefixedProto_def twoMarshal_def Let_def)
  then obtain stream where "WriteRecordedEvent twoMarshal (\<lambda>_ _. None) (timedEvent 3 (Event_TickElapsed, 5)) [] = (stream, None)" by blast
  with recorderRun.written [OF i, of "(Event_TickElapsed, 5)" "[]" stream]
  have "?R [(Event_TickElapsed, 5)] (NewRecorder\<lparr>rcQueue := [], rcStream := stream\<rparr>)" by (simp add: NewRecorder_def)
  from recorderRun.ends [OF recorderRun.stop [OF this]] show ?thesis by (auto simp: NewRecorder_def)
qed


text \<open>An event may be accepted after the routine has ended; nothing will write it.\<close>

lemma intercept_after_exit:
  "\<exists>r. recorderRun marshal fails nodeID (Suc n) [] r \<and> rcExit r = Some RecorderStopped \<and> rcQueue r = [e]"
proof -
  let ?r = "NewRecorder\<lparr>rcDone := True, rcExit := Some RecorderStopped\<rparr>"
  have "recorderRun marshal fails nodeID (Suc n) [] ?r"
    using recorderRun.ends [OF recorderRun.stop [OF recorderRun.new]] by (simp add: NewRecorder_def)
  from recorderRun.intercept [OF this, of e] show ?thesis by (auto simp: NewRecorder_def)
qed

end
