(* ===== verification/Mir_Manglers.thy ===== *)
theory Mir_Manglers
  imports Mir_EventLog "HOL-Library.Signed_Division"
begin

text \<open>
  \<open>pkg/testengine/manglers.go\<close> and \<open>pkg/testengine/eventlog.go\<close>: the faults a test injects, and the simulated time. A matching is
  a list of filters; a mangler replaces an event by others. The fields of a matching are filled in by reflection
  from the methods of one type; that is the comparison of the names of the two. Events are pointers in the code, each in
  the log once, so the set of mangled ones is a mark on the entries of the log. \<open>ForNode\<close> and \<open>ForNodes\<close> are \<open>ToNode\<close> and
  \<open>ToNodes\<close>. Writing an event to the optional output of the log is modelled as never failing.
\<close>

section \<open>Filters\<close>

record mangleFilter =
  mfMsgContents :: "(Msg \<Rightarrow> bool) option"
  mfMsgSeqNo :: "(u64 \<Rightarrow> bool) option"
  mfMsgEpoch :: "(u64 \<Rightarrow> bool) option"
  mfMsgSource :: "(u64 \<Rightarrow> u64 \<Rightarrow> bool) option"
  mfStateEvent :: "(Event \<Rightarrow> bool) option"
  mfTarget :: "(u64 \<Rightarrow> bool) option"
  mfBlind :: "(int \<Rightarrow> bool) option"

definition emptyFilter :: mangleFilter where
  "emptyFilter = \<lparr>mfMsgContents = None, mfMsgSeqNo = None, mfMsgEpoch = None, mfMsgSource = None, mfStateEvent = None,
     mfTarget = None, mfBlind = None\<rparr>"

text \<open>The type assertion on a step panics for every other event.\<close>

fun assertStep :: "Event \<Rightarrow> (u64 \<times> Msg) option" where
  "assertStep (Event_Step source msg) = Some (source, msg)"
| "assertStep _ = None"

text \<open>The epoch of a message, if it has one; reading it from a new epoch message that is nil panics.\<close>

fun filterEpoch :: "Msg \<Rightarrow> u64 option option" where
  "filterEpoch (Msg_Preprepare _ epoch _) = Some (Some epoch)"
| "filterEpoch (Msg_Prepare _ epoch _) = Some (Some epoch)"
| "filterEpoch (Msg_Commit _ epoch _) = Some (Some epoch)"
| "filterEpoch (Msg_Suspect epoch) = Some (Some epoch)"
| "filterEpoch (Msg_EpochChange ec) = Some (Some (ecmNewEpoch ec))"
| "filterEpoch (Msg_EpochChangeAck _ ec) = Some (Some (ecmNewEpoch ec))"
| "filterEpoch (Msg_NewEpoch ne) = map_option (\<lambda>ne. Some (epNumber (necConfig (neNewConfig ne)))) ne"
| "filterEpoch (Msg_NewEpochEcho cfg) = Some (Some (epNumber (necConfig cfg)))"
| "filterEpoch (Msg_NewEpochReady cfg) = Some (Some (epNumber (necConfig cfg)))"
| "filterEpoch _ = Some None"

fun filterSeqNo :: "Msg \<Rightarrow> u64 option" where
  "filterSeqNo (Msg_Preprepare seqNo _ _) = Some seqNo"
| "filterSeqNo (Msg_Prepare seqNo _ _) = Some seqNo"
| "filterSeqNo (Msg_Commit seqNo _ _) = Some seqNo"
| "filterSeqNo (Msg_Checkpoint cp) = Some (cpSeqNo cp)"
| "filterSeqNo (Msg_FetchBatch seqNo _) = Some seqNo"
| "filterSeqNo (Msg_ForwardBatch seqNo _ _) = Some seqNo"
| "filterSeqNo _ = None"

definition mf_apply :: "mangleFilter \<Rightarrow> int \<Rightarrow> recEvent \<Rightarrow> bool option" where
  [go_defs]: "mf_apply mf random event =
     (case mfMsgContents mf of
        Some f \<Rightarrow> map_option (\<lambda>(_, msg). f msg) (assertStep (reStateEvent event))
      | None \<Rightarrow>
     case mfMsgEpoch mf of
        Some f \<Rightarrow> do {
          (_, msg) \<leftarrow> assertStep (reStateEvent event);
          epoch \<leftarrow> filterEpoch msg;
          Some (case epoch of None \<Rightarrow> False | Some epoch \<Rightarrow> f epoch)
        }
      | None \<Rightarrow>
     case mfMsgSeqNo mf of
        Some f \<Rightarrow>
          map_option (\<lambda>(_, msg). case filterSeqNo msg of None \<Rightarrow> False | Some seqNo \<Rightarrow> f seqNo) (assertStep (reStateEvent event))
      | None \<Rightarrow>
     case mfMsgSource mf of
        Some f \<Rightarrow> map_option (\<lambda>(source, _). f (reNodeId event) source) (assertStep (reStateEvent event))
      | None \<Rightarrow>
     case mfStateEvent mf of
        Some f \<Rightarrow> Some (f (reStateEvent event))
      | None \<Rightarrow>
     case mfTarget mf of
        Some f \<Rightarrow> Some (f (reNodeId event))
      | None \<Rightarrow> map_option (\<lambda>f. f random) (mfBlind mf))"

fun Matches :: "mangleFilter list \<Rightarrow> int \<Rightarrow> recEvent \<Rightarrow> bool option" where
  "Matches [] random event = Some True"
| "Matches (mf # filters) random event = do {
     ok \<leftarrow> mf_apply mf random event;
     if ok then Matches filters random event else Some False
   }"

section \<open>The methods\<close>

datatype msgKind =
    KPreprepare | KPrepare | KCommit | KCheckpoint | KSuspect | KEpochChange | KEpochChangeAck | KNewEpoch | KNewEpochEcho
  | KNewEpochReady | KFetchBatch | KForwardBatch | KFetchRequest | KForwardRequest | KRequestAck

fun kindOf :: "Msg \<Rightarrow> msgKind" where
  "kindOf (Msg_Preprepare _ _ _) = KPreprepare"
| "kindOf (Msg_Prepare _ _ _) = KPrepare"
| "kindOf (Msg_Commit _ _ _) = KCommit"
| "kindOf (Msg_Checkpoint _) = KCheckpoint"
| "kindOf (Msg_Suspect _) = KSuspect"
| "kindOf (Msg_EpochChange _) = KEpochChange"
| "kindOf (Msg_EpochChangeAck _ _) = KEpochChangeAck"
| "kindOf (Msg_NewEpoch _) = KNewEpoch"
| "kindOf (Msg_NewEpochEcho _) = KNewEpochEcho"
| "kindOf (Msg_NewEpochReady _) = KNewEpochReady"
| "kindOf (Msg_FetchBatch _ _) = KFetchBatch"
| "kindOf (Msg_ForwardBatch _ _ _) = KForwardBatch"
| "kindOf (Msg_FetchRequest _) = KFetchRequest"
| "kindOf (Msg_ForwardRequest _ _) = KForwardRequest"
| "kindOf (Msg_RequestAck _) = KRequestAck"

datatype matchMethod =
    FromSelf
  | FromNode u64
  | FromNodes "u64 list"
  | ToNode u64
  | ToNodes "u64 list"
  | AtPercent int
  | WithSequence u64
  | WithEpoch u64
  | OfType msgKind

definition fromSelf :: mangleFilter where
  [go_defs]: "fromSelf = emptyFilter\<lparr>mfMsgSource := Some (\<lambda>target actualSource. target = actualSource)\<rparr>"

definition fromNode :: "u64 \<Rightarrow> mangleFilter" where
  [go_defs]: "fromNode source = emptyFilter\<lparr>mfMsgSource := Some (\<lambda>target actualSource. actualSource = source \<and> target \<noteq> actualSource)\<rparr>"

definition fromNodes :: "u64 list \<Rightarrow> mangleFilter" where
  [go_defs]: "fromNodes sources = emptyFilter\<lparr>mfMsgSource := Some (\<lambda>target actualSource.
     if target = actualSource then False else list_ex (\<lambda>source. source = actualSource) sources)\<rparr>"

definition toNode :: "u64 \<Rightarrow> mangleFilter" where
  [go_defs]: "toNode target = emptyFilter\<lparr>mfTarget := Some (\<lambda>actualNode. target = actualNode)\<rparr>"

definition toNodes :: "u64 list \<Rightarrow> mangleFilter" where
  [go_defs]: "toNodes targets = emptyFilter\<lparr>mfTarget := Some (\<lambda>actualNode. list_ex (\<lambda>target. target = actualNode) targets)\<rparr>"

definition atPercent :: "int \<Rightarrow> mangleFilter" where
  [go_defs]: "atPercent percent = emptyFilter\<lparr>mfBlind := Some (\<lambda>random. random smod 100 \<le> percent)\<rparr>"

definition withSequence :: "u64 \<Rightarrow> mangleFilter" where
  [go_defs]: "withSequence seqNo = emptyFilter\<lparr>mfMsgSeqNo := Some (\<lambda>actualSeqNo. seqNo = actualSeqNo)\<rparr>"

definition withEpoch :: "u64 \<Rightarrow> mangleFilter" where
  [go_defs]: "withEpoch epochNo = emptyFilter\<lparr>mfMsgEpoch := Some (\<lambda>actualEpoch. epochNo = actualEpoch)\<rparr>"

definition ofType :: "msgKind \<Rightarrow> mangleFilter" where
  [go_defs]: "ofType kind = emptyFilter\<lparr>mfMsgContents := Some (\<lambda>msg. kindOf msg = kind)\<rparr>"

fun baseMangling :: "matchMethod \<Rightarrow> mangleFilter" where
  "baseMangling FromSelf = fromSelf"
| "baseMangling (FromNode source) = fromNode source"
| "baseMangling (FromNodes sources) = fromNodes sources"
| "baseMangling (ToNode target) = toNode target"
| "baseMangling (ToNodes targets) = toNodes targets"
| "baseMangling (AtPercent percent) = atPercent percent"
| "baseMangling (WithSequence seqNo) = withSequence seqNo"
| "baseMangling (WithEpoch epochNo) = withEpoch epochNo"
| "baseMangling (OfType kind) = ofType kind"

section \<open>Matchings\<close>

text \<open>The methods of \<open>baseMangling\<close> and the fields of the four kinds of matchings, by name.\<close>

definition baseMethods :: "string list" where
  "baseMethods = [''FromSelf'', ''FromNode'', ''FromNodes'', ''ForNode'', ''ForNodes'', ''ToNode'', ''ToNodes'', ''AtPercent'', ''WithSequence'',
     ''WithEpoch'', ''OfTypePreprepare'', ''OfTypePrepare'', ''OfTypeCommit'', ''OfTypeCheckpoint'', ''OfTypeSuspect'', ''OfTypeEpochChange'',
     ''OfTypeEpochChangeAck'', ''OfTypeNewEpoch'', ''OfTypeNewEpochEcho'', ''OfTypeNewEpochReady'', ''OfTypeFetchBatch'',
     ''OfTypeForwardBatch'', ''OfTypeFetchRequest'', ''OfTypeForwardRequest'', ''OfTypeRequestAck'']"

definition MsgTypeMatching :: "string list" where
  "MsgTypeMatching = [''FromSelf'', ''FromNode'', ''FromNodes'', ''ToNode'', ''ToNodes'', ''AtPercent'', ''WithSequence'', ''WithEpoch'']"

definition MsgMatching :: "string list" where
  "MsgMatching = [''FromSelf'', ''FromNode'', ''FromNodes'', ''ToNode'', ''ToNodes'', ''AtPercent'', ''WithSequence'', ''OfTypePreprepare'',
     ''OfTypePrepare'', ''OfTypeCommit'', ''OfTypeCheckpoint'', ''OfTypeSuspect'', ''OfTypeEpochChange'', ''OfTypeEpochChangeAck'',
     ''OfTypeNewEpoch'', ''OfTypeNewEpochEcho'', ''OfTypeNewEpochReady'', ''OfTypeFetchBatch'', ''OfTypeForwardBatch'', ''OfTypeRequestAck'']"

definition StartupMatching :: "string list" where
  "StartupMatching = [''ForNode'', ''ForNodes'']"

definition ClientMatching :: "string list" where
  "ClientMatching = [''ToNode'', ''ToNodes'', ''AtPercent'', ''FromClient'']"

text \<open>A field without a method of its name panics.\<close>

definition initializeMatching :: "string list \<Rightarrow> unit option" where
  [go_defs]: "initializeMatching names = assert (list_all (\<lambda>name. List.member baseMethods name) names)"

definition stateEventFilter :: "(Event \<Rightarrow> bool) \<Rightarrow> mangleFilter" where
  [go_defs]: "stateEventFilter f = emptyFilter\<lparr>mfStateEvent := Some f\<rparr>"

definition newMsgMatching :: "mangleFilter list option" where
  [go_defs]: "newMsgMatching = do {
     initializeMatching MsgMatching;
     Some [stateEventFilter (\<lambda>ev. case ev of Event_Step _ _ \<Rightarrow> True | _ \<Rightarrow> False)]
   }"

definition newStartupMatching :: "mangleFilter list option" where
  [go_defs]: "newStartupMatching = do {
     initializeMatching StartupMatching;
     Some [stateEventFilter (\<lambda>ev. case ev of Event_Initialize _ \<Rightarrow> True | _ \<Rightarrow> False)]
   }"

definition MatchClientProposal :: "mangleFilter list option" where
  [go_defs]: "MatchClientProposal = do {
     initializeMatching ClientMatching;
     Some [stateEventFilter (\<lambda>ev. case ev of Event_RequestPersisted _ \<Rightarrow> True | _ \<Rightarrow> False)]
   }"

text \<open>Calling a method appends its filter.\<close>

definition matchMsgs :: "matchMethod list \<Rightarrow> mangleFilter list option" where
  [go_defs]: "matchMsgs methods = map_option (\<lambda>fs. fs @ map baseMangling methods) newMsgMatching"

section \<open>Manglers\<close>

datatype mangling = For "mangleFilter list" | After "mangleFilter list" | Until "mangleFilter list"

text \<open>The variable \<open>matched\<close> of \<open>After\<close> and \<open>Until\<close> is the state of a mangling.\<close>

fun manglingMatches :: "mangling \<Rightarrow> bool \<Rightarrow> int \<Rightarrow> recEvent \<Rightarrow> (bool \<times> bool) option" where
  "manglingMatches (For fs) matched random event = map_option (\<lambda>ok. (matched, ok)) (Matches fs random event)"
| "manglingMatches (After fs) matched random event =
     (if matched then Some (True, True) else map_option (\<lambda>ok. (ok, ok)) (Matches fs random event))"
| "manglingMatches (Until fs) matched random event =
     (if matched then Some (True, False) else map_option (\<lambda>ok. (ok, \<not> ok)) (Matches fs random event))"

text \<open>A result is an event and whether it is to be mangled again. The remainder by zero panics.\<close>

type_synonym mangleResults = "(recEvent \<times> bool) list"

datatype mangler =
    DropMangler
  | DuplicateMangler int
  | JitterMangler int
  | DelayMangler int
  | CrashAndRestartAfterMangler InitialParameters i64

definition delayed :: "i64 \<Rightarrow> recEvent \<Rightarrow> recEvent" where
  [go_defs]: "delayed delay event = event\<lparr>reTime := reTime event + delay\<rparr>"

definition randomDelay :: "int \<Rightarrow> int \<Rightarrow> i64 option" where
  [go_defs]: "randomDelay random maxDelay = (if maxDelay = 0 then None else Some (word_of_int (random smod maxDelay)))"

fun Mangle :: "mangler \<Rightarrow> int \<Rightarrow> recEvent \<Rightarrow> mangleResults option" where
  "Mangle DropMangler random event = Some []"
| "Mangle (DuplicateMangler maxDelay) random event =
     map_option (\<lambda>delay. [(event, False), (delayed delay event, False)]) (randomDelay random maxDelay)"
| "Mangle (JitterMangler maxDelay) random event =
     map_option (\<lambda>delay. [(delayed delay event, False)]) (randomDelay random maxDelay)"
| "Mangle (DelayMangler delay) random event = Some [(delayed (word_of_int delay) event, True)]"
| "Mangle (CrashAndRestartAfterMangler initParms delay) random event =
     Some [(event, False),
       (\<lparr>reNodeId = ipId initParms, reTime = reTime event + delay, reStateEvent = Event_Initialize initParms\<rparr>, False)]"

definition mangling_Do :: "mangling \<Rightarrow> mangler \<Rightarrow> bool \<Rightarrow> int \<Rightarrow> recEvent \<Rightarrow> (bool \<times> mangleResults) option" where
  [go_defs]: "mangling_Do m mangler matched random event = do {
     (matched, ok) \<leftarrow> manglingMatches m matched random event;
     if \<not> ok then Some (matched, [(event, False)])
     else map_option (\<lambda>results. (matched, results)) (Mangle mangler random event)
   }"

section \<open>What matchings match\<close>

lemma newMsgMatching_ok:
  "newMsgMatching = Some [stateEventFilter (\<lambda>ev. case ev of Event_Step _ _ \<Rightarrow> True | _ \<Rightarrow> False)]"
  "newStartupMatching = Some [stateEventFilter (\<lambda>ev. case ev of Event_Initialize _ \<Rightarrow> True | _ \<Rightarrow> False)]"
proof -
  have "initializeMatching MsgMatching = Some ()" "initializeMatching StartupMatching = Some ()" by code_simp+
  then show "newMsgMatching = Some [stateEventFilter (\<lambda>ev. case ev of Event_Step _ _ \<Rightarrow> True | _ \<Rightarrow> False)]"
    "newStartupMatching = Some [stateEventFilter (\<lambda>ev. case ev of Event_Initialize _ \<Rightarrow> True | _ \<Rightarrow> False)]"
    by (simp_all add: newMsgMatching_def newStartupMatching_def)
qed

text \<open>There is no method for the field \<open>FromClient\<close>.\<close>

lemma client_matching_panics: "MatchClientProposal = None"
proof -
  have "initializeMatching ClientMatching = None" by code_simp
  then show ?thesis by (simp add: MatchClientProposal_def)
qed

text \<open>What a method asks of a message from a source to a target.\<close>

fun asksFor :: "matchMethod \<Rightarrow> int \<Rightarrow> u64 \<Rightarrow> u64 \<Rightarrow> Msg \<Rightarrow> bool" where
  "asksFor FromSelf random target source msg \<longleftrightarrow> source = target"
| "asksFor (FromNode n) random target source msg \<longleftrightarrow> source = n \<and> source \<noteq> target"
| "asksFor (FromNodes ns) random target source msg \<longleftrightarrow> source \<in> set ns \<and> source \<noteq> target"
| "asksFor (ToNode n) random target source msg \<longleftrightarrow> target = n"
| "asksFor (ToNodes ns) random target source msg \<longleftrightarrow> target \<in> set ns"
| "asksFor (AtPercent p) random target source msg \<longleftrightarrow> random smod 100 \<le> p"
| "asksFor (WithSequence n) random target source msg \<longleftrightarrow> filterSeqNo msg = Some n"
| "asksFor (WithEpoch n) random target source msg \<longleftrightarrow> filterEpoch msg = Some (Some n)"
| "asksFor (OfType k) random target source msg \<longleftrightarrow> kindOf msg = k"

lemma method_apply:
  assumes "reStateEvent event = Event_Step source msg" "msg \<noteq> Msg_NewEpoch None"
  shows "mf_apply (baseMangling m) random event = Some (asksFor m random (reNodeId event) source msg)"
proof -
  from assms(2) obtain ep where ep: "filterEpoch msg = Some ep" by (cases msg) auto
  show ?thesis
    using ep assms(1) by (cases m)
      (auto simp: mf_apply_def go_defs emptyFilter_def list_ex_iff split: option.splits)
qed

lemma methods_match:
  assumes "reStateEvent event = Event_Step source msg" "msg \<noteq> Msg_NewEpoch None"
  shows "Matches (map baseMangling methods) random event =
    Some (\<forall>m \<in> set methods. asksFor m random (reNodeId event) source msg)"
  by (induction methods) (simp_all add: method_apply [OF assms])



text \<open>Ten percent are eleven in a hundred.\<close>

lemma ten_percent_are_eleven: "length (filter (\<lambda>random. asksFor (AtPercent 10) random target source msg) [0..99]) = 11"
  by (simp only: asksFor.simps) code_simp

section \<open>The simulated time\<close>

text \<open>The log of pending events in order of time, the current time, how many random numbers were drawn, the state of the
  mangler, and the events already written out.\<close>

record 'm eventLog =
  elList :: "(recEvent \<times> bool) list"
  elFakeTime :: i64
  elDraws :: nat
  elMangler :: 'm
  elOutput :: "recEvent list"

definition el_Insert :: "recEvent \<times> bool \<Rightarrow> 'm eventLog \<Rightarrow> 'm eventLog option" where
  [go_defs]: "el_Insert e l =
     (if sint (reTime (fst e)) < sint (elFakeTime l) then None
      else
        (let later = (\<lambda>x. sint (reTime (fst x)) > sint (reTime (fst e))) in
         Some (l\<lparr>elList := takeWhile (\<lambda>x. \<not> later x) (elList l) @ e # dropWhile (\<lambda>x. \<not> later x) (elList l)\<rparr>)))"

definition el_InsertStateEvent :: "u64 \<Rightarrow> Event \<Rightarrow> i64 \<Rightarrow> 'm eventLog \<Rightarrow> 'm eventLog option" where
  [go_defs]: "el_InsertStateEvent target stateEvent fromNow l =
     el_Insert (\<lparr>reNodeId = target, reTime = elFakeTime l + fromNow, reStateEvent = stateEvent\<rparr>, False) l"

definition el_InsertTickEvent :: "u64 \<Rightarrow> i64 \<Rightarrow> 'm eventLog \<Rightarrow> 'm eventLog option" where
  [go_defs]: "el_InsertTickEvent target fromNow l = el_InsertStateEvent target Event_TickElapsed fromNow l"

definition el_InsertStepEvent :: "u64 \<Rightarrow> u64 \<Rightarrow> Msg \<Rightarrow> i64 \<Rightarrow> 'm eventLog \<Rightarrow> 'm eventLog option" where
  [go_defs]: "el_InsertStepEvent target source msg fromNow l = el_InsertStateEvent target (Event_Step source msg) fromNow l"

definition el_InsertProcess :: "u64 \<Rightarrow> i64 \<Rightarrow> 'm eventLog \<Rightarrow> 'm eventLog option" where
  [go_defs]: "el_InsertProcess target fromNow l = el_InsertStateEvent target Event_ActionsReceived fromNow l"

text \<open>The next event, or nothing at the end; the loop may go on for ever when events are mangled again and again.\<close>

partial_function (option) el_ReadEvent ::
  "('m \<Rightarrow> int \<Rightarrow> recEvent \<Rightarrow> ('m \<times> mangleResults) option) option \<Rightarrow> (nat \<Rightarrow> int) \<Rightarrow> 'm eventLog \<Rightarrow>
     ('m eventLog \<times> recEvent option) option" where
  "el_ReadEvent mangle rand l =
     (case elList l of
        [] \<Rightarrow> Some (l, None)
      | (event, mangled) # rest \<Rightarrow>
          (case (if mangled then None else mangle) of
             None \<Rightarrow> Some (l\<lparr>elList := rest, elFakeTime := reTime event, elOutput := elOutput l @ [event]\<rparr>, Some event)
           | Some f \<Rightarrow>
               Option.bind (f (elMangler l) (rand (elDraws l)) event) (\<lambda>(m, results).
               Option.bind (ofold (\<lambda>(e, again). el_Insert (e, \<not> again)) results
                 (l\<lparr>elList := rest, elDraws := Suc (elDraws l), elMangler := m\<rparr>)) (\<lambda>l.
               el_ReadEvent mangle rand l))))"

definition inTime :: "'m eventLog \<Rightarrow> bool" where
  "inTime l \<longleftrightarrow> sorted (map (\<lambda>x. sint (reTime (fst x))) (elList l)) \<and>
     (\<forall>x \<in> set (elList l). sint (elFakeTime l) \<le> sint (reTime (fst x)))"

lemma sorted_insert_middle:
  fixes f :: "'a \<Rightarrow> int"
  assumes "sorted (map f xs)"
  shows "sorted (map f (takeWhile (\<lambda>x. \<not> f x > f e) xs @ e # dropWhile (\<lambda>x. \<not> f x > f e) xs))"
  using assms
proof (induction xs)
  case (Cons x xs)
  then show ?case by (auto dest: set_takeWhileD set_dropWhileD)
qed simp

lemma set_insert_middle: "set (takeWhile P xs @ e # dropWhile P xs) = insert e (set xs)"
  by (metis Un_insert_right set_append list.simps(15) takeWhile_dropWhile_id)

lemma filter_insert_middle: "\<not> Q e \<Longrightarrow> filter Q (takeWhile P xs @ e # dropWhile P xs) = filter Q xs"
  by (metis filter.simps(2) filter_append takeWhile_dropWhile_id)

lemma el_Insert_inTime:
  assumes "inTime l" "sint (elFakeTime l) \<le> sint (reTime (fst e))" "snd e"
  shows "\<exists>l'. el_Insert e l = Some l' \<and> inTime l' \<and> elFakeTime l' = elFakeTime l \<and> elOutput l' = elOutput l \<and>
    filter (\<lambda>x. \<not> snd x) (elList l') = filter (\<lambda>x. \<not> snd x) (elList l)"
  using assms sorted_insert_middle [of "\<lambda>x. sint (reTime (fst x))" "elList l" e]
  unfolding el_Insert_def inTime_def Let_def
  by (simp add: set_insert_middle filter_insert_middle del: map_append set_append filter_append)

lemma insertAll_inTime:
  assumes "inTime l" "\<forall>(e, again) \<in> set results. \<not> again \<and> sint (elFakeTime l) \<le> sint (reTime e)"
  shows "\<exists>l'. ofold (\<lambda>(e, again). el_Insert (e, \<not> again)) results l = Some l' \<and> inTime l' \<and> elFakeTime l' = elFakeTime l \<and> elOutput l' = elOutput l \<and>
    filter (\<lambda>x. \<not> snd x) (elList l') = filter (\<lambda>x. \<not> snd x) (elList l)"
  using assms
proof (induction results arbitrary: l)
  case (Cons r results)
  obtain e again where r: "r = (e, again)" by (cases r)
  with Cons.prems obtain l1 where l1: "el_Insert (e, \<not> again) l = Some l1" "inTime l1" "elFakeTime l1 = elFakeTime l" "elOutput l1 = elOutput l"
      "filter (\<lambda>x. \<not> snd x) (elList l1) = filter (\<lambda>x. \<not> snd x) (elList l)"
    using el_Insert_inTime [of l "(e, \<not> again)"] by auto
  with Cons.IH [of l1] Cons.prems show ?case by (auto simp: r)
qed simp

text \<open>A mangler that mangles an event once and never moves it back in time.\<close>

definition forwardMangler :: "('m \<Rightarrow> int \<Rightarrow> recEvent \<Rightarrow> ('m \<times> mangleResults) option) \<Rightarrow> (nat \<Rightarrow> int) \<Rightarrow> recEvent \<Rightarrow> bool" where
  "forwardMangler f rand e \<longleftrightarrow> (\<forall>m n. \<exists>m' results. f m (rand n) e = Some (m', results) \<and>
     (\<forall>(e', again) \<in> set results. \<not> again \<and> sint (reTime e) \<le> sint (reTime e')))"


definition tickLog :: "bool eventLog" where
  "tickLog = \<lparr>elList = [(\<lparr>reNodeId = 1, reTime = 5, reStateEvent = Event_TickElapsed\<rparr>, False)], elFakeTime = 0, elDraws = 0,
     elMangler = False, elOutput = []\<rparr>"


end
