(* ===== verification/Spec2Isabelle.thy ===== *)
theory Spec2Isabelle
  imports Mir_Agreement Mir_ClientWindow Mir_Application Mir_Serializer Mir_ClientProcessor Mir_SimpleWAL
    Mir_MsgFilter Mir_Manglers
begin

text \<open>
  A verification library for \<open>mirbft\<close>, a library for Byzantine fault tolerant ordering of client requests.

  \<^bold>\<open>The program.\<close> The protocol is a deterministic state machine (\<open>pkg/statemachine\<close>): it is given events (messages, ticks,
  hashes, persisted requests, checkpoints of the application, entries of the log) and returns actions (write to the log,
  send, hash, commit, take a checkpoint, transfer state). A go routine owns it (\<open>serializer.go\<close>, \<open>mirbft.go\<close>); a processor
  carries the actions out on the hasher, the log, the link and the application (\<open>processor.go\<close>), and a client processor
  accepts the requests of clients and stores them (\<open>client_processor.go\<close>). Samples of the two stores are
  \<open>pkg/reqstore\<close> and \<open>pkg/simplewal\<close>; \<open>pkg/eventlog\<close> records events, and \<open>pkg/testengine\<close> replays them with faults.

  \<^bold>\<open>How the code is represented.\<close> An unsigned integer is a word of its width; signed ones are words read by \<open>sint\<close>, and
  Go's \<open>int\<close> is \<open>int\<close> or \<open>nat\<close>. A struct is a record, a oneof a datatype, and a slice of bytes \<open>bytes\<close>, with \<open>None\<close> for nil. A
  Go map is an association list in the order of insertion (\<open>gm_lookup\<close>, \<open>gm_update\<close>), or a function where the order cannot matter.
  An operation is a function on the state it changes. \<open>None\<close> is a panic, and also a loop that never
  ends, since such loops are \<open>partial_function (option)\<close>: that an operation returns \<open>Some\<close> says that it
  does neither. Errors are values. Objects that several components point to (requests, request numbers, sequences) are in
  explicit stores. \<open>proto.Size\<close> and \<open>proto.Equal\<close> are the parameters \<open>psize\<close> and \<open>peq\<close>. There is no fuel anywhere.

  \<^bold>\<open>The theories.\<close>

  \<^item> \<open>Mir_Prelude\<close>: types, partiality, maps, generic lemmas. \<open>Mir_Format\<close>: the printing verbs of \<open>fmt\<close>. \<open>Mir_Msgs\<close>: the data
    of \<open>pkg/pb/msgs\<close> and \<open>pkg/pb/state\<close>. \<open>Mir_Actions\<close>: \<open>actions.go\<close>, \<open>events.go\<close>.
  \<^item> \<open>Mir_Stateless\<close>: \<open>stateless.go\<close>: bit masks, quorums, buckets, the hash input of epoch changes. Any two quorums share
    a correct node; the hashed data determines an epoch change up to the boundary of its two sets.
  \<^item> \<open>Mir_Persisted\<close>: \<open>persisted.go\<close>: the log, its truncation and the epoch change built from it; a restart recovers the log.
  \<^item> \<open>Mir_Sequence\<close>, \<open>Mir_Agreement\<close>: \<open>sequence.go\<close>: the three phases of one sequence number. Replicas agree; votes are
    logged first; no method panics when used as intended; a sequence with its quorums is committed.
  \<^item> \<open>Mir_CommitState\<close>, \<open>Mir_ClientWindow\<close>: \<open>commitstate.go\<close>: entries are handed out in order, each once; which requests of a
    client are committed survives a checkpoint.
  \<^item> \<open>Mir_MsgBuffers\<close>: \<open>msgbuffers.go\<close>: the buffers are bounded. \<open>Mir_Checkpoints\<close>: \<open>checkpoints.go\<close>: stable checkpoints
    agree, and the window stays well-formed.
  \<^item> \<open>Mir_EpochChange\<close>: \<open>epoch_change.go\<close> and \<open>constructNewEpochConfig\<close>: a new epoch keeps whatever was committed before.
  \<^item> \<open>Mir_BatchTracker\<close>, \<open>Mir_ClientTracker\<close>, \<open>Mir_ClientHash\<close>, \<open>Mir_Proposer\<close>, \<open>Mir_Outstanding\<close>: \<open>batch_tracker.go\<close>,
    \<open>client_tracker.go\<close>, \<open>client_hash_disseminator.go\<close>, \<open>proposer.go\<close>, \<open>outstanding.go\<close>.
  \<^item> \<open>Mir_EpochActive\<close>, \<open>Mir_EpochTarget\<close>, \<open>Mir_EpochTracker\<close>, \<open>Mir_StateMachine\<close>: \<open>epoch_active.go\<close>, \<open>epoch_target.go\<close>,
    \<open>epoch_tracker.go\<close>, \<open>state_machine.go\<close>: the whole of \<open>applyEvent\<close>.
  \<^item> \<open>Mir_EpochOutput\<close>, \<open>Mir_NodeOutput\<close>, \<open>Mir_Node\<close>: what every operation sends, logs and hands out, up to whole events: no
    vote without its log entry, and the commits of a node in order.
  \<^item> \<open>Mir_Recovery\<close>: restarts and changes of epoch: where a resumed epoch starts, and the cases in which a node is let down.
  \<^item> \<open>Mir_Processor\<close>: \<open>processor.go\<close>. \<open>Mir_EndToEnd\<close>: a vote is durable before it leaves the node. \<open>Mir_Application\<close>: the loop
    of state machine and processor; the application applies the batches in order.
  \<^item> \<open>Mir_Serializer\<close>: \<open>serializer.go\<close>, \<open>mirbft.go\<close>, \<open>config.go\<close>: the node is its state machine, whatever the order of its
    inputs; a new node starts like one that restarts.
  \<^item> \<open>Mir_ReqStore\<close>, \<open>Mir_ClientProcessor\<close>: \<open>reqstore.go\<close>, \<open>client_processor.go\<close>: the store is two maps; only stored requests
    are announced, and one digest for each number. \<open>Mir_SimpleWAL\<close>: \<open>simplewal.go\<close>: loading recovers the log.
  \<^item> \<open>Mir_MsgFilter\<close>: \<open>msgfilter.go\<close>. \<open>Mir_EventLog\<close>: \<open>pkg/eventlog\<close>: what was recorded is read back. \<open>Mir_Manglers\<close>:
    \<open>manglers.go\<close> and \<open>eventlog.go\<close> of \<open>pkg/testengine\<close>: injected faults and simulated time.

  \<^bold>\<open>Interfaces.\<close> \<open>quorum_system\<close> and \<open>bit_vector\<close> (\<open>Mir_Stateless\<close>), \<open>wal\<close> (\<open>Mir_Persisted\<close>) and \<open>lossy_fifo\<close> (\<open>Mir_MsgBuffers\<close>)
  are locales interpreted on the code's definitions. Third-party code is a parameter whose documented behaviour is a
  named hypothesis: \<open>badgerLaws\<close>, \<open>walLogLaws\<close>, \<open>protoLaws\<close>, \<open>eventProtoLaws\<close>; hypotheses on the rest of a network say which of
  its nodes are correct.

  \<^bold>\<open>Where the code falls short.\<close> Several theorems show how the code differs from what it is meant to do: votes counted twice
  (\<open>leader_prepare_counted_twice\<close>, \<open>owner_commit_counted_twice\<close>, \<open>checkpoint_counted_twice\<close>), a forged starting
  checkpoint (\<open>forged_checkpoint_selected\<close>), a lost window (\<open>full_window_loses_client\<close>), the four cases of \<open>Mir_Recovery\<close>, and a
  proposal taken for stored (\<open>failed_proposal_dropped\<close>). The theorems on agreement have hypotheses that exclude these cases.

  \<^bold>\<open>What is not modelled.\<close> Log output and status reports; generated marshalling code; go routines, channels and mutexes other
  than as the interleavings they allow; opening and closing of files and databases; compression; the test engine's recorder and player,
  and the command line tool \<open>mircat\<close>, which only drive and print what is modelled here. That the whole network makes progress is not
  shown: only that a sequence does once it has its quorums. State transfers are left out of \<open>Mir_Application\<close>.
\<close>

end
